(* ===== verification/Go_Prelude.thy ===== *)
theory Go_Prelude
  imports
    Main
    "HOL-Library.Word"
    "HOL-Library.Finite_Map"
    "HOL-Library.List_Lexorder"
    "HOL-Library.Char_ord"
begin

text \<open>
  The shared ground of the development: the Go integer types as bounded or wrapping
  HOL numbers, Go maps as finite maps, positional number systems, and the generic
  contract of a transition system with an inductive invariant.

  \<^item> A Go \<open>int\<close> or \<open>int64\<close> (both 64 bits wide on the supported platforms) is an \<^typ>\<open>int\<close>;
    \<open>wrap64\<close> is the two's complement reduction that every operation which may leave
    the range applies explicitly.
  \<^item> A Go \<open>uint64\<close> is a \<open>64 word\<close>.
  \<^item> A Go \<open>map[K]V\<close> is a finite map. \<open>fmget0\<close> reads a map of numbers with Go's zero
    default, \<open>fm_size\<close> is \<open>len(m)\<close>.
  \<^item> A Go \<open>string\<close> is the list of its bytes.
\<close>

named_theorems go_simps \<open>rewrite rules of the Go base layer\<close>
named_theorems codec_simps \<open>print and parse rules\<close>

type_synonym int64 = int
type_synonym uint64 = "64 word"

subsection \<open>64 bit integers\<close>

definition MaxInt64 :: int where
  "MaxInt64 = 2 ^ 63 - 1"

definition MinInt64 :: int where
  "MinInt64 = - (2 ^ 63)"

definition int64_ok :: "int \<Rightarrow> bool" where
  "int64_ok x \<longleftrightarrow> MinInt64 \<le> x \<and> x \<le> MaxInt64"

definition wrap64 :: "int \<Rightarrow> int" where
  "wrap64 x = (x + 2 ^ 63) mod 2 ^ 64 - 2 ^ 63"

lemmas int64_defs = MaxInt64_def MinInt64_def int64_ok_def wrap64_def

lemma wrap64_ok [simp]: "int64_ok (wrap64 x)"
proof -
  have "0 \<le> (x + 2 ^ 63) mod (2 ^ 64 :: int)" and "(x + 2 ^ 63) mod (2 ^ 64 :: int) < 2 ^ 64"
    by simp_all
  then show ?thesis by (simp add: int64_defs)
qed

lemma wrap64_id [go_simps]: "int64_ok x \<Longrightarrow> wrap64 x = x"
  by (simp add: int64_defs)

lemma int64_okI [intro]: "0 \<le> x \<Longrightarrow> x \<le> MaxInt64 \<Longrightarrow> int64_ok x"
  by (simp add: int64_defs)

subsection \<open>Maps\<close>

definition fm_size :: "('k, 'v) fmap \<Rightarrow> nat" where
  "fm_size m = fcard (fmdom m)"

definition fmget0 :: "('k, int) fmap \<Rightarrow> 'k \<Rightarrow> int" where
  "fmget0 m k = (case fmlookup m k of None \<Rightarrow> 0 | Some n \<Rightarrow> n)"

lemma fmget0_simps [simp]:
  "fmget0 fmempty k = 0"
  "fmget0 (fmupd k v m) k' = (if k = k' then v else fmget0 m k')"
  "fmget0 (fmdrop k m) k' = (if k = k' then 0 else fmget0 m k')"
  by (simp_all add: fmget0_def)

lemma fm_size_empty [simp]: "fm_size fmempty = 0"
  by (simp add: fm_size_def)

lemma fm_size_upd: "fm_size (fmupd k v m) = (if k |\<in>| fmdom m then fm_size m else Suc (fm_size m))"
  by (simp add: fm_size_def fcard_finsert_if finsert_absorb)

lemma fm_size_drop: "fm_size (fmdrop k m) = (if k |\<in>| fmdom m then fm_size m - 1 else fm_size m)"
  by (simp add: fm_size_def)

lemma fm_size_card: "fm_size m = card (fmdom' m)"
  by (simp add: fm_size_def fcard.rep_eq fmdom'_alt_def)

lemma fm_size_0_iff [simp]: "fm_size m = 0 \<longleftrightarrow> m = fmempty"
  by (metis fcard_0_eq fm_size_def fmap_ext fmdom_empty fmdom_notD fmempty_lookup fempty_iff)

text \<open>
  Reference counting in a map of positive counts: \<open>m[k]++\<close>, and the decrement that
  deletes the key when the count would reach zero.
\<close>

definition fm_inc :: "'k \<Rightarrow> ('k, int) fmap \<Rightarrow> ('k, int) fmap" where
  "fm_inc k m = fmupd k (fmget0 m k + 1) m"

definition fm_dec :: "'k \<Rightarrow> ('k, int) fmap \<Rightarrow> ('k, int) fmap" where
  "fm_dec k m = (if fmget0 m k > 1 then fmupd k (fmget0 m k - 1) m else fmdrop k m)"

text \<open>
  The map holds exactly the positive values of a counting function: the contract that
  \<open>fm_inc\<close> and \<open>fm_dec\<close> keep.
\<close>

definition counts :: "('k, int) fmap \<Rightarrow> ('k \<Rightarrow> nat) \<Rightarrow> bool" where
  "counts m f \<longleftrightarrow> (\<forall>k. fmlookup m k = (if f k = 0 then None else Some (int (f k))))"

lemma counts_get: "counts m f \<Longrightarrow> fmget0 m k = int (f k)"
  by (simp add: counts_def fmget0_def)

lemma counts_dom: "counts m f \<Longrightarrow> k |\<in>| fmdom m \<longleftrightarrow> 0 < f k"
  by (simp add: counts_def fmlookup_dom_iff)

lemma counts_dom': "counts m f \<Longrightarrow> fmdom' m = {k. 0 < f k}"
  using counts_dom [of m f] by (auto simp: fmdom'_alt_def)

lemma counts_inc: "counts m f \<Longrightarrow> counts (fm_inc k m) (f(k := Suc (f k)))"
  by (auto simp: counts_def fm_inc_def fmget0_def)

lemma counts_dec: "counts m f \<Longrightarrow> counts (fm_dec k m) (f(k := f k - 1))"
  by (auto simp: counts_def fm_dec_def fmget0_def)

lemma counts_empty_iff: "counts m f \<Longrightarrow> m = fmempty \<longleftrightarrow> (\<forall>k. f k = 0)"
  using counts_dom' [of m f] by (auto simp: counts_def intro!: fmap_ext)

lemma counts_size: "counts m f \<Longrightarrow> fm_size m = card {k. 0 < f k}"
  by (simp add: fm_size_card counts_dom')

subsection \<open>Positional number systems\<close>

definition from_base :: "nat \<Rightarrow> nat list \<Rightarrow> nat" where
  "from_base B ds = foldl (\<lambda>a d. a * B + d) 0 ds"

primrec to_base :: "nat \<Rightarrow> nat \<Rightarrow> nat \<Rightarrow> nat list" where
  "to_base B 0 n = []"
| "to_base B (Suc k) n = to_base B k (n div B) @ [n mod B]"

lemma to_base_numeral:
  "to_base B (numeral k) n = to_base B (pred_numeral k) (n div B) @ [n mod B]"
  by (simp add: numeral_eq_Suc)

lemma from_base_snoc [simp]: "from_base B (ds @ [d]) = from_base B ds * B + d"
  by (simp add: from_base_def)

lemma from_base_Nil [simp]: "from_base B [] = 0"
  by (simp add: from_base_def)

lemma from_base_zeros [simp]: "from_base B (replicate n 0) = 0"
  by (induction n) (simp_all add: replicate_append_same [symmetric])

lemma length_to_base [simp]: "length (to_base B k n) = k"
  by (induction k arbitrary: n) auto

lemma to_base_less: "0 < B \<Longrightarrow> d \<in> set (to_base B k n) \<Longrightarrow> d < B"
  by (induction k arbitrary: n) auto

lemma from_to_base: "0 < B \<Longrightarrow> n < B ^ k \<Longrightarrow> from_base B (to_base B k n) = n"
proof (induction k arbitrary: n)
  case (Suc k)
  then have "n div B < B ^ k" by (simp add: less_mult_imp_div_less mult.commute)
  with Suc show ?case by simp
qed simp

lemma to_from_base:
  "0 < B \<Longrightarrow> \<forall>d \<in> set ds. d < B \<Longrightarrow> length ds = k \<Longrightarrow> to_base B k (from_base B ds) = ds"
proof (induction k arbitrary: ds)
  case (Suc k)
  then obtain es e where "ds = es @ [e]" by (metis length_Suc_conv rev_exhaust list.distinct(1))
  with Suc show ?case by simp
qed simp

lemma from_base_bound: "0 < B \<Longrightarrow> \<forall>d \<in> set ds. d < B \<Longrightarrow> from_base B ds < B ^ length ds"
proof (induction ds rule: rev_induct)
  case (snoc d ds)
  then have "from_base B ds + 1 \<le> B ^ length ds" and "d < B" by auto
  then have "(from_base B ds + 1) * B \<le> B ^ length ds * B" by (intro mult_right_mono) simp_all
  with \<open>d < B\<close> show ?case by (simp add: algebra_simps)
qed simp

subsection \<open>Lists\<close>

lemma sorted_sort_strings: "sorted (sort (xs :: string list))"
  by simp

lemma replicate_numeral: "replicate (numeral k) x = x # replicate (pred_numeral k) x"
  by (simp add: numeral_eq_Suc)

lemma takeWhile_all_stop:
  "\<forall>x \<in> set xs. P x \<Longrightarrow> \<not> P y \<Longrightarrow> takeWhile P (xs @ y # ys) = xs"
  by (simp add: takeWhile_append2)

lemma dropWhile_all_stop:
  "\<forall>x \<in> set xs. P x \<Longrightarrow> \<not> P y \<Longrightarrow> dropWhile P (xs @ y # ys) = y # ys"
  by (simp add: dropWhile_append2)

lemma length_filter_update:
  assumes "i < length xs"
  shows "length (filter P (xs[i := y])) + (if P (xs ! i) then 1 else 0)
       = length (filter P xs) + (if P y then 1 else 0)"
  using assms
proof (induction xs arbitrary: i)
  case (Cons x xs)
  then show ?case by (cases i) auto
qed simp

subsection \<open>Transition systems with an invariant\<close>

text \<open>
  A component whose state changes by steps: what holds initially and is kept by every
  step holds after every run. The step function takes the label of the step; a run is a
  list of labels.
\<close>

primrec run :: "('s \<Rightarrow> 'e \<Rightarrow> 's) \<Rightarrow> 's \<Rightarrow> 'e list \<Rightarrow> 's" where
  "run step s [] = s"
| "run step s (e # es) = run step (step s e) es"

lemma run_append [simp]: "run step s (es @ fs) = run step (run step s es) fs"
  by (induction es arbitrary: s) auto

primrec enabled_run :: "('s \<Rightarrow> 'e \<Rightarrow> 's) \<Rightarrow> ('s \<Rightarrow> 'e \<Rightarrow> bool) \<Rightarrow> 's \<Rightarrow> 'e list \<Rightarrow> bool" where
  "enabled_run step enabled s [] = True"
| "enabled_run step enabled s (e # es) = (enabled s e \<and> enabled_run step enabled (step s e) es)"

lemma enabled_run_True [simp]: "enabled_run step (\<lambda>_ _. True) s es"
  by (induction es arbitrary: s) auto

locale step_invariant =
  fixes step :: "'s \<Rightarrow> 'e \<Rightarrow> 's"
    and enabled :: "'s \<Rightarrow> 'e \<Rightarrow> bool"
    and inv :: "'s \<Rightarrow> bool"
  assumes inv_step: "inv s \<Longrightarrow> enabled s e \<Longrightarrow> inv (step s e)"
begin

lemma inv_run: "inv s \<Longrightarrow> enabled_run step enabled s es \<Longrightarrow> inv (run step s es)"
  by (induction es arbitrary: s) (auto intro: inv_step)

end

end
