(* ===== verification/Go_Text.thy ===== *)
theory Go_Text
  imports Go_Prelude
begin

text \<open>
  The parts of the Go standard library packages \<^verbatim>\<open>strconv\<close>, \<^verbatim>\<open>strings\<close> and
  \<^verbatim>\<open>encoding/hex\<close> that the program uses, on byte strings: decimal and hexadecimal
  numbers, splitting, trimming. The main results are the print/parse round trips.
\<close>

subsection \<open>Digits\<close>

definition digit_char :: "nat \<Rightarrow> char" where
  "digit_char d = ''0123456789abcdef'' ! d"

definition is_digit :: "char \<Rightarrow> bool" where
  "is_digit c \<longleftrightarrow> 48 \<le> (of_char c :: nat) \<and> (of_char c :: nat) \<le> 57"

definition is_hex :: "char \<Rightarrow> bool" where
  "is_hex c \<longleftrightarrow> is_digit c \<or> (97 \<le> (of_char c :: nat) \<and> (of_char c :: nat) \<le> 102)
     \<or> (65 \<le> (of_char c :: nat) \<and> (of_char c :: nat) \<le> 70)"

definition digit_val :: "char \<Rightarrow> nat" where
  "digit_val c = (if is_digit c then of_char c - 48
     else if 97 \<le> (of_char c :: nat) then of_char c - 87 else of_char c - 55)"

lemma of_char_digit_char: "d < 16 \<Longrightarrow> of_char (digit_char d) = (if d < 10 then 48 + d else 87 + d)"
proof -
  assume "d < 16"
  then have "d \<in> set [0..<16]" by simp
  then show ?thesis by (auto simp: digit_char_def upt_rec)
qed

lemma is_digit_digit_char [simp]: "d < 10 \<Longrightarrow> is_digit (digit_char d)"
  by (simp add: is_digit_def of_char_digit_char)

lemma is_hex_digit_char [simp]: "d < 16 \<Longrightarrow> is_hex (digit_char d)"
  by (simp add: is_hex_def is_digit_def of_char_digit_char)

lemma digit_val_digit_char [simp]: "d < 16 \<Longrightarrow> digit_val (digit_char d) = d"
  by (simp add: digit_val_def is_digit_def of_char_digit_char)

lemma digit_val_less_10: "is_digit c \<Longrightarrow> digit_val c < 10"
  by (auto simp: digit_val_def is_digit_def)

lemma digit_val_less_16: "is_hex c \<Longrightarrow> digit_val c < 16"
  by (auto simp: digit_val_def is_hex_def is_digit_def)

lemma is_digit_is_hex: "is_digit c \<Longrightarrow> is_hex c"
  by (simp add: is_hex_def)

text \<open>The digits of a number, most significant first and at least one.\<close>

fun digits :: "nat \<Rightarrow> nat \<Rightarrow> nat list" where
  "digits B n = (if n < B \<or> B \<le> 1 then [n] else digits B (n div B) @ [n mod B])"

declare digits.simps [simp del]

lemma digits_small: "n < B \<Longrightarrow> digits B n = [n]"
  by (simp add: digits.simps)

lemma digits_big: "1 < B \<Longrightarrow> B \<le> n \<Longrightarrow> digits B n = digits B (n div B) @ [n mod B]"
  by (subst digits.simps) simp

lemma digits_nonempty [simp]: "digits B n \<noteq> []"
  by (subst digits.simps) simp

lemma digits_less: "1 < B \<Longrightarrow> d \<in> set (digits B n) \<Longrightarrow> d < B"
proof (induction B n rule: digits.induct)
  case (1 B n)
  then show ?case
    by (cases "n < B") (auto simp: digits_small digits_big)
qed

lemma from_base_digits [simp]: "1 < B \<Longrightarrow> from_base B (digits B n) = n"
proof (induction B n rule: digits.induct)
  case (1 B n)
  then show ?case
    by (cases "n < B") (auto simp: digits_small digits_big from_base_def)
qed

lemma length_digits: "1 < B \<Longrightarrow> 0 < k \<Longrightarrow> n < B ^ k \<Longrightarrow> length (digits B n) \<le> k"
proof (induction k arbitrary: n)
  case (Suc k)
  show ?case
  proof (cases "n < B")
    case False
    with Suc.prems have "n div B < B ^ k" by (simp add: less_mult_imp_div_less mult.commute)
    moreover from False Suc.prems have "0 < k" by (cases k) auto
    ultimately have "length (digits B (n div B)) \<le> k" using Suc by simp
    with False Suc.prems show ?thesis by (simp add: digits_big)
  qed (simp add: digits_small)
qed simp

lemma hd_digits_pos: "1 < B \<Longrightarrow> 0 < n \<Longrightarrow> hd (digits B n) \<noteq> 0"
proof (induction B n rule: digits.induct)
  case (1 B n)
  then show ?case
    by (cases "n < B") (auto simp: digits_small digits_big div_greater_zero_iff)
qed

definition show_base :: "nat \<Rightarrow> nat \<Rightarrow> string" where
  "show_base B n = map digit_char (digits B n)"

definition read_base :: "nat \<Rightarrow> string \<Rightarrow> nat" where
  "read_base B s = from_base B (map digit_val s)"

lemma read_show_base [simp]: "1 < B \<Longrightarrow> B \<le> 16 \<Longrightarrow> read_base B (show_base B n) = n"
proof -
  assume B: "1 < B" "B \<le> 16"
  then have "map digit_val (map digit_char (digits B n)) = digits B n"
    using digits_less [of B _ n] by (force intro: map_idI)
  with B show ?thesis by (simp add: read_base_def show_base_def del: map_map)
qed

lemma show_base_nonempty [simp]: "show_base B n \<noteq> []"
  by (simp add: show_base_def)

lemma show_10_digits: "c \<in> set (show_base 10 n) \<Longrightarrow> is_digit c"
  by (auto simp: show_base_def dest: digits_less [rotated])

lemma show_16_hex: "c \<in> set (show_base 16 n) \<Longrightarrow> is_hex c"
  by (auto simp: show_base_def dest: digits_less [rotated])

subsection \<open>Decimal integers: strconv.FormatInt, Itoa, ParseInt and Atoi\<close>

definition itoa :: "int \<Rightarrow> string" where
  "itoa n = (if n < 0 then CHR ''-'' # show_base 10 (nat (- n)) else show_base 10 (nat n))"

text \<open>
  \<^verbatim>\<open>strconv.ParseInt(s, 10, 64)\<close>, and \<^verbatim>\<open>strconv.Atoi\<close> on a 64 bit platform: an optional
  sign, then at least one digit and nothing else; a value outside the range is an error
  like a malformed one. Both errors are \<open>None\<close>.
\<close>

definition parse_uint :: "string \<Rightarrow> nat option" where
  "parse_uint s = (if s \<noteq> [] \<and> list_all is_digit s then Some (read_base 10 s) else None)"

definition parse_int64 :: "string \<Rightarrow> int option" where
  "parse_int64 s =
     (case s of
        [] \<Rightarrow> None
      | c # cs \<Rightarrow>
          let neg = (c = CHR ''-'');
              body = (if neg \<or> c = CHR ''+'' then cs else s)
          in case parse_uint body of
               None \<Rightarrow> None
             | Some v \<Rightarrow>
                 if neg then (if v > 2 ^ 63 then None else Some (- int v))
                 else (if v \<ge> 2 ^ 63 then None else Some (int v)))"

lemma parse_uint_show [codec_simps]: "parse_uint (show_base 10 n) = Some n"
  by (auto simp: parse_uint_def list_all_iff show_10_digits)

lemma show_10_hd: "show_base 10 n = c # cs \<Longrightarrow> c \<noteq> CHR ''-'' \<and> c \<noteq> CHR ''+''"
proof -
  assume "show_base 10 n = c # cs"
  then have "is_digit c" using show_10_digits [of c n] by simp
  then show ?thesis by (auto simp: is_digit_def)
qed

lemma parse_int64_itoa [codec_simps]: "int64_ok n \<Longrightarrow> parse_int64 (itoa n) = Some n"
proof (cases "n < 0")
  case True
  assume "int64_ok n"
  then have "\<not> nat (- n) > 2 ^ 63" by (simp add: int64_defs nat_le_iff not_less)
  with True show ?thesis by (simp add: parse_int64_def itoa_def parse_uint_show)
next
  case False
  assume "int64_ok n"
  with False have "\<not> nat n \<ge> 2 ^ 63" by (simp add: int64_defs not_le nat_less_iff)
  obtain c cs where s: "show_base 10 (nat n) = c # cs" by (cases "show_base 10 (nat n)") auto
  with show_10_hd [OF s] False \<open>\<not> nat n \<ge> 2 ^ 63\<close> parse_uint_show [of "nat n"]
  show ?thesis by (simp add: parse_int64_def itoa_def)
qed

lemma parse_int64_range: "parse_int64 s = Some n \<Longrightarrow> int64_ok n"
  by (auto simp: parse_int64_def int64_defs Let_def split: list.splits option.splits if_splits)

subsection \<open>The contract of a canonical text form\<close>

text \<open>
  A printer and a parser such that parsing what was printed gives the value back. It is
  what the clients of a canonical text form rely on: equal texts stand for equal values,
  so comparing, sorting and removing duplicates may be done on the texts.
\<close>

locale codec =
  fixes show_text :: "'a \<Rightarrow> string"
    and parse_text :: "string \<Rightarrow> 'a option"
    and ok :: "'a \<Rightarrow> bool"
  assumes parse_show: "ok a \<Longrightarrow> parse_text (show_text a) = Some a"
begin

lemma show_inj: "ok a \<Longrightarrow> ok b \<Longrightarrow> show_text a = show_text b \<Longrightarrow> a = b"
  by (metis option.inject parse_show)

lemma show_eq_iff: "ok a \<Longrightarrow> ok b \<Longrightarrow> show_text a = show_text b \<longleftrightarrow> a = b"
  by (auto intro: show_inj)

end

interpretation dec: codec itoa parse_int64 int64_ok
  by unfold_locales (rule parse_int64_itoa)

subsection \<open>Splitting\<close>

text \<open>\<^verbatim>\<open>strings.Split(s, sep)\<close> for a one byte separator: always at least one part.\<close>

fun split_on :: "char \<Rightarrow> string \<Rightarrow> string list" where
  "split_on c [] = [[]]"
| "split_on c (x # xs) =
     (if x = c then [] # split_on c xs
      else case split_on c xs of p # ps \<Rightarrow> (x # p) # ps | [] \<Rightarrow> [[x]])"

text \<open>\<^verbatim>\<open>strings.Join(parts, sep)\<close>.\<close>

fun join_with :: "string \<Rightarrow> string list \<Rightarrow> string" where
  "join_with sep [] = []"
| "join_with sep [p] = p"
| "join_with sep (p # ps) = p @ sep @ join_with sep ps"

lemma split_on_nonempty [simp]: "split_on c s \<noteq> []"
  by (induction s) (auto split: list.splits)

lemma split_on_none: "c \<notin> set s \<Longrightarrow> split_on c s = [s]"
  by (induction s) auto

lemma split_on_append: "c \<notin> set p \<Longrightarrow> split_on c (p @ c # s) = p # split_on c s"
  by (induction p) auto

lemma split_join: "ps \<noteq> [] \<Longrightarrow> \<forall>p \<in> set ps. c \<notin> set p \<Longrightarrow> split_on c (join_with [c] ps) = ps"
  by (induction "[c]" ps rule: join_with.induct) (auto simp: split_on_none split_on_append)

lemma split_on_part: "p \<in> set (split_on c s) \<Longrightarrow> c \<notin> set p"
  by (induction s arbitrary: p) (auto split: list.splits if_splits)

text \<open>
  \<^verbatim>\<open>strings.FieldsFunc\<close>: the maximal runs of bytes that are not separators.
\<close>

function fields_func :: "(char \<Rightarrow> bool) \<Rightarrow> string \<Rightarrow> string list" where
  "fields_func sep [] = []"
| "fields_func sep (x # xs) =
     (if sep x then fields_func sep xs
      else (x # takeWhile (\<lambda>c. \<not> sep c) xs) # fields_func sep (dropWhile (\<lambda>c. \<not> sep c) xs))"
  by pat_completeness auto
termination
  by (relation "measure (\<lambda>(sep, s). length s)") (auto simp: le_imp_less_Suc length_dropWhile_le)

lemma fields_func_part:
  "p \<in> set (fields_func sep s) \<Longrightarrow> p \<noteq> [] \<and> (\<forall>c \<in> set p. \<not> sep c)"
proof (induction sep s rule: fields_func.induct)
  case (2 sep x xs)
  show ?case
  proof (cases "sep x")
    case True
    from True 2(1)[OF True] 2(3) show ?thesis by simp
  next
    case False
    show ?thesis
    proof (cases "p = x # takeWhile (\<lambda>c. \<not> sep c) xs")
      case True
      show ?thesis unfolding True using False set_takeWhileD[of _ "\<lambda>c. \<not> sep c" xs] by auto
    next
      case p: False
      from 2(3) False p have "p \<in> set (fields_func sep (dropWhile (\<lambda>c. \<not> sep c) xs))"
        by (simp only: fields_func.simps if_False list.set insert_iff) blast
      with 2(2)[OF False] show ?thesis by blast
    qed
  qed
qed simp

subsection \<open>Trimming and affixes\<close>

definition trim_left :: "(char \<Rightarrow> bool) \<Rightarrow> string \<Rightarrow> string" where
  "trim_left P s = dropWhile P s"

definition trim_right :: "(char \<Rightarrow> bool) \<Rightarrow> string \<Rightarrow> string" where
  "trim_right P s = rev (dropWhile P (rev s))"

text \<open>\<^verbatim>\<open>strings.Trim(s, "[]")\<close>\<close>

definition is_bracket :: "char \<Rightarrow> bool" where
  "is_bracket c \<longleftrightarrow> c = CHR ''['' \<or> c = CHR '']''"

definition trim_brackets :: "string \<Rightarrow> string" where
  "trim_brackets s = trim_right is_bracket (trim_left is_bracket s)"

definition has_prefix :: "string \<Rightarrow> string \<Rightarrow> bool" where
  "has_prefix s p \<longleftrightarrow> take (length p) s = p"

definition has_suffix :: "string \<Rightarrow> string \<Rightarrow> bool" where
  "has_suffix s p \<longleftrightarrow> length p \<le> length s \<and> drop (length s - length p) s = p"

definition trim_prefix :: "string \<Rightarrow> string \<Rightarrow> string" where
  "trim_prefix s p = (if has_prefix s p then drop (length p) s else s)"

lemma has_prefix_append [simp]: "has_prefix (p @ s) p"
  by (simp add: has_prefix_def)

lemma has_prefixE: "has_prefix s p \<Longrightarrow> (\<And>t. s = p @ t \<Longrightarrow> thesis) \<Longrightarrow> thesis"
  by (metis append_take_drop_id has_prefix_def)

lemma trim_prefix_append [simp]: "trim_prefix (p @ s) p = s"
  by (simp add: trim_prefix_def)

lemma has_suffix_append [simp]: "has_suffix (s @ p) p"
  by (simp add: has_suffix_def)

lemma dropWhile_hd_id: "xs \<noteq> [] \<Longrightarrow> \<not> P (hd xs) \<Longrightarrow> dropWhile P xs = xs"
  by (cases xs) auto

lemma trim_brackets_id:
  "s \<noteq> [] \<Longrightarrow> \<not> is_bracket (hd s) \<Longrightarrow> \<not> is_bracket (last s) \<Longrightarrow> trim_brackets s = s"
  by (simp add: trim_brackets_def trim_left_def trim_right_def dropWhile_hd_id hd_rev)

lemma trim_brackets_last: "trim_brackets s \<noteq> [] \<Longrightarrow> \<not> is_bracket (last (trim_brackets s))"
  by (simp add: trim_brackets_def trim_right_def last_rev hd_dropWhile)

text \<open>
  \<^verbatim>\<open>strings.TrimSpace\<close>: the UTF-8 encodings of the code points for which
  \<^verbatim>\<open>unicode.IsSpace\<close> holds are stripped at both ends.
\<close>

definition spaces :: "string list" where
  "spaces = [[CHR 0x09], [CHR 0x0A], [CHR 0x0B], [CHR 0x0C], [CHR 0x0D], [CHR 0x20],
     [CHR 0xC2, CHR 0x85], [CHR 0xC2, CHR 0xA0], [CHR 0xE1, CHR 0x9A, CHR 0x80],
     [CHR 0xE2, CHR 0x80, CHR 0x80], [CHR 0xE2, CHR 0x80, CHR 0x81],
     [CHR 0xE2, CHR 0x80, CHR 0x82], [CHR 0xE2, CHR 0x80, CHR 0x83],
     [CHR 0xE2, CHR 0x80, CHR 0x84], [CHR 0xE2, CHR 0x80, CHR 0x85],
     [CHR 0xE2, CHR 0x80, CHR 0x86], [CHR 0xE2, CHR 0x80, CHR 0x87],
     [CHR 0xE2, CHR 0x80, CHR 0x88], [CHR 0xE2, CHR 0x80, CHR 0x89],
     [CHR 0xE2, CHR 0x80, CHR 0x8A], [CHR 0xE2, CHR 0x80, CHR 0xA8],
     [CHR 0xE2, CHR 0x80, CHR 0xA9], [CHR 0xE2, CHR 0x80, CHR 0xAF],
     [CHR 0xE2, CHR 0x81, CHR 0x9F], [CHR 0xE3, CHR 0x80, CHR 0x80]]"

primrec strip_fuel :: "nat \<Rightarrow> string list \<Rightarrow> string \<Rightarrow> string" where
  "strip_fuel 0 ws s = s"
| "strip_fuel (Suc n) ws s =
     (case find (\<lambda>w. has_prefix s w) ws of
        None \<Rightarrow> s
      | Some w \<Rightarrow> strip_fuel n ws (drop (length w) s))"

definition trim_space :: "string \<Rightarrow> string" where
  "trim_space s =
     (let t = strip_fuel (length s) spaces s
      in rev (strip_fuel (length t) (map rev spaces) (rev t)))"

lemma strip_fuel_none:
  "find (\<lambda>w. has_prefix s w) ws = None \<Longrightarrow> strip_fuel n ws s = s"
  by (cases n) auto

text \<open>The fuel is enough: no white space sequence is left at the front.\<close>

lemma strip_fuel_enough:
  "length s \<le> n \<Longrightarrow> \<forall>w \<in> set ws. w \<noteq> [] \<Longrightarrow> w \<in> set ws \<Longrightarrow> \<not> has_prefix (strip_fuel n ws s) w"
proof (induction n arbitrary: s)
  case 0
  then show ?case by (auto simp: has_prefix_def)
next
  case (Suc n)
  show ?case
  proof (cases "find (\<lambda>w. has_prefix s w) ws")
    case None
    then have "strip_fuel (Suc n) ws s = s" by (rule strip_fuel_none)
    with None Suc.prems show ?thesis by (simp add: find_None_iff)
  next
    case (Some v)
    then have "v \<in> set ws" and "has_prefix s v" by (auto simp: find_Some_iff)
    with Suc.prems have "0 < length v" by auto
    with Suc.prems(1) have "length (drop (length v) s) \<le> n"
      unfolding length_drop by arith
    with Suc Some show ?thesis by simp
  qed
qed

text \<open>The definitions that evaluate a closed text term.\<close>

lemmas eval_text = is_digit_def is_hex_def digit_val_def read_base_def from_base_def show_base_def
  digits.simps digit_char_def parse_int64_def parse_uint_def itoa_def Let_def replicate_numeral
  to_base_numeral has_prefix_def trim_brackets_def trim_left_def trim_right_def is_bracket_def

lemmas eval_space = trim_space_def spaces_def

subsection \<open>Hexadecimal strings: encoding/hex\<close>

definition hex_byte :: "nat \<Rightarrow> string" where
  "hex_byte b = [digit_char (b div 16), digit_char (b mod 16)]"

definition hex_encode :: "nat list \<Rightarrow> string" where
  "hex_encode bs = concat (map hex_byte bs)"

fun hex_decode :: "string \<Rightarrow> nat list option" where
  "hex_decode [] = Some []"
| "hex_decode [c] = None"
| "hex_decode (c # d # s) =
     (if is_hex c \<and> is_hex d
      then map_option ((#) (digit_val c * 16 + digit_val d)) (hex_decode s) else None)"

lemma hex_decode_encode [codec_simps]:
  "\<forall>b \<in> set bs. b < 256 \<Longrightarrow> hex_decode (hex_encode bs) = Some bs"
  by (induction bs) (auto simp: hex_encode_def hex_byte_def)

lemma length_hex_encode [simp]: "length (hex_encode bs) = 2 * length bs"
  by (induction bs) (auto simp: hex_encode_def hex_byte_def)

lemma hex_encode_chars: "\<forall>b \<in> set bs. b < 256 \<Longrightarrow> c \<in> set (hex_encode bs) \<Longrightarrow> is_hex c"
  by (induction bs) (auto simp: hex_encode_def hex_byte_def)

lemma hex_encode_append: "hex_encode (xs @ ys) = hex_encode xs @ hex_encode ys"
  by (simp add: hex_encode_def)

end
