(* ===== verification/Go_Netip.thy ===== *)
theory Go_Netip
  imports Go_Text
begin

text \<open>
  The Go standard library package \<^verbatim>\<open>net/netip\<close> as far as the program uses it: addresses,
  prefixes, \<^verbatim>\<open>ParseAddr\<close>, \<^verbatim>\<open>Addr.String\<close>, \<^verbatim>\<open>Addr.Unmap\<close>, \<^verbatim>\<open>ParsePrefix\<close>, \<^verbatim>\<open>PrefixFrom\<close>,
  \<^verbatim>\<open>Prefix.Masked\<close>, \<^verbatim>\<open>Prefix.String\<close>, \<^verbatim>\<open>Prefix.Contains\<close>. The main results are that
  printing an unmapped address or a masked prefix and parsing the text gives the same
  value back.
\<close>

unbundle bit_operations_syntax

subsection \<open>Addresses\<close>

text \<open>An IPv6 address carries its zone, empty when there is none.\<close>

datatype addr = V4 "32 word" | V6 "128 word" string

definition v4_bytes :: "32 word \<Rightarrow> nat list" where
  "v4_bytes w = to_base 256 4 (unat w)"

definition v4_of_bytes :: "nat list \<Rightarrow> 32 word" where
  "v4_of_bytes bs = of_nat (from_base 256 bs)"

definition v6_groups :: "128 word \<Rightarrow> nat list" where
  "v6_groups w = to_base 65536 8 (unat w)"

definition v6_of_groups :: "nat list \<Rightarrow> 128 word" where
  "v6_of_groups gs = of_nat (from_base 65536 gs)"

lemma v4_of_bytes_bytes [simp]: "v4_of_bytes (v4_bytes w) = w"
proof -
  have "unat w < 256 ^ 4" using unsigned_less [of w] by simp
  then show ?thesis by (simp add: v4_of_bytes_def v4_bytes_def from_to_base)
qed

lemma v6_of_groups_groups [simp]: "v6_of_groups (v6_groups w) = w"
proof -
  have "unat w < 65536 ^ 8" using unsigned_less [of w] by simp
  then show ?thesis by (simp add: v6_of_groups_def v6_groups_def from_to_base)
qed

lemma v6_groups_of_groups:
  assumes "length gs = 8" and "\<forall>g \<in> set gs. g < 65536"
  shows "v6_groups (v6_of_groups gs) = gs"
proof -
  have "from_base 65536 gs < 65536 ^ 8" using from_base_bound [of 65536 gs] assms by simp
  then have "unat (v6_of_groups gs) = from_base 65536 gs"
    by (simp add: v6_of_groups_def unat_of_nat)
  with assms show ?thesis by (simp add: v6_groups_def to_from_base)
qed

lemma length_v4_bytes [simp]: "length (v4_bytes w) = 4"
  and length_v6_groups [simp]: "length (v6_groups v) = 8"
  by (simp_all add: v4_bytes_def v6_groups_def)

lemma v4_bytes_less: "b \<in> set (v4_bytes w) \<Longrightarrow> b < 256"
  and v6_groups_less: "g \<in> set (v6_groups v) \<Longrightarrow> g < 65536"
  by (auto simp: v4_bytes_def v6_groups_def dest: to_base_less [rotated])

text \<open>\<^verbatim>\<open>Addr.Is4In6\<close> and \<^verbatim>\<open>Addr.Unmap\<close>: unmapping drops the zone as well.\<close>

definition is4in6 :: "addr \<Rightarrow> bool" where
  "is4in6 a = (case a of V4 _ \<Rightarrow> False | V6 w _ \<Rightarrow> unat w div 2 ^ 32 = 65535)"

definition unmap :: "addr \<Rightarrow> addr" where
  "unmap a = (case a of V4 w \<Rightarrow> V4 w
     | V6 w z \<Rightarrow> if is4in6 (V6 w z) then V4 (of_nat (unat w mod 2 ^ 32)) else V6 w z)"

definition zone :: "addr \<Rightarrow> string" where
  "zone a = (case a of V4 _ \<Rightarrow> [] | V6 _ z \<Rightarrow> z)"

definition without_zone :: "addr \<Rightarrow> addr" where
  "without_zone a = (case a of V4 w \<Rightarrow> V4 w | V6 w _ \<Rightarrow> V6 w [])"

definition bit_len :: "addr \<Rightarrow> nat" where
  "bit_len a = (case a of V4 _ \<Rightarrow> 32 | V6 _ _ \<Rightarrow> 128)"

lemma unmap_not_4in6 [simp]: "\<not> is4in6 (unmap a)"
  by (auto simp: unmap_def is4in6_def split: addr.splits)

lemma unmap_idem [simp]: "\<not> is4in6 a \<Longrightarrow> unmap a = a"
  by (auto simp: unmap_def split: addr.splits)

subsection \<open>Parsing addresses\<close>

text \<open>
  \<^verbatim>\<open>parseIPv4Fields\<close>: the accumulators are the value and the number of digits of the
  current octet, whether the previous byte was a dot (or there is none), and the octets
  read so far.
\<close>

fun parse_v4_fields :: "string \<Rightarrow> bool \<Rightarrow> nat \<Rightarrow> nat \<Rightarrow> nat list \<Rightarrow> nat list option" where
  "parse_v4_fields [] at_start val dig_len fs =
     (if length fs < 3 then None else Some (fs @ [val]))"
| "parse_v4_fields (c # cs) at_start val dig_len fs =
     (if is_digit c then
        (if dig_len = 1 \<and> val = 0 then None
         else let v = val * 10 + digit_val c
              in if v > 255 then None else parse_v4_fields cs False v (dig_len + 1) fs)
      else if c = CHR ''.'' then
        (if at_start \<or> cs = [] then None
         else if length fs = 3 then None
         else parse_v4_fields cs True 0 0 (fs @ [val]))
      else None)"

definition parse_v4 :: "string \<Rightarrow> addr option" where
  "parse_v4 s = map_option (\<lambda>bs. V4 (v4_of_bytes bs)) (parse_v4_fields s True 0 0 [])"

text \<open>
  The group loop of \<^verbatim>\<open>parseIPv6\<close>. The first argument is the number of groups that still
  fit (the loop condition \<^verbatim>\<open>i < 16\<close> counts bytes); \<open>gs\<close> are the groups read, \<open>e\<close> the
  index of the ellipsis. The result is the unread text, the groups and the ellipsis.
\<close>

fun parse_v6_loop ::
  "nat \<Rightarrow> string \<Rightarrow> nat list \<Rightarrow> nat option \<Rightarrow> (string \<times> nat list \<times> nat option) option" where
  "parse_v6_loop 0 s gs e = Some (s, gs, e)"
| "parse_v6_loop (Suc n) s gs e =
     (let ds = takeWhile is_hex s; rest = dropWhile is_hex s in
      if length ds > 4 then None
      else if ds = [] then None
      else case rest of
        [] \<Rightarrow> Some ([], gs @ [read_base 16 ds], e)
      | c # cs \<Rightarrow>
          if c = CHR ''.'' then
            (if e = None \<and> length gs \<noteq> 6 then None
             else if length gs > 6 then None
             else case parse_v4_fields s True 0 0 [] of
                 None \<Rightarrow> None
               | Some bs \<Rightarrow> Some ([], gs @ [from_base 256 (take 2 bs), from_base 256 (drop 2 bs)], e))
          else if c \<noteq> CHR '':'' then None
          else if cs = [] then None
          else if hd cs = CHR '':'' then
            (if e \<noteq> None then None
             else if tl cs = [] then Some ([], gs @ [read_base 16 ds], Some (length gs + 1))
             else parse_v6_loop n (tl cs) (gs @ [read_base 16 ds]) (Some (length gs + 1)))
          else parse_v6_loop n cs (gs @ [read_base 16 ds]) e)"

lemmas parse_v6_loop_numeral =
  parse_v6_loop.simps(2) [of "pred_numeral k", folded numeral_eq_Suc] for k

definition expand_v6 :: "nat list \<Rightarrow> nat option \<Rightarrow> nat list option" where
  "expand_v6 gs e =
     (if length gs < 8 then
        (case e of None \<Rightarrow> None
         | Some k \<Rightarrow> Some (take k gs @ replicate (8 - length gs) 0 @ drop k gs))
      else if e \<noteq> None then None else Some gs)"

definition parse_v6_addr :: "string \<Rightarrow> 128 word option" where
  "parse_v6_addr s =
     (let lead = (take 2 s = ''::''); t = (if lead then drop 2 s else s) in
      if lead \<and> t = [] then Some 0
      else case parse_v6_loop 8 t [] (if lead then Some 0 else None) of
          None \<Rightarrow> None
        | Some (rest, gs, e) \<Rightarrow>
            if rest \<noteq> [] then None else map_option v6_of_groups (expand_v6 gs e))"

definition parse_v6 :: "string \<Rightarrow> addr option" where
  "parse_v6 s =
     (let body = takeWhile (\<lambda>c. c \<noteq> CHR ''%'') s; tail = dropWhile (\<lambda>c. c \<noteq> CHR ''%'') s in
      case tail of
        [] \<Rightarrow> map_option (\<lambda>w. V6 w []) (parse_v6_addr body)
      | c # z \<Rightarrow> if z = [] then None else map_option (\<lambda>w. V6 w z) (parse_v6_addr body))"

text \<open>\<^verbatim>\<open>netip.ParseAddr\<close>: the first dot, colon or percent sign decides.\<close>

definition parse_addr :: "string \<Rightarrow> addr option" where
  "parse_addr s =
     (case dropWhile (\<lambda>c. c \<notin> {CHR ''.'', CHR '':'', CHR ''%''}) s of
        [] \<Rightarrow> None
      | c # _ \<Rightarrow> if c = CHR ''.'' then parse_v4 s
                 else if c = CHR '':'' then parse_v6 s else None)"

subsection \<open>Printing addresses\<close>

definition v4_string :: "32 word \<Rightarrow> string" where
  "v4_string w = join_with ''.'' (map (show_base 10) (v4_bytes w))"

text \<open>
  \<^verbatim>\<open>Addr.appendTo6\<close> compresses the first longest run of at least two zero groups.
\<close>

definition zero_run_at :: "nat list \<Rightarrow> nat \<Rightarrow> nat" where
  "zero_run_at gs i = i + length (takeWhile (\<lambda>g. g = 0) (drop i gs))"

definition zero_run :: "nat list \<Rightarrow> nat \<times> nat" where
  "zero_run gs = foldl (\<lambda>(zs, ze) i. let j = zero_run_at gs i in
     if j - i \<ge> 2 \<and> j - i > ze - zs then (i, j) else (zs, ze)) (255, 255) [0..<8]"

definition v6_string :: "128 word \<Rightarrow> string" where
  "v6_string w =
     (let gs = v6_groups w; (zs, ze) = zero_run gs; hs = map (show_base 16) gs in
      if zs < 8 then join_with '':'' (take zs hs) @ ''::'' @ join_with '':'' (drop ze hs)
      else join_with '':'' hs)"

definition addr_string :: "addr \<Rightarrow> string" where
  "addr_string a =
     (case a of
        V4 w \<Rightarrow> v4_string w
      | V6 w z \<Rightarrow>
          (if is4in6 a then ''::ffff:'' @ v4_string (of_nat (unat w mod 2 ^ 32)) else v6_string w)
          @ (if z = [] then [] else CHR ''%'' # z))"

subsection \<open>Prefixes\<close>

datatype prefix = InvalidPrefix | Prefix addr nat

definition prefix_from :: "addr \<Rightarrow> int \<Rightarrow> prefix" where
  "prefix_from a bits =
     (if 0 \<le> bits \<and> bits \<le> int (bit_len a) then Prefix (without_zone a) (nat bits)
      else InvalidPrefix)"

definition mask_addr :: "addr \<Rightarrow> nat \<Rightarrow> addr" where
  "mask_addr a b = (case a of
      V4 w \<Rightarrow> V4 (push_bit (32 - b) (drop_bit (32 - b) w))
    | V6 w z \<Rightarrow> V6 (push_bit (128 - b) (drop_bit (128 - b) w)) [])"

definition masked :: "prefix \<Rightarrow> prefix" where
  "masked p = (case p of InvalidPrefix \<Rightarrow> InvalidPrefix | Prefix a b \<Rightarrow> Prefix (mask_addr a b) b)"

definition prefix_string :: "prefix \<Rightarrow> string" where
  "prefix_string p = (case p of InvalidPrefix \<Rightarrow> ''invalid Prefix''
     | Prefix a b \<Rightarrow> addr_string a @ ''/'' @ show_base 10 b)"

definition prefix_contains :: "prefix \<Rightarrow> addr \<Rightarrow> bool" where
  "prefix_contains p a =
     (case p of
        InvalidPrefix \<Rightarrow> False
      | Prefix q b \<Rightarrow>
          zone a = [] \<and>
          (case (q, a) of
             (V4 v, V4 w) \<Rightarrow> drop_bit (32 - b) (v XOR w) = 0
           | (V6 v _, V6 w _) \<Rightarrow> drop_bit (128 - b) (v XOR w) = 0
           | _ \<Rightarrow> False))"

text \<open>\<^verbatim>\<open>netip.ParsePrefix\<close>\<close>

definition parse_prefix :: "string \<Rightarrow> prefix option" where
  "parse_prefix s =
     (if CHR ''/'' \<notin> set s then None
      else let bits_str = rev (takeWhile (\<lambda>c. c \<noteq> CHR ''/'') (rev s));
               host = take (length s - length bits_str - 1) s in
        case parse_addr host of
          None \<Rightarrow> None
        | Some a \<Rightarrow>
            if zone a \<noteq> [] then None
            else if length bits_str > 1 \<and> \<not> (CHR ''1'' \<le> hd bits_str \<and> hd bits_str \<le> CHR ''9'')
            then None
            else case parse_int64 bits_str of
                None \<Rightarrow> None
              | Some bits \<Rightarrow>
                  if bits < 0 \<or> bits > int (bit_len a) then None
                  else Some (prefix_from a bits))"

text \<open>The definitions that evaluate a closed address term.\<close>

lemmas eval_netip = eval_text parse_addr_def parse_v4_def parse_v6_def parse_v6_addr_def
  expand_v6_def parse_v6_loop_numeral v4_of_bytes_def v6_of_groups_def zone_def without_zone_def
  bit_len_def prefix_from_def parse_prefix_def masked_def mask_addr_def prefix_string_def
  addr_string_def v4_string_def v4_bytes_def unmap_def is4in6_def

subsection \<open>Round trips\<close>

lemma special_not_hex [simp]:
  "\<not> is_hex CHR '':''" "\<not> is_hex CHR ''.''" "\<not> is_hex CHR ''%''" "\<not> is_hex CHR ''/''"
  "\<not> is_digit CHR '':''" "\<not> is_digit CHR ''.''" "\<not> is_digit CHR ''%''" "\<not> is_digit CHR ''/''"
  by (simp_all add: is_hex_def is_digit_def)

lemma foldl_digits_ge: "(v::nat) \<le> foldl (\<lambda>a d. a * 10 + d) v ds"
proof (induction ds arbitrary: v)
  case (Cons d ds)
  have "v \<le> v * 10 + d" by simp
  also have "\<dots> \<le> foldl (\<lambda>a d. a * 10 + d) (v * 10 + d) ds" by (rule Cons.IH)
  finally show ?case by simp
qed simp

lemma parse_v4_digits:
  assumes "\<forall>d \<in> set ds. d < 10" and "foldl (\<lambda>a d. a * 10 + d) val ds \<le> 255" and "0 < val"
  shows "parse_v4_fields (map digit_char ds @ rest) False val k fs
       = parse_v4_fields rest False (foldl (\<lambda>a d. a * 10 + d) val ds) (k + length ds) fs"
  using assms
proof (induction ds arbitrary: val k)
  case (Cons d ds)
  then have "val * 10 + d \<le> 255" using foldl_digits_ge [of "val * 10 + d" ds] by simp
  with Cons show ?case by simp
qed simp

lemma parse_v4_octet:
  assumes "b < 256"
  shows "\<exists>k. parse_v4_fields (show_base 10 b @ rest) st 0 0 fs = parse_v4_fields rest False b k fs"
proof (cases "b = 0")
  case True
  then show ?thesis by (auto simp: show_base_def digits_small)
next
  case False
  obtain d ds where ds: "digits 10 b = d # ds" by (cases "digits 10 b") auto
  have d: "d \<noteq> 0" using hd_digits_pos [of 10 b] False ds by simp
  have lt: "\<forall>x \<in> set (d # ds). x < 10" using digits_less [of 10 _ b] ds by auto
  have b: "b = foldl (\<lambda>a d. a * 10 + d) d ds"
    using from_base_digits [of 10 b] ds by (simp add: from_base_def)
  then have "foldl (\<lambda>a d. a * 10 + d) d ds \<le> 255" using assms by simp
  with lt d parse_v4_digits [of ds d rest 1 fs] b
  have "parse_v4_fields ((digit_char d # map digit_char ds) @ rest) st 0 0 fs
      = parse_v4_fields rest False b (1 + length ds) fs"
    by simp
  then show ?thesis by (metis show_base_def ds list.simps(9))
qed

lemma parse_v4_string: "parse_v4_fields (v4_string w) True 0 0 [] = Some (v4_bytes w)"
proof -
  obtain a b c d where bs: "v4_bytes w = [a, b, c, d]"
    using length_v4_bytes [of w] by (auto simp: numeral_eq_Suc length_Suc_conv simp del: length_v4_bytes)
  have lt: "a < 256" "b < 256" "c < 256" "d < 256" using v4_bytes_less [of _ w] bs by auto
  have str: "v4_string w = show_base 10 a @ CHR ''.'' # show_base 10 b @ CHR ''.'' #
      show_base 10 c @ CHR ''.'' # show_base 10 d @ []"
    by (simp add: v4_string_def bs)
  obtain k1 where 1: "parse_v4_fields (v4_string w) True 0 0 [] = parse_v4_fields (CHR ''.'' #
      show_base 10 b @ CHR ''.'' # show_base 10 c @ CHR ''.'' # show_base 10 d @ []) False a k1 []"
    unfolding str using parse_v4_octet [OF lt(1)] by blast
  obtain k2 where 2: "parse_v4_fields (show_base 10 b @ CHR ''.'' # show_base 10 c @ CHR ''.'' #
      show_base 10 d @ []) True 0 0 [a] = parse_v4_fields (CHR ''.'' # show_base 10 c @ CHR ''.'' #
      show_base 10 d @ []) False b k2 [a]"
    using parse_v4_octet [OF lt(2)] by blast
  obtain k3 where 3: "parse_v4_fields (show_base 10 c @ CHR ''.'' # show_base 10 d @ []) True 0 0 [a, b]
      = parse_v4_fields (CHR ''.'' # show_base 10 d @ []) False c k3 [a, b]"
    using parse_v4_octet [OF lt(3)] by blast
  obtain k4 where 4: "parse_v4_fields (show_base 10 d @ []) True 0 0 [a, b, c]
      = parse_v4_fields [] False d k4 [a, b, c]"
    using parse_v4_octet [OF lt(4)] by blast
  from 1 2 3 4 show ?thesis by (simp add: bs)
qed

lemma v4_string_chars: "c \<in> set (v4_string w) \<Longrightarrow> is_digit c \<or> c = CHR ''.''"
proof -
  have "set (join_with ''.'' ps) \<subseteq> \<Union> (set ` set ps) \<union> {CHR ''.''}" for ps
    by (induction "''.''" ps rule: join_with.induct) auto
  then show "c \<in> set (v4_string w) \<Longrightarrow> is_digit c \<or> c = CHR ''.''"
    by (fastforce simp: v4_string_def dest: show_10_digits)
qed

lemma dropWhile_first:
  "\<forall>c \<in> set s. P c \<or> c = x \<Longrightarrow> x \<in> set s \<Longrightarrow> \<not> P x \<Longrightarrow> \<exists>r. dropWhile P (s @ t) = x # r"
  by (induction s) auto

lemma parse_addr_v4 [codec_simps]: "parse_addr (v4_string w) = Some (V4 w)"
proof -
  have "CHR ''.'' \<in> set (v4_string w)"
    using length_v4_bytes [of w] by (auto simp: v4_string_def numeral_eq_Suc length_Suc_conv simp del: length_v4_bytes)
  moreover have "\<forall>c \<in> set (v4_string w). c \<notin> {CHR ''.'', CHR '':'', CHR ''%''} \<or> c = CHR ''.''"
    by (auto dest: v4_string_chars)
  ultimately obtain r where
    "dropWhile (\<lambda>c. c \<notin> {CHR ''.'', CHR '':'', CHR ''%''}) (v4_string w @ []) = CHR ''.'' # r"
    using dropWhile_first [of "v4_string w" "\<lambda>c. c \<notin> {CHR ''.'', CHR '':'', CHR ''%''}" "CHR ''.''" "[]"]
    by blast
  then show ?thesis by (simp add: parse_addr_def parse_v4_def parse_v4_string)
qed


lemma join_chars: "set (join_with sep ps) \<subseteq> \<Union> (set ` set ps) \<union> set sep"
  by (induction sep ps rule: join_with.induct) auto

lemma join_Cons: "ps \<noteq> [] \<Longrightarrow> join_with sep (p # ps) = p @ sep @ join_with sep ps"
  by (cases ps) auto

lemma show_16_shape:
  assumes "g < 65536"
  shows "takeWhile is_hex (show_base 16 g) = show_base 16 g"
    and "dropWhile is_hex (show_base 16 g) = []"
    and "\<not> 4 < length (show_base 16 g)"
proof -
  show "takeWhile is_hex (show_base 16 g) = show_base 16 g"
    by (simp add: takeWhile_eq_all_conv show_16_hex)
  show "dropWhile is_hex (show_base 16 g) = []"
    by (simp add: dropWhile_eq_Nil_conv show_16_hex)
  show "\<not> 4 < length (show_base 16 g)"
    using length_digits [of 16 4 g] assms by (simp add: show_base_def)
qed

lemma show_16_stop:
  assumes "\<not> is_hex y"
  shows "takeWhile is_hex (show_base 16 g @ y # ys) = show_base 16 g"
    and "dropWhile is_hex (show_base 16 g @ y # ys) = y # ys"
  using assms show_16_hex by (auto intro: takeWhile_all_stop dropWhile_all_stop)

lemma join_hex_hd:
  assumes "ps \<noteq> []"
  shows "\<exists>c cs. join_with '':'' (map (show_base 16) ps) = c # cs \<and> is_hex c"
proof -
  obtain g gs where ps: "ps = g # gs" using assms by (cases ps) auto
  obtain c cs where c: "show_base 16 g = c # cs" by (cases "show_base 16 g") auto
  then have "is_hex c" using show_16_hex [of c g] by simp
  with ps c show ?thesis by (cases gs) auto
qed

lemma parse_v6_join:
  assumes "ps \<noteq> []" and "length ps \<le> n" and "\<forall>g \<in> set ps. g < 65536"
  shows "parse_v6_loop n (join_with '':'' (map (show_base 16) ps)) gs e = Some ([], gs @ ps, e)"
  using assms
proof (induction ps arbitrary: n gs)
  case (Cons g ps)
  then obtain m where n: "n = Suc m" by (cases n) auto
  show ?case
  proof (cases "ps = []")
    case True
    with Cons.prems show ?thesis by (simp add: n show_16_shape Let_def)
  next
    case False
    then obtain c cs where c: "join_with '':'' (map (show_base 16) ps) = c # cs" "is_hex c"
      using join_hex_hd by blast
    then have "c \<noteq> CHR '':''" by auto
    moreover have "parse_v6_loop m (c # cs) (gs @ [g]) e = Some ([], (gs @ [g]) @ ps, e)"
      using Cons False n c(1) by (metis length_Cons list.set_intros(2) Suc_le_mono)
    ultimately show ?thesis
      using Cons.prems False c(1)
      by (simp add: n join_Cons show_16_stop show_16_shape Let_def)
  qed
qed simp

lemma parse_v6_ellipsis:
  assumes "pre \<noteq> []" and "length pre + length post \<le> n"
    and "\<forall>g \<in> set pre \<union> set post. g < 65536"
  shows "parse_v6_loop n (join_with '':'' (map (show_base 16) pre) @ ''::''
           @ join_with '':'' (map (show_base 16) post)) gs None
       = Some ([], gs @ pre @ post, Some (length gs + length pre))"
  using assms
proof (induction pre arbitrary: n gs)
  case (Cons g pre)
  then obtain m where n: "n = Suc m" by (cases n) auto
  show ?case
  proof (cases "pre = []")
    case True
    show ?thesis
    proof (cases "post = []")
      case True
      with Cons.prems \<open>pre = []\<close> show ?thesis by (simp add: n show_16_stop show_16_shape Let_def)
    next
      case False
      then obtain c cs where c: "join_with '':'' (map (show_base 16) post) = c # cs"
        using join_hex_hd by blast
      have "parse_v6_loop m (c # cs) (gs @ [g]) (Some (Suc (length gs)))
          = Some ([], (gs @ [g]) @ post, Some (Suc (length gs)))"
        using parse_v6_join [of post m "gs @ [g]"] Cons.prems False n c True by simp
      with Cons.prems True c show ?thesis by (simp add: n show_16_stop show_16_shape Let_def)
    qed
  next
    case False
    then obtain c cs where c: "join_with '':'' (map (show_base 16) pre) = c # cs" "is_hex c"
      using join_hex_hd by blast
    then have "c \<noteq> CHR '':''" by auto
    moreover have "parse_v6_loop m (c # cs @ ''::'' @ join_with '':'' (map (show_base 16) post))
        (gs @ [g]) None = Some ([], (gs @ [g]) @ pre @ post, Some (length (gs @ [g]) + length pre))"
      using Cons.IH [of m "gs @ [g]"] Cons.prems False n c(1) by simp
    ultimately show ?thesis
      using Cons.prems False c(1)
      by (simp add: n join_Cons show_16_stop show_16_shape Let_def)
  qed
qed simp


lemma foldl_invariant:
  "P a \<Longrightarrow> (\<And>a x. x \<in> set xs \<Longrightarrow> P a \<Longrightarrow> P (f a x)) \<Longrightarrow> P (foldl f a xs)"
  by (induction xs arbitrary: a) auto

text \<open>The run that is compressed really is a run of zero groups.\<close>

lemma zero_run_zeros:
  assumes "zero_run gs = (zs, ze)" and "length gs = 8"
  shows "zs = 255 \<or> (zs < 8 \<and> zs + 2 \<le> ze \<and> ze \<le> 8 \<and>
           gs = take zs gs @ replicate (ze - zs) 0 @ drop ze gs)"
proof -
  let ?P = "\<lambda>(zs, ze). zs = 255 \<or> (zs < 8 \<and> zs + 2 \<le> ze \<and> ze \<le> 8 \<and>
           gs = take zs gs @ replicate (ze - zs) 0 @ drop ze gs)"
  have run: "gs = take i gs @ replicate (zero_run_at gs i - i) 0 @ drop (zero_run_at gs i) gs
      \<and> zero_run_at gs i \<le> 8" if "i < 8" for i
  proof -
    let ?z = "takeWhile (\<lambda>g. g = 0) (drop i gs)"
    have z: "?z = replicate (length ?z) 0" by (rule replicate_eqI) (auto dest: set_takeWhileD)
    have le: "length ?z \<le> length gs - i" using length_takeWhile_le [of _ "drop i gs"] by simp
    have "drop i gs = ?z @ drop (length ?z) (drop i gs)"
      using takeWhile_eq_take [of "\<lambda>g. g = 0" "drop i gs"] append_take_drop_id by metis
    then have "gs = take i gs @ ?z @ drop (i + length ?z) gs"
      by (metis append_take_drop_id drop_drop add.commute)
    with z le that assms(2) show ?thesis by (simp add: zero_run_at_def)
  qed
  have "?P (zero_run gs)"
    unfolding zero_run_def
    by (rule foldl_invariant) (use run in \<open>auto simp: Let_def split: if_splits\<close>)
  with assms show ?thesis by simp
qed

lemma v6_string_chars: "c \<in> set (v6_string w) \<Longrightarrow> is_hex c \<or> c = CHR '':''"
proof -
  have "c \<in> set (join_with '':'' (map (show_base 16) ps)) \<Longrightarrow> is_hex c \<or> c = CHR '':''" for ps
    using join_chars [of "'':''" "map (show_base 16) ps"] by (fastforce dest: show_16_hex)
  then show "c \<in> set (v6_string w) \<Longrightarrow> is_hex c \<or> c = CHR '':''"
    by (auto simp: v6_string_def Let_def take_map drop_map split: if_splits prod.splits)
qed

lemma v6_string_colon: "CHR '':'' \<in> set (v6_string w)"
proof -
  have "CHR '':'' \<in> set (join_with '':'' (map (show_base 16) (v6_groups w)))"
    using length_v6_groups [of w]
    by (auto simp: numeral_eq_Suc length_Suc_conv simp del: length_v6_groups)
  moreover obtain zs ze where "zero_run (v6_groups w) = (zs, ze)" by fastforce
  ultimately show ?thesis by (simp add: v6_string_def Let_def)
qed

lemma parse_v6_addr_string: "parse_v6_addr (v6_string w) = Some w"
proof -
  let ?gs = "v6_groups w"
  obtain zs ze where z: "zero_run ?gs = (zs, ze)" by fastforce
  have lt: "\<forall>g \<in> set ?gs. g < 65536" using v6_groups_less by blast
  consider (none) "zs = 255" | (run) "zs < 8" "zs + 2 \<le> ze" "ze \<le> 8"
      "?gs = take zs ?gs @ replicate (ze - zs) 0 @ drop ze ?gs"
    using zero_run_zeros [OF z] by auto
  then show ?thesis
  proof cases
    case none
    then have str: "v6_string w = join_with '':'' (map (show_base 16) ?gs)"
      by (simp add: v6_string_def z Let_def)
    obtain c cs where c: "join_with '':'' (map (show_base 16) ?gs) = c # cs" "is_hex c"
      using join_hex_hd [of ?gs] by (auto simp flip: length_0_conv)
    then have "take 2 (v6_string w) \<noteq> ''::''" using str by auto
    moreover have "parse_v6_loop 8 (v6_string w) [] None = Some ([], ?gs, None)"
      using parse_v6_join [of ?gs 8 "[]"] lt str by (simp flip: length_0_conv)
    ultimately show ?thesis by (simp add: parse_v6_addr_def expand_v6_def)
  next
    case run
    let ?pre = "take zs ?gs" and ?post = "drop ze ?gs"
    have str: "v6_string w = join_with '':'' (map (show_base 16) ?pre) @ ''::''
        @ join_with '':'' (map (show_base 16) ?post)"
      using run(1) by (simp add: v6_string_def z take_map drop_map Let_def)
    have post: "\<forall>g \<in> set ?pre \<union> set ?post. g < 65536"
      using lt by (meson Un_iff in_set_dropD in_set_takeD)
    have exp: "expand_v6 (?pre @ ?post) (Some zs) = Some ?gs"
      using run by (simp add: expand_v6_def min_def)
    show ?thesis
    proof (cases "zs = 0")
      case True
      show ?thesis
      proof (cases "?post = []")
        case True
        with run(3) have "ze = 8" by simp
        have "take zs ?gs @ replicate (ze - zs) 0 @ ?post = ?gs" by (rule run(4) [symmetric])
        with \<open>zs = 0\<close> \<open>ze = 8\<close> have "?gs = replicate 8 0" by simp
        then have "w = v6_of_groups (replicate 8 0)" by (metis v6_of_groups_groups)
        then have "w = 0" by (simp add: v6_of_groups_def)
        with str True \<open>zs = 0\<close> show ?thesis by (simp add: parse_v6_addr_def)
      next
        case False
        then obtain c cs where "join_with '':'' (map (show_base 16) ?post) = c # cs"
          using join_hex_hd by blast
        moreover have "parse_v6_loop 8 (join_with '':'' (map (show_base 16) ?post)) [] (Some 0)
            = Some ([], ?post, Some 0)"
          using parse_v6_join [of ?post 8 "[]"] False post by simp
        ultimately show ?thesis using str exp \<open>zs = 0\<close> by (simp add: parse_v6_addr_def)
      qed
    next
      case False
      with run have ne: "?pre \<noteq> []" by (simp flip: length_0_conv)
      then obtain c cs where c: "join_with '':'' (map (show_base 16) ?pre) = c # cs" "is_hex c"
        using join_hex_hd by blast
      then have "take 2 (v6_string w) \<noteq> ''::''" using str by auto
      moreover have "parse_v6_loop 8 (v6_string w) [] None = Some ([], ?pre @ ?post, Some zs)"
        using parse_v6_ellipsis [OF ne _ post, of 8 "[]"] run str by (simp add: min_def)
      ultimately show ?thesis using exp by (simp add: parse_v6_addr_def)
    qed
  qed
qed

lemma parse_v6_zone:
  "parse_v6 (v6_string w @ (if z = [] then [] else CHR ''%'' # z)) = Some (V6 w z)"
proof -
  have "\<forall>c \<in> set (v6_string w). c \<noteq> CHR ''%''" by (auto dest: v6_string_chars)
  then show ?thesis
    by (simp add: parse_v6_def parse_v6_addr_string takeWhile_append2 dropWhile_append2
        dropWhile_eq_Nil_conv takeWhile_eq_all_conv)
qed

lemma parse_addr_colon: "parse_addr (v6_string w @ t) = parse_v6 (v6_string w @ t)"
proof -
  have "\<forall>c \<in> set (v6_string w). c \<notin> {CHR ''.'', CHR '':'', CHR ''%''} \<or> c = CHR '':''"
    by (auto dest: v6_string_chars)
  then obtain r where
    "dropWhile (\<lambda>c. c \<notin> {CHR ''.'', CHR '':'', CHR ''%''}) (v6_string w @ t) = CHR '':'' # r"
    using dropWhile_first [of "v6_string w" "\<lambda>c. c \<notin> {CHR ''.'', CHR '':'', CHR ''%''}" "CHR '':''" t]
      v6_string_colon by blast
  then show ?thesis by (simp add: parse_addr_def)
qed

lemma parse_addr_string [codec_simps]: "\<not> is4in6 a \<Longrightarrow> parse_addr (addr_string a) = Some a"
  by (cases a) (auto simp: addr_string_def parse_addr_v4 parse_addr_colon parse_v6_zone
      simp del: if_split)


subsection \<open>Prefix round trip and masks\<close>

text \<open>A canonical prefix: in range, no host bits, no zone, not an IPv4-mapped address.\<close>

definition prefix_ok :: "prefix \<Rightarrow> bool" where
  "prefix_ok p = (case p of InvalidPrefix \<Rightarrow> False
     | Prefix a b \<Rightarrow> b \<le> bit_len a \<and> zone a = [] \<and> \<not> is4in6 a \<and> mask_addr a b = a)"

lemma addr_string_no_slash: "zone a = [] \<Longrightarrow> CHR ''/'' \<notin> set (addr_string a)"
proof -
  have "CHR ''/'' \<notin> set (v4_string w)" and "CHR ''/'' \<notin> set (v6_string v)" for w v
    by (auto dest: v4_string_chars v6_string_chars)
  then show "zone a = [] \<Longrightarrow> CHR ''/'' \<notin> set (addr_string a)"
    by (auto simp: addr_string_def zone_def split: addr.splits)
qed

lemma without_zone_id: "zone a = [] \<Longrightarrow> without_zone a = a"
  by (simp add: zone_def without_zone_def split: addr.splits)

lemma show_10_leading: "1 < length (show_base 10 n) \<Longrightarrow>
    CHR ''1'' \<le> hd (show_base 10 n) \<and> hd (show_base 10 n) \<le> CHR ''9''"
proof -
  assume "1 < length (show_base 10 n)"
  then have "n \<noteq> 0" by (cases "n = 0") (simp_all add: show_base_def digits_small)
  then have "hd (digits 10 n) \<noteq> 0" using hd_digits_pos [of 10 n] by simp
  moreover have "hd (digits 10 n) < 10" using digits_less [of 10 "hd (digits 10 n)" n] by simp
  moreover have "hd (show_base 10 n) = digit_char (hd (digits 10 n))"
    by (simp add: show_base_def hd_map)
  ultimately show ?thesis
    by (simp add: less_eq_char_def of_char_digit_char)
qed

lemma parse_prefix_string [codec_simps]:
  assumes "b \<le> bit_len a" and "zone a = []" and "\<not> is4in6 a"
  shows "parse_prefix (prefix_string (Prefix a b)) = Some (Prefix a b)"
proof -
  have no: "\<forall>c \<in> set (rev (show_base 10 b)). c \<noteq> CHR ''/''" by (auto dest: show_10_digits)
  have bl: "bit_len a \<le> 128" by (simp add: bit_len_def split: addr.splits)
  have "int64_ok (int b)" using assms(1) bl by (simp add: int64_defs)
  then have bits: "parse_int64 (show_base 10 b) = Some (int b)"
    using parse_int64_itoa [of "int b"] by (simp add: itoa_def)
  have lead: "\<not> (1 < length (show_base 10 b) \<and>
      \<not> (CHR ''1'' \<le> hd (show_base 10 b) \<and> hd (show_base 10 b) \<le> CHR ''9''))"
    using show_10_leading by blast
  have "takeWhile (\<lambda>c. c \<noteq> CHR ''/'') (rev (show_base 10 b) @ CHR ''/'' # rev (addr_string a))
      = rev (show_base 10 b)"
    using no by (intro takeWhile_all_stop) simp_all
  with bits lead assms show ?thesis
    by (simp add: parse_prefix_def prefix_string_def Let_def parse_addr_string prefix_from_def
        without_zone_id del: One_nat_def)
qed

text \<open>Membership in a masked prefix is membership in the unmasked one.\<close>

lemma drop_push_drop_bit: "drop_bit n (push_bit n (drop_bit n v)) = drop_bit n (v :: 'a::len word)"
  by (rule bit_word_eqI) (auto simp: bit_simps dest: bit_imp_le_length)

lemma prefix_contains_masked [simp]: "prefix_contains (masked p) a = prefix_contains p a"
  by (auto simp: masked_def prefix_contains_def mask_addr_def drop_push_drop_bit
      split: prefix.splits addr.splits)

lemma mask_addr_idem [simp]: "mask_addr (mask_addr a b) b = mask_addr a b"
  by (auto simp: mask_addr_def drop_push_drop_bit split: addr.splits)


subsection \<open>Masks and membership in arithmetic\<close>

lemma drop_bit_xor_eq_0:
  "drop_bit n (v XOR w) = 0 \<longleftrightarrow> unat v div 2 ^ n = unat (w :: 'a::len word) div 2 ^ n"
proof -
  have "drop_bit n (v XOR w) = 0 \<longleftrightarrow> drop_bit n v = drop_bit n w"
    by (auto simp: bit_eq_iff bit_simps)
  also have "\<dots> \<longleftrightarrow> unat (drop_bit n v) = unat (drop_bit n w)"
    by (rule word_unat_eq_iff)
  finally show ?thesis
    by (simp only: unat_drop_bit_eq drop_bit_eq_div [of n "unat v"] drop_bit_eq_div [of n "unat w"])
qed

lemma unat_mask: "unat (push_bit n (drop_bit n w)) = unat w div 2 ^ n * 2 ^ n"
  for w :: "'a::len word"
proof -
  have "unat w div 2 ^ n * 2 ^ n \<le> unat w" by simp
  also have "\<dots> < 2 ^ LENGTH('a)" by simp
  finally show ?thesis
    by (simp only: unsigned_push_bit_eq unat_drop_bit_eq push_bit_eq_mult [of n "_ :: nat"]
        drop_bit_eq_div [of n "_ :: nat"] take_bit_eq_mod mod_less)
qed

lemma mask_div_low: "n \<le> k \<Longrightarrow> u div 2 ^ n * 2 ^ n div 2 ^ k = u div (2 ^ k :: nat)"
proof -
  assume "n \<le> k"
  then have "(2::nat) ^ k = 2 ^ n * 2 ^ (k - n)" by (simp flip: power_add)
  then show ?thesis by (simp add: div_mult2_eq)
qed

lemma mask_div_high: "k < n \<Longrightarrow> even (u div 2 ^ n * 2 ^ n div (2 ^ k :: nat))"
proof -
  assume "k < n"
  then have "(2::nat) ^ n = 2 ^ (n - k) * 2 ^ k" by (simp flip: power_add)
  then have "u div 2 ^ n * 2 ^ n div (2 ^ k :: nat) = u div 2 ^ n * 2 ^ (n - k)"
    by (metis mult.assoc nonzero_mult_div_cancel_right power_not_zero zero_neq_numeral)
  with \<open>k < n\<close> show ?thesis by simp
qed

lemma mask_not_4in6: "\<not> is4in6 a \<Longrightarrow> \<not> is4in6 (mask_addr a b)"
proof (cases a)
  case (V6 w z)
  assume a: "\<not> is4in6 a"
  have "unat w div 2 ^ (128 - b) * 2 ^ (128 - b) div 2 ^ 32 \<noteq> 65535"
  proof (cases "128 - b \<le> 32")
    case True
    then show ?thesis using a V6 mask_div_low [OF True, of "unat w"] by (simp add: is4in6_def)
  next
    case False
    then have "even (unat w div 2 ^ (128 - b) * 2 ^ (128 - b) div 2 ^ 32)"
      by (intro mask_div_high) simp
    then show ?thesis by (metis odd_numeral)
  qed
  with V6 show ?thesis by (simp add: mask_addr_def is4in6_def unat_mask del: power_Suc)
qed (simp add: mask_addr_def is4in6_def)

lemma high_plus_div:
  assumes "n \<le> k"
  shows "(h * 2 ^ k + x) div 2 ^ n = h * 2 ^ (k - n) + x div (2 ^ n :: nat)"
proof -
  have "(2::nat) ^ k = 2 ^ (k - n) * 2 ^ n" using assms(1) by (simp flip: power_add)
  then have "h * 2 ^ k + x = x + h * 2 ^ (k - n) * (2 ^ n :: nat)" by (simp only: ac_simps)
  then show ?thesis by (simp only: div_mult_self1) simp
qed

lemma contains_simps:
  "prefix_contains (Prefix (V4 v) b) (V4 w) \<longleftrightarrow> unat v div 2 ^ (32 - b) = unat w div 2 ^ (32 - b)"
  "prefix_contains (Prefix (V6 v' z) b) (V6 w' []) \<longleftrightarrow>
     unat v' div 2 ^ (128 - b) = unat w' div 2 ^ (128 - b)"
  "\<not> prefix_contains (Prefix (V4 v) b) (V6 w' z)"
  "\<not> prefix_contains (Prefix (V6 v' z) b) (V4 w)"
  by (simp_all add: prefix_contains_def zone_def drop_bit_xor_eq_0 del: drop_bit_xor)

lemma parse_prefix_SomeD:
  assumes "parse_prefix s = Some p"
  shows "\<exists>q b. p = Prefix q b \<and> b \<le> bit_len q \<and> zone q = []"
proof -
  obtain a bits where "zone a = []" "\<not> bits < 0" "\<not> bits > int (bit_len a)" "p = prefix_from a bits"
    using assms
    by (auto simp: parse_prefix_def Let_def split: if_splits option.splits)
  then show ?thesis by (auto simp: prefix_from_def without_zone_id)
qed

lemma zone_unmap: "zone a = [] \<Longrightarrow> zone (unmap a) = []"
  by (auto simp: unmap_def zone_def split: addr.splits)

lemma zone_without [simp]: "zone (without_zone a) = []"
  and without_not_4in6 [simp]: "is4in6 (without_zone a) = is4in6 a"
  and bit_len_without [simp]: "bit_len (without_zone a) = bit_len a"
  and bit_len_mask [simp]: "bit_len (mask_addr a b) = bit_len a"
  and zone_mask [simp]: "zone (mask_addr a b) = []"
  by (auto simp: zone_def without_zone_def is4in6_def bit_len_def mask_addr_def split: addr.splits)

subsection \<open>The canonical texts\<close>

interpretation ip: codec addr_string parse_addr "\<lambda>a. \<not> is4in6 a"
  by unfold_locales (rule parse_addr_string)

interpretation pfx: codec prefix_string parse_prefix prefix_ok
proof
  fix p
  assume "prefix_ok p"
  then show "parse_prefix (prefix_string p) = Some p"
    by (cases p) (simp_all add: prefix_ok_def parse_prefix_string)
qed

end
