(* ===== verification/Policy.thy ===== *)
theory Policy
  imports Go_Netip
begin

text \<open>
  The user policy language of \<^verbatim>\<open>internal/policy/policy.go\<close>: lists of forbidden networks,
  ports and disconnected source addresses as the panel stores them, their normal form,
  and the checks \<^verbatim>\<open>IPBlocked\<close> and \<^verbatim>\<open>PortBlocked\<close> on the normal form. The lemmas relate the
  checks to the meaning of the text the administrator wrote.
\<close>

datatype policy_error = InvalidIPRule string | InvalidSourceIP string | InvalidPortRule string

subsection \<open>Definitions\<close>

definition is_separator :: "char \<Rightarrow> bool" where
  "is_separator r \<longleftrightarrow> r \<in> {CHR '','', CHR '';'', CHR 0x0A, CHR 0x0D, CHR 0x09, CHR '' ''}"

definition fields :: "string \<Rightarrow> string list" where
  "fields value = fields_func is_separator value"

definition port :: "string \<Rightarrow> int option" where
  "port value =
     (case parse_int64 (trim_space value) of
        None \<Rightarrow> None
      | Some n \<Rightarrow> if n < 1 \<or> n > 65535 then None else Some n)"

text \<open>
  The loop the three list parsers share: normalise each part, stop at the first error,
  keep the first occurrence of every normal form. The Go map \<^verbatim>\<open>seen\<close> holds the elements of
  \<^verbatim>\<open>result\<close>.
\<close>

fun collect :: "(string \<Rightarrow> policy_error + string) \<Rightarrow> string list \<Rightarrow> string list \<Rightarrow>
    policy_error + string list" where
  "collect norm [] result = Inr result"
| "collect norm (p # ps) result =
     (case norm p of
        Inl e \<Rightarrow> Inl e
      | Inr n \<Rightarrow> collect norm ps (if n \<in> set result then result else result @ [n]))"

definition parse_list :: "(string \<Rightarrow> policy_error + string) \<Rightarrow> string \<Rightarrow> policy_error + string list" where
  "parse_list norm value = map_sum id sort (collect norm (fields value) [])"

definition norm_ip_rule :: "string \<Rightarrow> policy_error + string" where
  "norm_ip_rule part =
     (case parse_prefix part of
        Some (Prefix address bits) \<Rightarrow>
          (let bits' = (if is4in6 address then int bits - 96 else int bits)
           in Inr (prefix_string (masked (prefix_from (unmap address) bits'))))
      | Some InvalidPrefix \<Rightarrow> Inr (prefix_string InvalidPrefix)
      | None \<Rightarrow>
          (case parse_addr part of
             Some address \<Rightarrow>
               Inr (prefix_string (prefix_from (unmap address) (int (bit_len (unmap address)))))
           | None \<Rightarrow> Inl (InvalidIPRule part)))"

definition ParseIPRules :: "string \<Rightarrow> policy_error + string list" where
  "ParseIPRules value = parse_list norm_ip_rule value"

definition norm_source_ip :: "string \<Rightarrow> policy_error + string" where
  "norm_source_ip part =
     (case parse_addr (trim_brackets part) of
        None \<Rightarrow> Inl (InvalidSourceIP part)
      | Some address \<Rightarrow> Inr (addr_string (unmap address)))"

definition ParseSourceIPs :: "string \<Rightarrow> policy_error + string list" where
  "ParseSourceIPs value = parse_list norm_source_ip value"

definition port_range :: "string \<Rightarrow> (int \<times> int) option" where
  "port_range part =
     (let bounds = split_on (CHR ''-'') part in
      if length bounds > 2 then None
      else case port (bounds ! 0) of
          None \<Rightarrow> None
        | Some first \<Rightarrow>
            if length bounds = 2 then
              (case port (bounds ! 1) of
                 None \<Rightarrow> None
               | Some hi \<Rightarrow> if hi < first then None else Some (first, hi))
            else Some (first, first))"

definition show_range :: "int \<times> int \<Rightarrow> string" where
  "show_range r = (case r of (first, hi) \<Rightarrow>
     itoa first @ (if first \<noteq> hi then CHR ''-'' # itoa hi else []))"

definition norm_port :: "string \<Rightarrow> policy_error + string" where
  "norm_port part =
     (case port_range part of
        None \<Rightarrow> Inl (InvalidPortRule part)
      | Some r \<Rightarrow> Inr (show_range r))"

definition ParsePorts :: "string \<Rightarrow> policy_error + string list" where
  "ParsePorts value = parse_list norm_port value"

definition CanonicalIP :: "string \<Rightarrow> string option" where
  "CanonicalIP value = map_option (\<lambda>a. addr_string (unmap a)) (parse_addr (trim_brackets value))"

definition IPBlocked :: "string list \<Rightarrow> string \<Rightarrow> bool" where
  "IPBlocked rules value =
     (case parse_addr (trim_brackets value) of
        None \<Rightarrow> True
      | Some address \<Rightarrow>
          list_ex (\<lambda>rule. case parse_prefix rule of
              Some prefix \<Rightarrow> prefix_contains prefix (unmap address)
            | None \<Rightarrow> False) rules)"

fun PortBlocked :: "string list \<Rightarrow> int \<Rightarrow> bool" where
  "PortBlocked [] value = False"
| "PortBlocked (rule # rules) value =
     (let bounds = split_on (CHR ''-'') rule in
      case parse_int64 (bounds ! 0) of
        None \<Rightarrow> True
      | Some first \<Rightarrow>
          (case (if length bounds = 2 then parse_int64 (bounds ! 1) else Some first) of
             None \<Rightarrow> True
           | Some hi \<Rightarrow> if value \<ge> first \<and> value \<le> hi then True else PortBlocked rules value))"

subsection \<open>The shared loop\<close>

lemma collect_Inr:
  "collect norm ps acc = Inr res \<Longrightarrow>
     set res = set acc \<union> {n. \<exists>p \<in> set ps. norm p = Inr n} \<and> (\<forall>p \<in> set ps. \<exists>n. norm p = Inr n)"
  by (induction norm ps acc arbitrary: res rule: collect.induct) (fastforce split: sum.splits if_splits)+

lemma collect_distinct: "collect norm ps acc = Inr res \<Longrightarrow> distinct acc \<Longrightarrow> distinct res"
  by (induction norm ps acc arbitrary: res rule: collect.induct) (auto split: sum.splits if_splits)

lemma parse_list_Inr:
  assumes "parse_list norm value = Inr res"
  shows "sorted res" and "distinct res"
    and "set res = {n. \<exists>p \<in> set (fields value). norm p = Inr n}"
    and "\<forall>p \<in> set (fields value). \<exists>n. norm p = Inr n"
proof -
  obtain r where r: "collect norm (fields value) [] = Inr r" "res = sort r"
    using assms by (auto simp: parse_list_def map_sum_def split: sum.splits)
  from collect_distinct [OF r(1)] r(2) show "sorted res" and "distinct res" by simp_all
  from collect_Inr [OF r(1)] r(2)
  show "set res = {n. \<exists>p \<in> set (fields value). norm p = Inr n}"
    and "\<forall>p \<in> set (fields value). \<exists>n. norm p = Inr n" by simp_all
qed

subsection \<open>Ports\<close>

lemma port_bounds: "port s = Some n \<Longrightarrow> 1 \<le> n \<and> n \<le> 65535"
  by (auto simp: port_def split: option.splits if_splits)

lemma port_range_bounds: "port_range p = Some (a, b) \<Longrightarrow> 1 \<le> a \<and> a \<le> b \<and> b \<le> 65535"
  by (auto simp: port_range_def Let_def dest: port_bounds split: option.splits if_splits)

lemma itoa_no_dash: "0 \<le> n \<Longrightarrow> CHR ''-'' \<notin> set (itoa n)"
  by (auto simp: itoa_def is_digit_def dest!: show_10_digits)

lemma PortBlocked_Cons_range:
  assumes "1 \<le> a" and "a \<le> b" and "b \<le> 65535"
  shows "PortBlocked (show_range (a, b) # rules) v \<longleftrightarrow> (a \<le> v \<and> v \<le> b) \<or> PortBlocked rules v"
proof -
  have ok: "int64_ok a" "int64_ok b" using assms by (simp_all add: int64_defs)
  have "split_on (CHR ''-'') (itoa a @ CHR ''-'' # itoa b) = [itoa a, itoa b]"
    and "split_on (CHR ''-'') (itoa a) = [itoa a]"
    using itoa_no_dash assms by (simp_all add: split_on_append split_on_none)
  with ok show ?thesis by (auto simp: show_range_def dec.parse_show)
qed

lemma norm_port_Inr: "norm_port p = Inr r \<longleftrightarrow> (\<exists>a b. port_range p = Some (a, b) \<and> r = show_range (a, b))"
  by (auto simp: norm_port_def split: option.splits)

lemma PortBlocked_norm:
  "norm_port p = Inr r \<Longrightarrow> port_range p = Some (a, b) \<Longrightarrow>
     PortBlocked (r # rules) v \<longleftrightarrow> (a \<le> v \<and> v \<le> b) \<or> PortBlocked rules v"
  by (auto simp: norm_port_Inr PortBlocked_Cons_range dest!: port_range_bounds
      simp del: PortBlocked.simps(2))

lemma PortBlocked_any:
  assumes "\<forall>r \<in> set rules. \<exists>p. norm_port p = Inr r"
  shows "PortBlocked rules v \<longleftrightarrow> (\<exists>r \<in> set rules. PortBlocked [r] v)"
  using assms
proof (induction rules)
  case (Cons r rules)
  then obtain p a b where "norm_port p = Inr r" "port_range p = Some (a, b)"
    by (auto simp: norm_port_Inr)
  note PB = PortBlocked_norm [OF this]
  from Cons PB [of rules v] PB [of "[]" v] show ?case by (simp del: PortBlocked.simps(2))
qed simp

lemma ports_meaning:
  assumes "ParsePorts value = Inr rules"
  shows "PortBlocked rules v \<longleftrightarrow>
    (\<exists>part \<in> set (fields value). \<exists>a b. port_range part = Some (a, b) \<and> a \<le> v \<and> v \<le> b)"
proof -
  note L = parse_list_Inr [OF assms [unfolded ParsePorts_def]]
  then have "PortBlocked rules v \<longleftrightarrow> (\<exists>r \<in> set rules. PortBlocked [r] v)"
    by (intro PortBlocked_any) auto
  also have "\<dots> \<longleftrightarrow> (\<exists>part \<in> set (fields value). \<exists>r. norm_port part = Inr r \<and> PortBlocked [r] v)"
    using L(3) by blast
  also have "\<dots> \<longleftrightarrow> (\<exists>part \<in> set (fields value). \<exists>a b. port_range part = Some (a, b) \<and> a \<le> v \<and> v \<le> b)"
    using PortBlocked_norm [where rules = "[]" and v = v] norm_port_Inr
    by (metis PortBlocked.simps(1))
  finally show ?thesis .
qed

subsection \<open>Networks\<close>

text \<open>
  What the text of a rule covers, independently of how it is stored: a prefix covers the
  addresses it contains, and a prefix of IPv4-mapped addresses covers the IPv4 addresses
  whose mapped form it contains; a single address covers itself.
\<close>

definition map46 :: "32 word \<Rightarrow> addr" where
  "map46 w = V6 (of_nat (65535 * 2 ^ 32 + unat w)) []"

definition covers :: "prefix \<Rightarrow> addr \<Rightarrow> bool" where
  "covers p a =
     (case (p, a) of
        (Prefix q b, V4 w) \<Rightarrow> prefix_contains p (if is4in6 q then map46 w else a)
      | _ \<Rightarrow> prefix_contains p a)"

lemma unat_map46: "unat (of_nat (65535 * 2 ^ 32 + unat w) :: 128 word) = 65535 * 2 ^ 32 + unat (w :: 32 word)"
proof -
  have "unat w < 2 ^ 32" using unsigned_less [of w] by simp
  then have "65535 * 2 ^ 32 + unat w < 2 ^ LENGTH(128)" by simp
  then show ?thesis by (simp only: unat_of_nat mod_less)
qed

text \<open>Unmapping an IPv4-mapped prefix of at least 96 bits keeps what it covers.\<close>

lemma covers_mapped:
  assumes q: "is4in6 q" and b: "96 \<le> b" "b \<le> 128" and a: "\<not> is4in6 a" "zone a = []"
  shows "prefix_contains (Prefix (unmap q) (b - 96)) a \<longleftrightarrow> covers (Prefix q b) a"
proof -
  obtain v z where v: "q = V6 v z" "unat v div 2 ^ 32 = 65535"
    using q by (auto simp: is4in6_def split: addr.splits)
  let ?x = "unat v mod 2 ^ 32" and ?n = "128 - b"
  have uv: "unat v = 65535 * 2 ^ 32 + ?x" using v(2) by (metis div_mult_mod_eq)
  have n: "?n \<le> 32" "32 - (b - 96) = ?n" using b by auto
  have um: "unmap q = V4 (of_nat ?x)" and ux: "unat (of_nat ?x :: 32 word) = ?x"
    using q v by (simp_all add: unmap_def unat_of_nat)
  show ?thesis
  proof (cases a)
    case (V4 w)
    have "unat w < 2 ^ 32" using unsigned_less [of w] by simp
    then have "unat v div 2 ^ ?n = (65535 * 2 ^ 32 + unat w) div 2 ^ ?n \<longleftrightarrow>
        ?x div 2 ^ ?n = unat w div 2 ^ ?n"
      by (subst uv) (simp only: high_plus_div [OF n(1)] add_left_cancel)
    moreover have "prefix_contains (Prefix (V4 (of_nat ?x)) (b - 96)) (V4 w) \<longleftrightarrow>
        ?x div 2 ^ ?n = unat w div 2 ^ ?n"
      unfolding contains_simps n(2) ux ..
    moreover have "prefix_contains (Prefix q b) (map46 w) \<longleftrightarrow>
        unat v div 2 ^ ?n = (65535 * 2 ^ 32 + unat w) div 2 ^ ?n"
      unfolding contains_simps map46_def v(1) unat_map46 ..
    ultimately show ?thesis using q by (simp only: covers_def V4 um prefix.case addr.case prod.case if_True)
  next
    case (V6 w z')
    have "unat v div 2 ^ ?n \<noteq> unat w div 2 ^ ?n"
    proof
      assume "unat v div 2 ^ ?n = unat w div 2 ^ ?n"
      then have "unat v div 2 ^ ?n div 2 ^ (32 - ?n) = unat w div 2 ^ ?n div 2 ^ (32 - ?n)" by simp
      moreover have "(2::nat) ^ 32 = 2 ^ ?n * 2 ^ (32 - ?n)" using n(1) by (simp flip: power_add)
      ultimately have "unat w div 2 ^ 32 = 65535" using v(2) by (metis div_mult2_eq)
      with a(1) V6 show False by (simp add: is4in6_def)
    qed
    then show ?thesis
      using V6 a(2) um v(1) by (simp add: covers_def zone_def contains_simps)
  qed
qed


text \<open>The rules whose stored form means what was written.\<close>

definition rule_covers :: "string \<Rightarrow> addr \<Rightarrow> bool" where
  "rule_covers part a =
     (case parse_prefix part of
        Some p \<Rightarrow> covers p a
      | None \<Rightarrow> (case parse_addr part of Some q \<Rightarrow> without_zone (unmap q) = a | None \<Rightarrow> False))"

definition mapped_short :: "string \<Rightarrow> bool" where
  "mapped_short part = (case parse_prefix part of
     Some (Prefix q b) \<Rightarrow> is4in6 q \<and> b < 96 | _ \<Rightarrow> False)"

definition stored_matches :: "string \<Rightarrow> addr \<Rightarrow> bool" where
  "stored_matches rule a =
     (case parse_prefix rule of Some p \<Rightarrow> prefix_contains p a | None \<Rightarrow> False)"

lemma stored_masked:
  assumes "b \<le> bit_len q" and "\<not> is4in6 q"
  shows "stored_matches (prefix_string (masked (prefix_from q (int b)))) a
     \<longleftrightarrow> prefix_contains (Prefix (without_zone q) b) a"
proof -
  let ?p = "Prefix (without_zone q) b"
  have p: "masked (prefix_from q (int b)) = masked ?p"
    using assms(1) by (simp add: prefix_from_def)
  have "parse_prefix (prefix_string (Prefix (mask_addr (without_zone q) b) b))
      = Some (Prefix (mask_addr (without_zone q) b) b)"
    using assms by (intro parse_prefix_string) (simp_all add: mask_not_4in6)
  then have "parse_prefix (prefix_string (masked ?p)) = Some (masked ?p)"
    by (simp add: masked_def)
  then show ?thesis by (simp add: stored_matches_def p)
qed

lemma stored_single:
  assumes "\<not> is4in6 q" and "zone a = []"
  shows "stored_matches (prefix_string (prefix_from q (int (bit_len q)))) a \<longleftrightarrow> without_zone q = a"
proof -
  have "parse_prefix (prefix_string (Prefix (without_zone q) (bit_len q)))
      = Some (Prefix (without_zone q) (bit_len q))"
    using assms by (intro parse_prefix_string) simp_all
  then have "stored_matches (prefix_string (prefix_from q (int (bit_len q)))) a
      \<longleftrightarrow> prefix_contains (Prefix (without_zone q) (bit_len q)) a"
    by (simp add: stored_matches_def prefix_from_def)
  also have "\<dots> \<longleftrightarrow> without_zone q = a"
    using assms(2) by (cases q; cases a) (auto simp: without_zone_def bit_len_def zone_def contains_simps word_unat_eq_iff)
  finally show ?thesis .
qed

text \<open>Normalising a rule keeps what it covers.\<close>

lemma norm_ip_rule_covers:
  assumes n: "norm_ip_rule part = Inr n" and s: "\<not> mapped_short part"
    and a: "\<not> is4in6 a" "zone a = []"
  shows "stored_matches n a \<longleftrightarrow> rule_covers part a"
proof (cases "parse_prefix part")
  case None
  then obtain q where "parse_addr part = Some q"
    "n = prefix_string (prefix_from (unmap q) (int (bit_len (unmap q))))"
    using n by (auto simp: norm_ip_rule_def split: option.splits)
  with None a show ?thesis by (simp add: rule_covers_def stored_single)
next
  case (Some p)
  then obtain q b where p: "p = Prefix q b" "b \<le> bit_len q" "zone q = []"
    using parse_prefix_SomeD by blast
  show ?thesis
  proof (cases "is4in6 q")
    case True
    then have b: "96 \<le> b" "b \<le> 128" and um: "bit_len (unmap q) = 32" "zone (unmap q) = []"
      using s Some p by (auto simp: mapped_short_def is4in6_def bit_len_def unmap_def zone_def split: addr.splits)
    have "n = prefix_string (masked (prefix_from (unmap q) (int (b - 96))))"
      using n Some p True b by (simp add: norm_ip_rule_def)
    then have "stored_matches n a \<longleftrightarrow> prefix_contains (Prefix (unmap q) (b - 96)) a"
      using um b stored_masked [of "b - 96" "unmap q" a] by (simp only: without_zone_id) simp
    then show ?thesis
      using covers_mapped [OF True b a] Some p by (simp add: rule_covers_def)
  next
    case False
    then have "n = prefix_string (masked (prefix_from q (int b)))"
      using n Some p by (simp add: norm_ip_rule_def)
    then have "stored_matches n a \<longleftrightarrow> prefix_contains (Prefix q b) a"
      using p False by (simp add: stored_masked without_zone_id)
    then show ?thesis
      using False Some p by (simp add: rule_covers_def covers_def split: addr.splits)
  qed
qed

text \<open>The two cases where the stored list does not mean what was written.\<close>

lemma short_mapped_norm:
  assumes "mapped_short part"
  shows "norm_ip_rule part = Inr ''invalid Prefix''"
proof -
  obtain q b where "parse_prefix part = Some (Prefix q b)" "is4in6 q" "b < 96"
    using assms by (auto simp: mapped_short_def split: option.splits prefix.splits)
  then show ?thesis by (simp add: norm_ip_rule_def prefix_from_def masked_def prefix_string_def)
qed

lemma invalid_prefix_text [simp]: "parse_prefix ''invalid Prefix'' = None"
  by (simp add: parse_prefix_def)

lemma stored_zoned: "zone a \<noteq> [] \<Longrightarrow> \<not> stored_matches rule a"
  by (auto simp: stored_matches_def prefix_contains_def split: option.splits prefix.splits)

lemma ip_meaning:
  assumes rules: "ParseIPRules value = Inr rules" and v: "parse_addr (trim_brackets v) = Some a"
  shows "IPBlocked rules v \<longleftrightarrow>
    zone (unmap a) = [] \<and> (\<exists>part \<in> set (fields value). \<not> mapped_short part \<and> rule_covers part (unmap a))"
proof -
  note L = parse_list_Inr [OF rules [unfolded ParseIPRules_def]]
  have "IPBlocked rules v \<longleftrightarrow> (\<exists>r \<in> set rules. stored_matches r (unmap a))"
    using v by (simp add: IPBlocked_def list_ex_iff stored_matches_def)
  also have "\<dots> \<longleftrightarrow> (\<exists>part \<in> set (fields value). \<exists>n. norm_ip_rule part = Inr n \<and> stored_matches n (unmap a))"
    using L(3) by blast
  also have "\<dots> \<longleftrightarrow> zone (unmap a) = [] \<and> (\<exists>part \<in> set (fields value). \<not> mapped_short part \<and> rule_covers part (unmap a))"
  proof (cases "zone (unmap a) = []")
    case True
    have "stored_matches n (unmap a) \<longleftrightarrow> \<not> mapped_short part \<and> rule_covers part (unmap a)"
      if "norm_ip_rule part = Inr n" for part n
      using norm_ip_rule_covers [OF that _ unmap_not_4in6 True] short_mapped_norm [of part] that
      by (cases "mapped_short part") (simp_all add: stored_matches_def)
    with True L(4) show ?thesis by blast
  qed (use stored_zoned in blast)
  finally show ?thesis .
qed


subsection \<open>Source addresses and canonical addresses\<close>

lemma parse_v6_zone_tail:
  "(case t of [] \<Rightarrow> map_option (\<lambda>w. V6 w []) r
    | c # z \<Rightarrow> if z = [] then None else map_option (\<lambda>w. V6 w z) r) = Some a \<Longrightarrow> zone a = tl t"
  by (cases t) (auto simp: zone_def split: if_splits)

lemma parse_addr_zone_last:
  assumes "parse_addr s = Some a" and "zone a \<noteq> []"
  shows "last s = last (zone a)"
proof -
  let ?P = "\<lambda>c. c \<noteq> CHR ''%''"
  have "parse_v4 s \<noteq> Some a" using assms(2) by (auto simp: parse_v4_def zone_def)
  with assms(1) have "parse_v6 s = Some a"
    by (auto simp: parse_addr_def split: list.splits if_splits)
  then have "zone a = tl (dropWhile ?P s)"
    unfolding parse_v6_def Let_def by (rule parse_v6_zone_tail)
  then obtain c where "dropWhile ?P s = c # zone a"
    using assms(2) by (metis list.collapse list.sel(2))
  then have "s = takeWhile ?P s @ c # zone a" by (metis takeWhile_dropWhile_id)
  then have "last s = last (c # zone a)" by (metis last_appendR list.distinct(1))
  with assms(2) show ?thesis by simp
qed

lemma addr_string_chars: "zone a = [] \<Longrightarrow> c \<in> set (addr_string a) \<Longrightarrow> \<not> is_bracket c"
proof -
  have "\<not> is_bracket c" if "is_hex c \<or> c = CHR ''.'' \<or> c = CHR '':''"
    using that by (auto simp: is_hex_def is_digit_def is_bracket_def)
  moreover have "set (addr_string a) \<subseteq> {c. is_hex c \<or> c = CHR ''.'' \<or> c = CHR '':''}" if "zone a = []"
    using that is_digit_is_hex v4_string_chars v6_string_chars
    by (fastforce simp: addr_string_def zone_def is_hex_def is_digit_def split: addr.splits if_splits)
  ultimately show "zone a = [] \<Longrightarrow> c \<in> set (addr_string a) \<Longrightarrow> \<not> is_bracket c" by blast
qed

lemma addr_string_split: "addr_string a = addr_string (without_zone a)
    @ (if zone a = [] then [] else CHR ''%'' # zone a)"
  by (simp add: addr_string_def without_zone_def zone_def is4in6_def split: addr.splits)

lemma addr_string_nonempty [simp]: "addr_string a \<noteq> []"
proof -
  have "v4_string w \<noteq> []" for w using parse_addr_v4 [of w] by (auto simp: parse_addr_def)
  moreover have "v6_string w \<noteq> []" for w using v6_string_colon [of w] by force
  ultimately show ?thesis by (simp add: addr_string_def split: addr.splits)
qed

lemma trim_addr_string:
  "zone a = [] \<or> \<not> is_bracket (last (zone a)) \<Longrightarrow> trim_brackets (addr_string a) = addr_string a"
proof (rule trim_brackets_id)
  let ?s = "addr_string (without_zone a)"
  assume z: "zone a = [] \<or> \<not> is_bracket (last (zone a))"
  have no: "\<not> is_bracket c" if "c \<in> set ?s" for c
    by (rule addr_string_chars [OF zone_without that])
  show "addr_string a \<noteq> []" by simp
  show "\<not> is_bracket (hd (addr_string a))"
    using no by (subst addr_string_split) simp
  show "\<not> is_bracket (last (addr_string a))"
    using no z by (subst addr_string_split) auto
qed

lemma canonical_idem: "CanonicalIP v = Some c \<Longrightarrow> CanonicalIP c = Some c"
proof -
  assume "CanonicalIP v = Some c"
  then obtain a where a: "parse_addr (trim_brackets v) = Some a" "c = addr_string (unmap a)"
    by (auto simp: CanonicalIP_def)
  have "zone (unmap a) = [] \<or> \<not> is_bracket (last (zone (unmap a)))"
  proof (cases "zone a = []")
    case True
    then show ?thesis by (simp add: zone_unmap)
  next
    case False
    moreover from this a have "trim_brackets v \<noteq> []" by (auto simp: parse_addr_def)
    ultimately have "\<not> is_bracket (last (zone a))"
      using parse_addr_zone_last [OF a(1)] trim_brackets_last [of v] by simp
    then show ?thesis by (auto simp: unmap_def zone_def split: addr.splits)
  qed
  then have "trim_brackets c = c" using a(2) by (simp add: trim_addr_string)
  then show ?thesis by (simp add: CanonicalIP_def a(2) ip.parse_show)
qed

subsection \<open>Properties\<close>

lemmas eval_policy = eval_netip fields_def is_separator_def parse_list_def sort_key_def

text \<open>C22: What a list of forbidden networks blocks, exactly. Whatever list of addresses and CIDR
  rules the panel stores, the normalised list that \<^verbatim>\<open>ParseIPRules\<close> makes of it (unmapped,
  masked, printed, deduplicated, sorted) makes \<^verbatim>\<open>IPBlocked\<close> block every text that is no address,
  and an address exactly when it has no zone and a rule of the text covers it, IPv4 addresses
  written as IPv4-mapped IPv6 included. The only rules that do not count are mapped prefixes
  shorter than 96 bits.\<close>

theorem forbidden_ip_semantics:
  assumes "ParseIPRules value = Inr rules"
  shows "IPBlocked rules v \<longleftrightarrow>
    (case parse_addr (trim_brackets v) of
       None \<Rightarrow> True
     | Some a \<Rightarrow> zone (unmap a) = [] \<and>
         (\<exists>part \<in> set (fields value). \<not> mapped_short part \<and> rule_covers part (unmap a)))"
proof (cases "parse_addr (trim_brackets v)")
  case None
  then show ?thesis by (simp add: IPBlocked_def)
next
  case (Some a)
  with ip_meaning [OF assms Some] show ?thesis by simp
qed

theorem forbidden_ip_semantics_witness:
  "IPBlocked [''10.0.0.0/8'', ''192.0.2.0/24''] ''[::ffff:192.0.2.7]'' \<longleftrightarrow>
     (\<exists>part \<in> set (fields ''10.0.0.0/8 ::ffff:192.0.2.0/120''). \<not> mapped_short part \<and> rule_covers part (V4 3221225991))"
proof -
  have fs: "fields ''10.0.0.0/8 ::ffff:192.0.2.0/120'' = [''10.0.0.0/8'', ''::ffff:192.0.2.0/120'']"
    by (simp add: fields_def is_separator_def)
  have "norm_ip_rule ''10.0.0.0/8'' = Inr ''10.0.0.0/8''"
    and "norm_ip_rule ''::ffff:192.0.2.0/120'' = Inr ''192.0.2.0/24''"
    by (simp_all add: norm_ip_rule_def eval_netip)
  then have r: "ParseIPRules ''10.0.0.0/8 ::ffff:192.0.2.0/120'' = Inr [''10.0.0.0/8'', ''192.0.2.0/24'']"
    by (simp add: ParseIPRules_def parse_list_def fs sort_key_def)
  have a: "parse_addr (trim_brackets ''[::ffff:192.0.2.7]'') = Some (V6 281473902969351 [])"
    by (simp add: eval_netip)
  have u: "unmap (V6 281473902969351 []) = V4 3221225991" by (simp add: eval_netip)
  have z: "zone (unmap (V6 281473902969351 [])) = []" by (simp add: u zone_def)
  show ?thesis using forbidden_ip_semantics [OF r, of "''[::ffff:192.0.2.7]''"] z by (simp only: a u option.case) simp
qed

text \<open>C23: Forbidden ports mean what their text says. When \<^verbatim>\<open>ParsePorts\<close> accepts a list of ports
  and ranges, \<^verbatim>\<open>PortBlocked\<close> on its result blocks exactly the ports inside one of the written
  ranges; normalising, deduplicating and sorting as text neither loses nor adds a port.\<close>

theorem forbidden_port_semantics:
  assumes "ParsePorts value = Inr rules"
  shows "PortBlocked rules v \<longleftrightarrow>
    (\<exists>part \<in> set (fields value). \<exists>a b. port_range part = Some (a, b) \<and> a \<le> v \<and> v \<le> b)"
  using assms by (rule ports_meaning)

theorem forbidden_port_semantics_witness:
  "PortBlocked [''1000-2000'', ''443'', ''53''] 1500 \<longleftrightarrow>
    (\<exists>part \<in> set (fields ''443, 1000-2000;53''). \<exists>a b. port_range part = Some (a, b) \<and> a \<le> 1500 \<and> 1500 \<le> b)"
proof -
  have "ParsePorts ''443, 1000-2000;53'' = Inr [''1000-2000'', ''443'', ''53'']"
    by (simp add: ParsePorts_def norm_port_def port_range_def port_def show_range_def eval_policy eval_space)
  then show ?thesis by (rule forbidden_port_semantics)
qed

text \<open>The compiled port list is well formed. \<^verbatim>\<open>ParsePorts\<close> returns its rules in
  increasing byte order without duplicates, and every rule is a range inside 1..65535
  printed in decimal.\<close>

theorem compiled_ports_wellformed:
  assumes "ParsePorts value = Inr rules"
  shows "sorted rules \<and> distinct rules \<and>
    (\<forall>r \<in> set rules. \<exists>a b. r = show_range (a, b) \<and> 1 \<le> a \<and> a \<le> b \<and> b \<le> 65535)"
proof -
  note L = parse_list_Inr [OF assms [unfolded ParsePorts_def]]
  have "\<forall>r \<in> set rules. \<exists>a b. r = show_range (a, b) \<and> 1 \<le> a \<and> a \<le> b \<and> b \<le> 65535"
    using L(3) port_range_bounds by (fastforce simp: norm_port_Inr)
  with L(1,2) show ?thesis by blast
qed

theorem compiled_ports_wellformed_witness:
  "sorted [''443'', ''80-90''] \<and> (\<exists>a b. ''80-90'' = show_range (a, b) \<and> 1 \<le> a \<and> a \<le> b \<and> b \<le> 65535)"
proof -
  have "ParsePorts ''80-90 443 80-90'' = Inr [''443'', ''80-90'']"
    by (simp add: ParsePorts_def norm_port_def port_range_def port_def show_range_def eval_policy eval_space)
  from compiled_ports_wellformed [OF this] show ?thesis by auto
qed

text \<open>Canonical addresses are canonical. The text \<^verbatim>\<open>CanonicalIP\<close> returns parses to the same
  unmapped address and canonicalising it again changes nothing, zones and brackets included,
  so comparing source addresses as text compares addresses.\<close>

theorem canonical_ip_idempotent:
  assumes "CanonicalIP v = Some c"
  shows "CanonicalIP c = Some c"
  using assms by (rule canonical_idem)

theorem canonical_ip_idempotent_witness: "CanonicalIP ''192.0.2.7'' = Some ''192.0.2.7''"
proof (rule canonical_ip_idempotent)
  show "CanonicalIP ''[::ffff:192.0.2.7]'' = Some ''192.0.2.7''"
    by (simp add: CanonicalIP_def eval_netip)
qed

text \<open>C40: A mapped prefix shorter than 96 bits is stored as a rule that never matches. The
  parser accepts the text, but the stored rule is the text of the invalid prefix, which
  \<^verbatim>\<open>IPBlocked\<close> cannot parse and skips, although the written network covers IPv4 addresses.\<close>

theorem short_mapped_prefix_never_blocks:
  assumes "mapped_short part"
  shows "norm_ip_rule part = Inr ''invalid Prefix'' \<and>
    (\<forall>rules v. IPBlocked (''invalid Prefix'' # rules) v \<longleftrightarrow> IPBlocked rules v)"
proof -
  have "IPBlocked (''invalid Prefix'' # rules) v \<longleftrightarrow> IPBlocked rules v" for rules v
    by (simp add: IPBlocked_def split: option.splits)
  with short_mapped_norm [OF assms] show ?thesis by blast
qed

theorem short_mapped_prefix_never_blocks_witness:
  "norm_ip_rule ''::ffff:0:0/95'' = Inr ''invalid Prefix'' \<and>
    (\<forall>rules v. IPBlocked (''invalid Prefix'' # rules) v \<longleftrightarrow> IPBlocked rules v)"
  by (rule short_mapped_prefix_never_blocks) (simp add: mapped_short_def eval_netip)

text \<open>An address with a zone is never blocked. An IPv6 text with a zone that is not an
  IPv4-mapped address passes \<^verbatim>\<open>IPBlocked\<close> whatever the rules are.\<close>

theorem zoned_address_never_blocked:
  assumes "parse_addr (trim_brackets v) = Some a" and "zone (unmap a) \<noteq> []"
  shows "\<not> IPBlocked rules v"
  using assms by (auto simp: IPBlocked_def list_ex_iff prefix_contains_def split: option.splits prefix.splits)

theorem zoned_address_never_blocked_witness: "\<not> IPBlocked [''fd00::/8'', ''::/0''] ''fd00::1%x''"
proof (rule zoned_address_never_blocked)
  show "parse_addr (trim_brackets ''fd00::1%x'') = Some (V6 336294682933583715844663186250927177729 ''x'')"
    by (simp add: eval_netip)
  show "zone (unmap (V6 336294682933583715844663186250927177729 ''x'')) \<noteq> []"
    by (simp add: eval_netip)
qed

end
