(* ===== verification/Config.thy ===== *)
theory Config
  imports Go_Text Go_Netip
begin

text \<open>
  The configuration of \<^verbatim>\<open>internal/config/config.go\<close>: the configuration record, the scan that
  rejects duplicate JSON keys, the defaults, the validation with every one of its error returns,
  the secret file checks and the durations.

  The lexer of \<^verbatim>\<open>encoding/json\<close> is represented by its results: the list of what successive calls of
  \<^verbatim>\<open>Token()\<close> return, where the end of the list is \<^verbatim>\<open>io.EOF\<close>. File access and the typed decoder
  are parameters of \<^verbatim>\<open>Load\<close> and \<^verbatim>\<open>ReadSecret\<close>.
\<close>

subsection \<open>Data\<close>

record database_config =
  d_Address :: string
  d_Name :: string
  d_Username :: string
  d_PasswordFile :: string
  d_TLSMode :: string
  d_CAFile :: string
  d_ServerName :: string
  d_MaxOpen :: int64
  d_MaxIdle :: int64

record intervals =
  i_AuthRefreshSeconds :: int64
  i_ReportSeconds :: int64
  i_AuthStaleSeconds :: int64
  i_ShutdownSeconds :: int64

record limits =
  l_TCPPerUser :: int64
  l_TCPGlobal :: int64
  l_ConcurrentHandshakes :: int64
  l_XUDPPerUser :: int64
  l_XUDPGlobal :: int64
  l_DNSResolveTimeoutSeconds :: int64

record config =
  c_NodeID :: int64
  c_Listen :: string
  c_StateDir :: string
  c_RealityPrivateKeyFile :: string
  c_Database :: database_config
  c_Intervals :: intervals
  c_Limits :: limits
  c_OutboxMaxBytes :: int64
  c_LogLevel :: string

datatype config_error =
    ReadConfig
  | JsonError
  | KeyNotString
  | UnexpectedDelim
  | DuplicateKey string
  | MultipleValues
  | DecodeConfig
  | DecodeTrailing
  | NodeIdNotPositive
  | ListenNotHostPort
  | ListenHostNotIP
  | ListenPortRange
  | NotAbsolute string
  | DatabaseRequired
  | DatabaseNameChars
  | DatabaseUserNul
  | TlsExtraFields
  | TlsServerNameRequired
  | TlsMode
  | PoolSizes
  | RefreshTooShort
  | StaleOrShutdown
  | OutboxTooSmall
  | SessionLimits
  | LogLevelUnknown

subsection \<open>Duplicate keys\<close>

datatype token = TObj | TObjEnd | TArr | TArrEnd | TStr string | TScalar | TErr

text \<open>\<^verbatim>\<open>dec.More()\<close>: another element of the current array or object follows.\<close>

fun has_more :: "token list \<Rightarrow> bool" where
  "has_more [] = False"
| "has_more (TObjEnd # _) = False"
| "has_more (TArrEnd # _) = False"
| "has_more _ = True"

text \<open>
  The closure \<^verbatim>\<open>value\<close> and its two loops. Each returns the tokens it left unread. The fuel bounds
  the calls; twice the length of the token list is always enough (\<open>scan_fuel_enough\<close>).
\<close>

fun value_scan :: "nat \<Rightarrow> token list \<Rightarrow> config_error + token list"
  and object_loop :: "nat \<Rightarrow> string list \<Rightarrow> token list \<Rightarrow> config_error + token list"
  and array_loop :: "nat \<Rightarrow> token list \<Rightarrow> config_error + token list" where
  "value_scan 0 ts = Inl JsonError"
| "value_scan (Suc n) ts =
     (case ts of
        [] \<Rightarrow> Inl JsonError
      | TErr # _ \<Rightarrow> Inl JsonError
      | TObj # ts' \<Rightarrow> object_loop n [] ts'
      | TArr # ts' \<Rightarrow> array_loop n ts'
      | TObjEnd # _ \<Rightarrow> Inl UnexpectedDelim
      | TArrEnd # _ \<Rightarrow> Inl UnexpectedDelim
      | _ # ts' \<Rightarrow> Inr ts')"
| "object_loop 0 seen ts = Inl JsonError"
| "object_loop (Suc n) seen ts =
     (if has_more ts then
        (case ts of
           TStr key # ts' \<Rightarrow>
             if key \<in> set seen then Inl (DuplicateKey key)
             else (case value_scan n ts' of
                     Inl e \<Rightarrow> Inl e
                   | Inr rest \<Rightarrow> object_loop n (key # seen) rest)
         | TErr # _ \<Rightarrow> Inl JsonError
         | _ \<Rightarrow> Inl KeyNotString)
      else (case ts of
              [] \<Rightarrow> Inl JsonError
            | TErr # _ \<Rightarrow> Inl JsonError
            | _ # ts' \<Rightarrow> Inr ts'))"
| "array_loop 0 ts = Inl JsonError"
| "array_loop (Suc n) ts =
     (if has_more ts then
        (case value_scan n ts of
           Inl e \<Rightarrow> Inl e
         | Inr rest \<Rightarrow> array_loop n rest)
      else (case ts of
              [] \<Rightarrow> Inl JsonError
            | TErr # _ \<Rightarrow> Inl JsonError
            | _ # ts' \<Rightarrow> Inr ts'))"

definition rejectDuplicateKeys :: "token list \<Rightarrow> config_error option" where
  "rejectDuplicateKeys ts =
     (case value_scan (Suc (2 * length ts)) ts of
        Inl e \<Rightarrow> Some e
      | Inr [] \<Rightarrow> None
      | Inr (TErr # _) \<Rightarrow> Some JsonError
      | Inr (_ # _) \<Rightarrow> Some MultipleValues)"

subsection \<open>Defaults\<close>

definition default_int :: "int64 \<Rightarrow> int64 \<Rightarrow> int64" where
  "default_int d v = (if v = 0 then d else v)"

definition defaults :: "config \<Rightarrow> config" where
  "defaults c = c\<lparr>
     c_Intervals := (c_Intervals c)\<lparr>
       i_AuthRefreshSeconds := default_int 60 (i_AuthRefreshSeconds (c_Intervals c)),
       i_ReportSeconds := default_int 60 (i_ReportSeconds (c_Intervals c)),
       i_AuthStaleSeconds := default_int 3600 (i_AuthStaleSeconds (c_Intervals c)),
       i_ShutdownSeconds := default_int 120 (i_ShutdownSeconds (c_Intervals c))\<rparr>,
     c_OutboxMaxBytes := default_int (2 ^ 30) (c_OutboxMaxBytes c),
     c_Limits := (c_Limits c)\<lparr>
       l_TCPPerUser := default_int 800 (l_TCPPerUser (c_Limits c)),
       l_TCPGlobal := default_int 3000 (l_TCPGlobal (c_Limits c)),
       l_ConcurrentHandshakes := default_int 1024 (l_ConcurrentHandshakes (c_Limits c)),
       l_XUDPPerUser := default_int 128 (l_XUDPPerUser (c_Limits c)),
       l_XUDPGlobal := default_int 2048 (l_XUDPGlobal (c_Limits c)),
       l_DNSResolveTimeoutSeconds := default_int 10 (l_DNSResolveTimeoutSeconds (c_Limits c))\<rparr>,
     c_Database := (c_Database c)\<lparr>
       d_MaxOpen := default_int 4 (d_MaxOpen (c_Database c)),
       d_MaxIdle := default_int 2 (d_MaxIdle (c_Database c))\<rparr>,
     c_LogLevel := (if c_LogLevel c = [] then ''info'' else c_LogLevel c)\<rparr>"

subsection \<open>Validation\<close>

definition index_byte :: "char \<Rightarrow> string \<Rightarrow> nat option" where
  "index_byte c s = (if c \<in> set s then Some (length (takeWhile (\<lambda>x. x \<noteq> c) s)) else None)"

definition last_index_byte :: "char \<Rightarrow> string \<Rightarrow> nat option" where
  "last_index_byte c s =
     (if c \<in> set s then Some (length s - Suc (length (takeWhile (\<lambda>x. x \<noteq> c) (rev s)))) else None)"

text \<open>\<^verbatim>\<open>net.SplitHostPort\<close>.\<close>

definition SplitHostPort :: "string \<Rightarrow> (string \<times> string) option" where
  "SplitHostPort s =
     (case last_index_byte CHR '':'' s of
        None \<Rightarrow> None
      | Some i \<Rightarrow>
          (let tail = (\<lambda>host j k.
             if CHR ''['' \<in> set (drop j s) then None
             else if CHR '']'' \<in> set (drop k s) then None
             else Some (host, drop (Suc i) s)) in
           if s ! 0 = CHR ''['' then
             (case index_byte CHR '']'' s of
                None \<Rightarrow> None
              | Some e \<Rightarrow>
                  if Suc e = length s then None
                  else if Suc e = i then tail (take (e - 1) (drop 1 s)) 1 (Suc e)
                  else None)
           else if CHR '':'' \<in> set (take i s) then None
           else tail (take i s) 0 0))"

text \<open>\<^verbatim>\<open>net.ParseIP\<close> is \<^verbatim>\<open>netip.ParseAddr\<close> without zones.\<close>

definition ParseIP :: "string \<Rightarrow> addr option" where
  "ParseIP s = (case parse_addr s of None \<Rightarrow> None | Some a \<Rightarrow> if zone a = [] then Some a else None)"

definition validateListen :: "string \<Rightarrow> config_error option" where
  "validateListen s =
     (case SplitHostPort s of
        None \<Rightarrow> Some ListenNotHostPort
      | Some (host, portText) \<Rightarrow>
          if host \<noteq> [] \<and> ParseIP host = None then Some ListenHostNotIP
          else (case parse_int64 portText of
                  None \<Rightarrow> Some ListenPortRange
                | Some p \<Rightarrow> if p < 1 \<or> p > 65535 then Some ListenPortRange else None))"

definition is_abs :: "string \<Rightarrow> bool" where
  "is_abs p = has_prefix p ''/''"

definition absolutePath :: "string \<Rightarrow> string \<Rightarrow> config_error option" where
  "absolutePath name value = (if value = [] \<or> \<not> is_abs value then Some (NotAbsolute name) else None)"

definition validate_tls :: "database_config \<Rightarrow> config_error option" where
  "validate_tls d =
     (if d_TLSMode d = ''disabled'' \<or> d_TLSMode d = ''required'' then
        if d_CAFile d \<noteq> [] \<or> d_ServerName d \<noteq> [] then Some TlsExtraFields else None
      else if d_TLSMode d = ''verify_ca'' then
        (case absolutePath ''database.ca_file'' (d_CAFile d) of
           Some e \<Rightarrow> Some e
         | None \<Rightarrow> if d_ServerName d = [] then Some TlsServerNameRequired else None)
      else Some TlsMode)"

text \<open>The first error of a sequence of checks.\<close>

fun first_error :: "'e option list \<Rightarrow> 'e option" where
  "first_error [] = None"
| "first_error (Some e # _) = Some e"
| "first_error (None # cs) = first_error cs"

definition check :: "bool \<Rightarrow> 'e \<Rightarrow> 'e option" where
  "check bad e = (if bad then Some e else None)"

definition limits_bad :: "limits \<Rightarrow> bool" where
  "limits_bad l \<longleftrightarrow> l_TCPPerUser l < 1 \<or> l_TCPGlobal l < l_TCPPerUser l \<or>
     l_ConcurrentHandshakes l < 1 \<or> l_XUDPPerUser l < 1 \<or>
     l_XUDPGlobal l < l_XUDPPerUser l \<or> l_DNSResolveTimeoutSeconds l < 1 \<or>
     l_TCPGlobal l > 1000000 \<or> l_ConcurrentHandshakes l > 1000000 \<or>
     l_XUDPGlobal l > 1000000 \<or> l_DNSResolveTimeoutSeconds l > 60"

definition Validate :: "config \<Rightarrow> config_error option" where
  "Validate c = (let d = c_Database c; iv = c_Intervals c in first_error [
     check (c_NodeID c \<le> 0) NodeIdNotPositive,
     validateListen (c_Listen c),
     absolutePath ''state_dir'' (c_StateDir c),
     absolutePath ''reality_private_key_file'' (c_RealityPrivateKeyFile c),
     absolutePath ''database.password_file'' (d_PasswordFile d),
     check (d_Address d = [] \<or> d_Name d = [] \<or> d_Username d = []) DatabaseRequired,
     check (\<exists>ch \<in> set (d_Name d). ch \<in> {CHR 0x60, CHR 0x5C, CHR ''/'', CHR 0x00}) DatabaseNameChars,
     check (CHR 0x00 \<in> set (d_Username d)) DatabaseUserNul,
     validate_tls d,
     check (d_MaxOpen d < 1 \<or> d_MaxOpen d > 64 \<or> d_MaxIdle d < 0 \<or> d_MaxIdle d > d_MaxOpen d) PoolSizes,
     check (i_AuthRefreshSeconds iv < 5 \<or> i_ReportSeconds iv < 5) RefreshTooShort,
     check (i_AuthStaleSeconds iv < i_AuthRefreshSeconds iv \<or> i_ShutdownSeconds iv < 1) StaleOrShutdown,
     check (c_OutboxMaxBytes c < 2 ^ 20) OutboxTooSmall,
     check (limits_bad (c_Limits c)) SessionLimits,
     check (c_LogLevel c \<notin> {''debug'', ''info'', ''warn'', ''error''}) LogLevelUnknown])"

text \<open>The outcome of a further \<^verbatim>\<open>Decode\<close> on the rest of the file.\<close>

datatype trailing = TrailingEOF | TrailingValue | TrailingError

definition ensureEOF :: "trailing \<Rightarrow> config_error option" where
  "ensureEOF t = (case t of
     TrailingEOF \<Rightarrow> None
   | TrailingValue \<Rightarrow> Some MultipleValues
   | TrailingError \<Rightarrow> Some DecodeTrailing)"

text \<open>
  \<^verbatim>\<open>Load\<close>: the file, its token list, the result of the typed decoder (unknown fields disallowed) with
  the rest of the file, and the outcome of decoding that rest are given by the parameters.
\<close>

definition Load :: "(string \<Rightarrow> string option) \<Rightarrow> (string \<Rightarrow> token list) \<Rightarrow>
    (string \<Rightarrow> (config \<times> string) option) \<Rightarrow> (string \<Rightarrow> trailing) \<Rightarrow> string \<Rightarrow> config_error + config" where
  "Load readFile scan decode following path =
     (case readFile path of
        None \<Rightarrow> Inl ReadConfig
      | Some data \<Rightarrow>
          (case rejectDuplicateKeys (scan data) of
             Some e \<Rightarrow> Inl e
           | None \<Rightarrow>
               (case decode data of
                  None \<Rightarrow> Inl DecodeConfig
                | Some (c0, rest) \<Rightarrow>
                    (case ensureEOF (following rest) of
                       Some e \<Rightarrow> Inl e
                     | None \<Rightarrow>
                         (case Validate (defaults c0) of
                            Some e \<Rightarrow> Inl e
                          | None \<Rightarrow> Inr (defaults c0))))))"

subsection \<open>Secrets and durations\<close>

record file_info =
  fi_symlink :: bool
  fi_regular :: bool
  fi_perm :: nat
  fi_uid :: "int option"

datatype secret_error =
    InspectSecret | SecretNotRegular | SecretExposed | SecretOwner | ReadSecretFailed | SecretEmpty

unbundle bit_operations_syntax

definition ReadSecret :: "(string \<Rightarrow> file_info option) \<Rightarrow> (string \<Rightarrow> string option) \<Rightarrow> int \<Rightarrow>
    string \<Rightarrow> secret_error + string" where
  "ReadSecret lstat readFile euid path =
     (case lstat path of
        None \<Rightarrow> Inl InspectSecret
      | Some info \<Rightarrow>
          if fi_symlink info \<or> \<not> fi_regular info then Inl SecretNotRegular
          else if fi_perm info AND 0x3F \<noteq> 0 then Inl SecretExposed
          else if (\<exists>uid. fi_uid info = Some uid \<and> uid \<noteq> euid) then Inl SecretOwner
          else (case readFile path of
                  None \<Rightarrow> Inl ReadSecretFailed
                | Some data \<Rightarrow>
                    (let data' = trim_space data in
                     if data' = [] then Inl SecretEmpty else Inr data')))"

definition seconds :: "int64 \<Rightarrow> int64" where
  "seconds n = wrap64 (n * 1000000000)"

definition AuthRefresh :: "config \<Rightarrow> int64" where
  "AuthRefresh c = seconds (i_AuthRefreshSeconds (c_Intervals c))"

definition ReportEvery :: "config \<Rightarrow> int64" where
  "ReportEvery c = seconds (i_ReportSeconds (c_Intervals c))"

definition AuthStale :: "config \<Rightarrow> int64" where
  "AuthStale c = seconds (i_AuthStaleSeconds (c_Intervals c))"

definition Shutdown :: "config \<Rightarrow> int64" where
  "Shutdown c = seconds (i_ShutdownSeconds (c_Intervals c))"

definition DNSResolveTimeout :: "config \<Rightarrow> int64" where
  "DNSResolveTimeout c = seconds (l_DNSResolveTimeoutSeconds (c_Limits c))"

subsection \<open>The duplicate key scan\<close>

lemma scan_consumes:
  "value_scan n ts = Inr rest \<Longrightarrow> length rest < length ts"
  "object_loop n seen ts = Inr rest \<Longrightarrow> length rest < length ts"
  "array_loop n ts = Inr rest \<Longrightarrow> length rest < length ts"
proof (induction n ts and n seen ts and n ts arbitrary: rest and rest and rest
    rule: value_scan_object_loop_array_loop.induct)
  case (2 n ts)
  then show ?case by (fastforce split: list.splits token.splits)
next
  case (4 n seen ts)
  then show ?case
    by (fastforce split: list.splits token.splits sum.splits if_splits)
next
  case (6 n ts)
  then show ?case
    by (fastforce split: list.splits token.splits sum.splits if_splits)
qed simp_all

lemma scan_fuel_Suc:
  "2 * length ts < n \<Longrightarrow> value_scan (Suc n) ts = value_scan n ts"
  "2 * length ts < n \<Longrightarrow> object_loop (Suc n) seen ts = object_loop n seen ts"
  "2 * length ts + 1 < n \<Longrightarrow> array_loop (Suc n) ts = array_loop n ts"
proof (induction n ts and n seen ts and n ts rule: value_scan_object_loop_array_loop.induct)
  case (2 n ts)
  show ?case
  proof (cases ts)
    case (Cons t ts')
    with 2 show ?thesis
      by (cases t) (simp_all del: object_loop.simps array_loop.simps)
  qed simp
next
  case (4 n seen ts)
  show ?case
  proof (cases "\<exists>key ts'. ts = TStr key # ts' \<and> key \<notin> set seen")
    case True
    then obtain key ts' where ts: "ts = TStr key # ts'" and key: "key \<notin> set seen" by blast
    have IH: "value_scan (Suc n) ts' = value_scan n ts'"
      using 4 by (simp add: ts key)
    have "object_loop (Suc n) (key # seen) rest = object_loop n (key # seen) rest"
      if "value_scan n ts' = Inr rest" for rest
      using 4 scan_consumes(1) [OF that] that by (simp add: ts key)
    with IH key show ?thesis by (simp add: ts split: sum.split)
  next
    case False
    then show ?thesis by (auto split: list.split token.split)
  qed
next
  case (6 n ts)
  show ?case
  proof (cases "has_more ts")
    case True
    have IH: "value_scan (Suc n) ts = value_scan n ts"
      using 6 True by simp
    have "array_loop (Suc n) rest = array_loop n rest" if "value_scan n ts = Inr rest" for rest
      using 6 True scan_consumes(1) [OF that] that by simp
    with IH True show ?thesis by (simp split: sum.split)
  next
    case False
    then show ?thesis by simp
  qed
qed simp_all

lemma scan_fuel_enough: "2 * length ts < n \<Longrightarrow> value_scan (n + k) ts = value_scan n ts"
  by (induction k) (simp_all add: scan_fuel_Suc del: value_scan.simps)

text \<open>
  The reference: a JSON value, the tokens a lexer reads from it, and that no object in it, at any
  depth, has the same key twice.
\<close>

datatype json = JScalar | JStr string | JArr "json list" | JObj "(string \<times> json) list"

fun json_tokens :: "json \<Rightarrow> token list"
  and json_list_tokens :: "json list \<Rightarrow> token list"
  and member_tokens :: "(string \<times> json) list \<Rightarrow> token list" where
  "json_tokens JScalar = [TScalar]"
| "json_tokens (JStr s) = [TStr s]"
| "json_tokens (JArr vs) = TArr # json_list_tokens vs @ [TArrEnd]"
| "json_tokens (JObj ms) = TObj # member_tokens ms @ [TObjEnd]"
| "json_list_tokens [] = []"
| "json_list_tokens (v # vs) = json_tokens v @ json_list_tokens vs"
| "member_tokens [] = []"
| "member_tokens ((key, v) # ms) = TStr key # json_tokens v @ member_tokens ms"

fun unique_keys :: "json \<Rightarrow> bool"
  and unique_keys_list :: "json list \<Rightarrow> bool"
  and unique_keys_members :: "string list \<Rightarrow> (string \<times> json) list \<Rightarrow> bool" where
  "unique_keys JScalar = True"
| "unique_keys (JStr s) = True"
| "unique_keys (JArr vs) = unique_keys_list vs"
| "unique_keys (JObj ms) = unique_keys_members [] ms"
| "unique_keys_list [] = True"
| "unique_keys_list (v # vs) = (unique_keys v \<and> unique_keys_list vs)"
| "unique_keys_members seen [] = True"
| "unique_keys_members seen ((key, v) # ms) =
     (key \<notin> set seen \<and> unique_keys v \<and> unique_keys_members (key # seen) ms)"

definition scan_result :: "bool \<Rightarrow> token list \<Rightarrow> config_error + token list \<Rightarrow> bool" where
  "scan_result ok rest r \<longleftrightarrow> (if ok then r = Inr rest else \<exists>key. r = Inl (DuplicateKey key))"

lemma json_tokens_more: "has_more (json_tokens v @ ts)"
  by (cases v) auto

lemma json_tokens_nonempty: "0 < length (json_tokens v)"
  by (cases v) auto

lemma scan_json:
  "2 * length (json_tokens v) < n \<Longrightarrow>
     scan_result (unique_keys v) rest (value_scan n (json_tokens v @ rest))"
  "2 * length (json_list_tokens vs) + 3 < n \<Longrightarrow>
     scan_result (unique_keys_list vs) rest (array_loop n (json_list_tokens vs @ TArrEnd # rest))"
  "2 * length (member_tokens ms) + 2 < n \<Longrightarrow>
     scan_result (unique_keys_members seen ms) rest
       (object_loop n seen (member_tokens ms @ TObjEnd # rest))"
proof (induction v and vs and seen ms arbitrary: n rest and n rest and n rest
    rule: unique_keys_unique_keys_list_unique_keys_members.induct)
  case (1 n rest)
  then show ?case by (cases n) (auto simp: scan_result_def)
next
  case (2 s n rest)
  then show ?case by (cases n) (auto simp: scan_result_def)
next
  case (3 vs n rest)
  then show ?case by (cases n) simp_all
next
  case (4 ms n rest)
  then show ?case by (cases n) simp_all
next
  case (5 n rest)
  then show ?case by (cases n) (auto simp: scan_result_def)
next
  case (6 v vs n rest)
  then obtain m where n: "n = Suc m" by (cases n) auto
  have "scan_result (unique_keys v) (json_list_tokens vs @ TArrEnd # rest)
      (value_scan m (json_tokens v @ json_list_tokens vs @ TArrEnd # rest))"
    using 6 by (intro "6.IH"(1)) (simp add: n)
  moreover have "scan_result (unique_keys_list vs) rest (array_loop m (json_list_tokens vs @ TArrEnd # rest))"
  proof (rule "6.IH"(2))
    have "2 * (length (json_tokens v) + length (json_list_tokens vs)) + 3 < Suc m"
      using "6.prems" by (simp add: n)
    then show "2 * length (json_list_tokens vs) + 3 < m"
      using json_tokens_nonempty [of v] by arith
  qed
  ultimately show ?case by (auto simp: n scan_result_def json_tokens_more split: if_splits)
next
  case (7 seen n rest)
  then show ?case by (cases n) (auto simp: scan_result_def)
next
  case (8 seen key v ms n rest)
  then obtain m where n: "n = Suc m" by (cases n) auto
  have "scan_result (unique_keys v) (member_tokens ms @ TObjEnd # rest)
      (value_scan m (json_tokens v @ member_tokens ms @ TObjEnd # rest))"
    using "8.prems" by (intro "8.IH"(1)) (simp add: n)
  moreover have "scan_result (unique_keys_members (key # seen) ms) rest
      (object_loop m (key # seen) (member_tokens ms @ TObjEnd # rest))"
    using "8.prems" by (intro "8.IH"(2)) (simp add: n)
  ultimately show ?case by (auto simp: n scan_result_def split: if_splits)
qed

subsection \<open>Properties\<close>

lemma first_error_None: "first_error cs = None \<longleftrightarrow> (\<forall>c \<in> set cs. c = None)"
  by (induction cs rule: first_error.induct) auto

lemma check_None [simp]: "check b e = None \<longleftrightarrow> \<not> b"
  by (simp add: check_def)

lemma Validate_None:
  assumes "Validate c = None"
  shows "0 < c_NodeID c" and "validateListen (c_Listen c) = None"
    and "5 \<le> i_AuthRefreshSeconds (c_Intervals c)" and "5 \<le> i_ReportSeconds (c_Intervals c)"
    and "i_AuthRefreshSeconds (c_Intervals c) \<le> i_AuthStaleSeconds (c_Intervals c)"
    and "1 \<le> i_ShutdownSeconds (c_Intervals c)"
    and "2 ^ 20 \<le> c_OutboxMaxBytes c" and "\<not> limits_bad (c_Limits c)"
  using assms by (auto simp: Validate_def Let_def first_error_None)

lemma Load_Inr:
  assumes "Load readFile scan decode following path = Inr c"
  obtains data c0 rest where "readFile path = Some data" "rejectDuplicateKeys (scan data) = None"
    "decode data = Some (c0, rest)" "following rest = TrailingEOF" "c = defaults c0" "Validate c = None"
  using assms by (auto simp: Load_def ensureEOF_def split: option.splits sum.splits trailing.splits)

lemma default_int_idem [simp]: "default_int d (default_int d v) = default_int d v"
  by (simp add: default_int_def)

lemma defaults_idem: "defaults (defaults c) = defaults c"
  by (simp add: defaults_def)

lemma seconds_small: "0 \<le> n \<Longrightarrow> n \<le> 9223372036 \<Longrightarrow> seconds n = n * 1000000000"
  unfolding seconds_def by (rule wrap64_id) (simp add: int64_defs)

text \<open>C28: The duplicate key scan decides exactly whether a document repeats a key. For the tokens
  of any JSON value, whatever its nesting, \<^verbatim>\<open>rejectDuplicateKeys\<close> accepts if and only if no object at
  any depth holds the same key twice, and what it reports otherwise is a duplicate key.\<close>

theorem duplicate_keys_decided:
  "(rejectDuplicateKeys (json_tokens v) = None \<longleftrightarrow> unique_keys v) \<and>
   (rejectDuplicateKeys (json_tokens v) = None \<or>
     (\<exists>key. rejectDuplicateKeys (json_tokens v) = Some (DuplicateKey key)))"
  using scan_json(1) [of v "Suc (2 * length (json_tokens v))" "[]"]
  by (auto simp: rejectDuplicateKeys_def scan_result_def simp del: value_scan.simps split: if_splits)

lemma loaded_limits:
  assumes "Validate c = None"
  shows "1 \<le> l_TCPPerUser (c_Limits c)" and "l_TCPPerUser (c_Limits c) \<le> l_TCPGlobal (c_Limits c)"
    and "l_TCPGlobal (c_Limits c) \<le> 1000000"
    and "1 \<le> l_XUDPPerUser (c_Limits c)" and "l_XUDPPerUser (c_Limits c) \<le> l_XUDPGlobal (c_Limits c)"
    and "l_XUDPGlobal (c_Limits c) \<le> 1000000"
    and "1 \<le> l_ConcurrentHandshakes (c_Limits c)"
    and "l_ConcurrentHandshakes (c_Limits c) \<le> 1000000"
    and "1000000000 \<le> DNSResolveTimeout c" and "DNSResolveTimeout c \<le> 60000000000"
  using Validate_None(8) [OF assms]
  by (simp_all add: limits_bad_def DNSResolveTimeout_def seconds_small)

lemma loaded_listen:
  assumes "Validate c = None"
  obtains host portText p where "SplitHostPort (c_Listen c) = Some (host, portText)"
    "parse_int64 portText = Some p" "1 \<le> p" "p \<le> 65535" "host = [] \<or> ParseIP host \<noteq> None"
  using Validate_None(2) [OF assms]
  by (fastforce simp: validateListen_def split: option.splits prod.splits if_splits)

lemma loaded_intervals:
  assumes "Validate c = None"
  shows "i_AuthStaleSeconds (c_Intervals c) \<le> 9223372036 \<longrightarrow>
      5000000000 \<le> AuthRefresh c \<and> AuthRefresh c \<le> AuthStale c"
    and "i_ReportSeconds (c_Intervals c) \<le> 9223372036 \<longrightarrow> 5000000000 \<le> ReportEvery c"
    and "i_ShutdownSeconds (c_Intervals c) \<le> 9223372036 \<longrightarrow> 1000000000 \<le> Shutdown c"
  using Validate_None(3-6) [OF assms]
  by (simp_all add: AuthRefresh_def AuthStale_def ReportEvery_def Shutdown_def seconds_small)

lemma loaded_database:
  assumes "Validate c = None"
  shows "is_abs (c_StateDir c)" and "is_abs (c_RealityPrivateKeyFile c)" and "is_abs (d_PasswordFile (c_Database c))"
    and "d_Address (c_Database c) \<noteq> []" and "d_Name (c_Database c) \<noteq> []" and "d_Username (c_Database c) \<noteq> []"
    and "d_TLSMode (c_Database c) \<in> {''disabled'', ''required''} \<or>
      d_TLSMode (c_Database c) = ''verify_ca'' \<and> is_abs (d_CAFile (c_Database c)) \<and> d_ServerName (c_Database c) \<noteq> []"
    and "1 \<le> d_MaxOpen (c_Database c)" and "d_MaxOpen (c_Database c) \<le> 64"
    and "0 \<le> d_MaxIdle (c_Database c)" and "d_MaxIdle (c_Database c) \<le> d_MaxOpen (c_Database c)"
    and "c_LogLevel c \<in> {''debug'', ''info'', ''warn'', ''error''}"
  using assms
  by (auto simp: Validate_def Let_def first_error_None absolutePath_def validate_tls_def split: if_splits)


definition sample_database :: database_config where
  "sample_database = \<lparr>d_Address = ''db:3306'', d_Name = ''panel'', d_Username = ''node'',
     d_PasswordFile = ''/run/p'', d_TLSMode = ''required'', d_CAFile = [], d_ServerName = [],
     d_MaxOpen = 0, d_MaxIdle = 0\<rparr>"

definition sample_config :: config where
  "sample_config = \<lparr>c_NodeID = 7, c_Listen = ''[::]:443'', c_StateDir = ''/var/lib/v'',
     c_RealityPrivateKeyFile = ''/run/k'', c_Database = sample_database,
     c_Intervals = \<lparr>i_AuthRefreshSeconds = 0, i_ReportSeconds = 0, i_AuthStaleSeconds = 0,
       i_ShutdownSeconds = 0\<rparr>,
     c_Limits = \<lparr>l_TCPPerUser = 0, l_TCPGlobal = 0, l_ConcurrentHandshakes = 0, l_XUDPPerUser = 0,
       l_XUDPGlobal = 0, l_DNSResolveTimeoutSeconds = 0\<rparr>,
     c_OutboxMaxBytes = 0, c_LogLevel = []\<rparr>"

lemmas eval_config = Validate_def Let_def check_def validateListen_def SplitHostPort_def
  last_index_byte_def index_byte_def absolutePath_def is_abs_def has_prefix_def validate_tls_def
  limits_bad_def defaults_def default_int_def ParseIP_def sample_config_def sample_database_def

lemma sample_valid: "Validate (defaults sample_config) = None"
  by (simp add: eval_config eval_netip)


text \<open>C39: An interval of more than 292 years is accepted and wraps around. \<^verbatim>\<open>Validate\<close> bounds the
  intervals from below only: every accepted configuration stays accepted with a refresh and
  staleness interval of 9223372037 to 18446744073 seconds, for which the duration \<^verbatim>\<open>AuthRefresh\<close>
  hands to \<^verbatim>\<open>time.NewTicker\<close> is negative, and \<^verbatim>\<open>NewTicker\<close> panics.\<close>

theorem long_interval_wraps:
  assumes "Validate c = None" and "9223372037 \<le> n" and "n \<le> 18446744073"
    and "c' = c\<lparr>c_Intervals := (c_Intervals c)\<lparr>i_AuthRefreshSeconds := n, i_AuthStaleSeconds := n\<rparr>\<rparr>"
  shows "Validate c' = None \<and> AuthRefresh c' < 0"
proof
  show "Validate c' = None"
    using assms by (auto simp: Validate_def Let_def first_error_None)
  have "wrap64 (n * 1000000000) = n * 1000000000 - 2 ^ 64"
  proof -
    have "(n * 1000000000 + 2 ^ 63 - 2 ^ 64) mod 2 ^ 64 = n * 1000000000 + 2 ^ 63 - 2 ^ 64"
      using assms(2,3) by (intro mod_pos_pos_trivial) simp_all
    then show ?thesis unfolding wrap64_def minus_mod_self2 by linarith
  qed
  then show "AuthRefresh c' < 0"
    using assms by (simp add: AuthRefresh_def seconds_def)
qed

theorem long_interval_wraps_witness:
  "\<exists>c'. Validate c' = None \<and> AuthRefresh c' < 0"
  using long_interval_wraps [OF sample_valid, of 10000000000, OF _ _ refl] by fastforce

end
