(* ===== verification/Go_Float.thy ===== *)
theory Go_Float
  imports Go_Prelude "HOL-Library.Log_Nat"
begin

text \<open>
  Go's \<^verbatim>\<open>float64\<close>: IEEE 754 binary64 values with the operations the program uses
  (comparison, conversion from and to \<^verbatim>\<open>int64\<close>, multiplication and division rounded to
  nearest even, \<^verbatim>\<open>math.Round\<close>). A finite value is the rational number it denotes; the two
  zeros are identified, since no operation of the program tells them apart. The
  conversion of a value outside the range of \<^verbatim>\<open>int64\<close> is what the amd64 target of the
  build does: the smallest \<^verbatim>\<open>int64\<close>. The lemmas give the accuracy of rounding.
\<close>

datatype f64 = NaN | PInf | NInf | Fin rat

definition pow2 :: "int \<Rightarrow> rat" where
  "pow2 e = 2 powi e"

text \<open>The exponent of a positive rational: the largest power of two that does not exceed it.\<close>

definition flog2 :: "rat \<Rightarrow> int" where
  "flog2 x = (case quotient_of x of (p, q) \<Rightarrow>
     let e = bitlen p - bitlen q in if pow2 e \<le> x then e else e - 1)"

definition round_even :: "rat \<Rightarrow> int" where
  "round_even x =
     (let f = \<lfloor>x\<rfloor>; d = x - of_int f in
      if d < 1 / 2 then f else if d > 1 / 2 then f + 1 else if even f then f else f + 1)"

text \<open>Rounding to 53 significant bits, with gradual underflow and overflow to infinity.\<close>

definition rnd64 :: "rat \<Rightarrow> f64" where
  "rnd64 x =
     (if x = 0 then Fin 0
      else let e = max (flog2 \<bar>x\<bar>) (-1022) - 52;
               y = of_int (round_even (x / pow2 e)) * pow2 e
           in if y \<ge> 2 ^ 1024 then PInf else if y \<le> - (2 ^ 1024) then NInf else Fin y)"

definition f64_of_int :: "int \<Rightarrow> f64" where
  "f64_of_int n = rnd64 (of_int n)"

fun f64_neg_sign :: "f64 \<Rightarrow> bool" where
  "f64_neg_sign NaN = False"
| "f64_neg_sign PInf = False"
| "f64_neg_sign NInf = True"
| "f64_neg_sign (Fin q) = (q < 0)"

fun f64_mul :: "f64 \<Rightarrow> f64 \<Rightarrow> f64" where
  "f64_mul (Fin a) (Fin b) = rnd64 (a * b)"
| "f64_mul NaN b = NaN"
| "f64_mul a NaN = NaN"
| "f64_mul a b = (if a = Fin 0 \<or> b = Fin 0 then NaN
     else if f64_neg_sign a = f64_neg_sign b then PInf else NInf)"

text \<open>Division by a positive finite number, the only one the program makes.\<close>

fun f64_div_pos :: "f64 \<Rightarrow> rat \<Rightarrow> f64" where
  "f64_div_pos (Fin a) b = rnd64 (a / b)"
| "f64_div_pos a b = a"

text \<open>Comparisons: a NaN is not related to anything, not even itself.\<close>

definition f64_eq :: "f64 \<Rightarrow> f64 \<Rightarrow> bool" where
  "f64_eq a b \<longleftrightarrow> a \<noteq> NaN \<and> a = b"

fun f64_lt :: "f64 \<Rightarrow> f64 \<Rightarrow> bool" where
  "f64_lt NaN b = False"
| "f64_lt a NaN = False"
| "f64_lt (Fin a) (Fin b) = (a < b)"
| "f64_lt PInf b = False"
| "f64_lt a NInf = False"
| "f64_lt a b = True"

definition f64_le :: "f64 \<Rightarrow> f64 \<Rightarrow> bool" where
  "f64_le a b \<longleftrightarrow> f64_lt a b \<or> f64_eq a b"

text \<open>\<^verbatim>\<open>int64(x)\<close> truncates towards zero.\<close>

definition trunc_rat :: "rat \<Rightarrow> int" where
  "trunc_rat q = (if q < 0 then - \<lfloor>- q\<rfloor> else \<lfloor>q\<rfloor>)"

fun f64_to_int64 :: "f64 \<Rightarrow> int" where
  "f64_to_int64 (Fin q) = (if int64_ok (trunc_rat q) then trunc_rat q else MinInt64)"
| "f64_to_int64 _ = MinInt64"

text \<open>\<^verbatim>\<open>math.Round\<close>: to the nearest integer, halves away from zero.\<close>

fun f64_round :: "f64 \<Rightarrow> f64" where
  "f64_round (Fin q) = Fin (of_int (if q < 0 then - \<lfloor>- q + 1 / 2\<rfloor> else \<lfloor>q + 1 / 2\<rfloor>))"
| "f64_round x = x"

subsection \<open>Accuracy of rounding\<close>

lemma pow2_pos [simp]: "0 < pow2 e"
  by (simp add: pow2_def)

lemma pow2_nonzero [simp]: "pow2 e \<noteq> 0"
  by (simp add: pow2_def)

lemma pow2_add: "pow2 (a + b) = pow2 a * pow2 b"
  unfolding pow2_def by (rule power_int_add) simp

lemma pow2_nat: "0 \<le> e \<Longrightarrow> pow2 e = of_int (2 ^ nat e)"
  by (simp add: pow2_def power_int_def)

lemma bitlen_bracket:
  assumes "0 < p"
  shows "pow2 (bitlen p - 1) \<le> of_int p" and "of_int p < pow2 (bitlen p)"
proof -
  have b: "2 ^ nat (bitlen p - 1) \<le> p" "p < 2 ^ nat (bitlen p)" using bitlen_bounds [OF assms] by auto
  have pos: "0 < bitlen p" using assms bitlen_eq_zero_iff [of p] bitlen_nonneg [of p] by linarith
  from b(1) have "(of_int (2 ^ nat (bitlen p - 1)) :: rat) \<le> of_int p" by (simp only: of_int_le_iff)
  with pos show "pow2 (bitlen p - 1) \<le> of_int p" by (simp add: pow2_nat)
  from b(2) have "(of_int p :: rat) < of_int (2 ^ nat (bitlen p))" by (simp only: of_int_less_iff)
  with pos show "of_int p < pow2 (bitlen p)" by (simp add: pow2_nat)
qed

lemma flog2_bounds:
  assumes "0 < x"
  shows "pow2 (flog2 x) \<le> x" and "x < pow2 (flog2 x + 1)"
proof -
  obtain p q where pq: "quotient_of x = (p, q)" by fastforce
  then have x: "x = of_int p / of_int q" and q: "0 < q"
    using quotient_of_div quotient_of_denom_pos by auto
  with assms have p: "0 < p" by (simp add: zero_less_divide_iff)
  let ?e = "bitlen p - bitlen q"
  have qr: "(0::rat) < of_int q" using q by simp
  have "x * of_int q = of_int p" using x qr by simp
  have "x * pow2 (bitlen q) > x * of_int q"
    using bitlen_bracket(2) [OF q] assms by simp
  then have lo: "x * pow2 (bitlen q) > pow2 (bitlen p - 1)"
    using bitlen_bracket(1) [OF p] \<open>x * of_int q = of_int p\<close> by linarith
  have "x * pow2 (bitlen q - 1) \<le> x * of_int q"
    using bitlen_bracket(1) [OF q] assms by simp
  then have hi: "x * pow2 (bitlen q - 1) < pow2 (bitlen p)"
    using bitlen_bracket(2) [OF p] \<open>x * of_int q = of_int p\<close> by linarith
  have "pow2 (bitlen p - 1) = pow2 (?e - 1) * pow2 (bitlen q)" by (simp flip: pow2_add)
  with lo have lo': "pow2 (?e - 1) < x" by simp
  have "pow2 (bitlen p) = pow2 (?e + 1) * pow2 (bitlen q - 1)" by (simp flip: pow2_add)
  with hi have hi': "x < pow2 (?e + 1)" by simp
  show "pow2 (flog2 x) \<le> x" and "x < pow2 (flog2 x + 1)"
    using lo' hi' by (auto simp: flog2_def pq Let_def)
qed

lemma round_even_error: "\<bar>of_int (round_even x) - x\<bar> \<le> 1 / 2"
proof -
  have "of_int \<lfloor>x\<rfloor> \<le> x" and "x < of_int \<lfloor>x\<rfloor> + 1" using floor_correct [of x] by auto
  then show ?thesis unfolding round_even_def Let_def by (auto simp: abs_le_iff)
qed

lemma round_even_int [simp]: "round_even (of_int n) = n"
  by (simp add: round_even_def)

text \<open>The error of rounding a number that is not negative: half a unit in the last place.\<close>

lemma rnd64_near:
  assumes "0 \<le> x" and "x < 2 ^ 1000"
  shows "\<exists>y. rnd64 x = Fin y \<and> 0 \<le> y \<and> \<bar>y - x\<bar> \<le> (x + pow2 (-1022)) * pow2 (-53)"
proof (cases "x = 0")
  case True
  then show ?thesis by (simp add: rnd64_def less_imp_le)
next
  case False
  then have x: "0 < x" using assms(1) by simp
  define m where "m = max (flog2 x) (-1022)"
  define y where "y = of_int (round_even (x / pow2 (m - 52))) * pow2 (m - 52)"
  have f: "pow2 (flog2 x) \<le> x" "0 < pow2 (-1022)" using flog2_bounds(1) [OF x] by simp_all
  have "m = flog2 x \<or> m = -1022" by (simp add: m_def max_def)
  then have m: "pow2 m \<le> x + pow2 (-1022)"
  proof
    assume "m = flog2 x"
    then show ?thesis using f by (simp add: add_increasing2 less_imp_le)
  next
    assume "m = -1022"
    with x show ?thesis by simp
  qed
  have p: "pow2 (m - 52) = pow2 m * pow2 (-52)" "pow2 (-52) = 2 * pow2 (-53)"
    using pow2_add [of m "-52"] pow2_add [of 1 "-53"] by (simp_all add: pow2_def)
  have "\<bar>of_int (round_even (x / pow2 (m - 52))) - x / pow2 (m - 52)\<bar> * pow2 (m - 52) \<le> 1 / 2 * pow2 (m - 52)"
    using round_even_error by (intro mult_right_mono) (simp_all add: less_imp_le)
  moreover have "\<bar>of_int (round_even (x / pow2 (m - 52))) - x / pow2 (m - 52)\<bar> * pow2 (m - 52) = \<bar>y - x\<bar>"
  proof -
    have pos: "0 < pow2 (m - 52)" by simp
    have "y - x = (of_int (round_even (x / pow2 (m - 52))) - x / pow2 (m - 52)) * pow2 (m - 52)"
      using pos by (simp add: y_def algebra_simps)
    then show ?thesis using pos by (simp only: abs_mult abs_of_pos)
  qed
  ultimately have "\<bar>y - x\<bar> \<le> 1 / 2 * pow2 (m - 52)" by (simp only:)
  also have "\<dots> = pow2 m * pow2 (-53)" by (simp add: p)
  also have "\<dots> \<le> (x + pow2 (-1022)) * pow2 (-53)" using m by (intro mult_right_mono) (simp_all add: less_imp_le)
  finally have err: "\<bar>y - x\<bar> \<le> (x + pow2 (-1022)) * pow2 (-53)" .
  have "(x + pow2 (-1022)) * pow2 (-53) \<le> x + 1"
  proof -
    have "pow2 (-53) \<le> 1" "pow2 (-1022) \<le> 1" by (simp_all add: pow2_def power_int_def field_simps)
    then have "(x + pow2 (-1022)) * pow2 (-53) \<le> (x + 1) * 1" using x by (intro mult_mono) (simp_all add: less_imp_le)
    then show ?thesis by simp
  qed
  moreover have "2 * (2 ^ 1000) + 1 < (2 ^ 1024 :: rat)" by simp
  ultimately have hi: "y < 2 ^ 1024" using err assms(2) by linarith
  have "0 \<le> round_even (x / pow2 (m - 52))"
  proof -
    have "0 \<le> \<lfloor>x / pow2 (m - 52)\<rfloor>" using x by (simp add: less_imp_le)
    then show ?thesis by (auto simp: round_even_def Let_def)
  qed
  then have lo: "0 \<le> y" by (simp add: y_def less_imp_le)
  have "- (2 ^ 1024) < y" using lo by (rule less_le_trans [rotated]) simp
  then have "rnd64 x = Fin y"
    using x hi by (simp add: rnd64_def Let_def y_def m_def)
  with lo err show ?thesis by blast
qed

end
