(* ===== verification/Panel_Model.thy ===== *)
theory Panel_Model
  imports Go_Text Go_Float "HOL-Library.Multiset"
begin

unbundle bit_operations_syntax

text \<open>
  The data of \<^verbatim>\<open>internal/model/model.go\<close>: a node, a user with its compiled policy, and the
  authorization snapshot, with the user identity (\<^verbatim>\<open>UserEmail\<close>, \<^verbatim>\<open>UUIDv3\<close>), the canonical form
  and hash of a snapshot (\<^verbatim>\<open>Finalize\<close>) and the binary search \<^verbatim>\<open>UserByID\<close>.
  MD5, SHA-256 and the JSON encoder are parameters of the definitions that call them.
\<close>

subsection \<open>Data\<close>

record node =
  n_ID :: int64
  n_Name :: string
  n_TrafficRate :: f64
  n_Class :: int64
  n_Group :: int64
  n_SpeedLimitMbps :: f64
  n_ConnectorLimit :: int64
  n_Bandwidth :: int64
  n_BandwidthLimit :: int64
  n_PublicHost :: string
  n_PublicPort :: int64
  n_ServerName :: string
  n_Target :: string
  n_RealityPublicKey :: string
  n_ShortID :: string
  n_Fingerprint :: string
  n_Flow :: string
  n_Transport :: string
  n_MinClientVersion :: string
  n_ConfigurationVersion :: uint64

record user =
  u_ID :: int64
  u_UUID :: string
  u_SpeedLimitMbps :: f64
  u_ConnectorLimit :: int64
  u_ForbiddenIPs :: "string list"
  u_ForbiddenPorts :: "string list"
  u_DisconnectIPs :: "string list"

record snapshot =
  s_Node :: node
  s_Users :: "user list"
  s_LoadedAt :: int
  s_Hash :: string

subsection \<open>Identity\<close>

definition UserEmail :: "int64 \<Rightarrow> int64 \<Rightarrow> string" where
  "UserEmail nodeID userID = ''sspanel-node-'' @ itoa nodeID @ ''-user-'' @ itoa userID"

definition dns_namespace :: "nat list" where
  "dns_namespace = [0x6b, 0xa7, 0xb8, 0x10, 0x9d, 0xad, 0x11, 0xd1, 0x80, 0xb4, 0x00, 0xc0, 0x4f,
     0xd4, 0x30, 0xc8]"

definition set_version_variant :: "nat \<Rightarrow> nat list \<Rightarrow> nat list" where
  "set_version_variant v b =
     (let s6 = b[6 := (b ! 6 AND 0x0f) OR v] in s6[8 := (s6 ! 8 AND 0x3f) OR 0x80])"

definition format_uuid :: "nat list \<Rightarrow> string" where
  "format_uuid b = hex_encode (take 4 b) @ ''-'' @ hex_encode (take 2 (drop 4 b)) @ ''-'' @
     hex_encode (take 2 (drop 6 b)) @ ''-'' @ hex_encode (take 2 (drop 8 b)) @ ''-'' @
     hex_encode (take 6 (drop 10 b))"

definition UUIDv3 :: "(nat list \<Rightarrow> nat list) \<Rightarrow> int64 \<Rightarrow> string \<Rightarrow> string" where
  "UUIDv3 md5 userID password =
     format_uuid (set_version_variant 0x30
       (md5 (dns_namespace @ map of_char (itoa userID @ ''|'' @ password))))"

subsection \<open>Snapshots\<close>

definition sort_user_lists :: "user \<Rightarrow> user" where
  "sort_user_lists u = u\<lparr>u_ForbiddenIPs := sort (u_ForbiddenIPs u),
     u_ForbiddenPorts := sort (u_ForbiddenPorts u), u_DisconnectIPs := sort (u_DisconnectIPs u)\<rparr>"

text \<open>The fields with the tag \<^verbatim>\<open>json:"-"\<close> do not reach the encoder.\<close>

definition node_json :: "node \<Rightarrow> node" where
  "node_json n = n\<lparr>n_Bandwidth := 0, n_BandwidthLimit := 0\<rparr>"

definition Finalize :: "(node \<times> user list \<Rightarrow> nat list option) \<Rightarrow> (nat list \<Rightarrow> nat list) \<Rightarrow>
    snapshot \<Rightarrow> snapshot option" where
  "Finalize marshal sha256 s =
     (let s1 = s\<lparr>s_Users := map sort_user_lists (sort_key u_ID (s_Users s))\<rparr> in
      case marshal (node_json (s_Node s1), s_Users s1) of
        None \<Rightarrow> None
      | Some data \<Rightarrow> Some (s1\<lparr>s_Hash := hex_encode (sha256 data)\<rparr>))"

text \<open>\<^verbatim>\<open>sort.Search\<close>: binary search for the first index where the predicate holds.\<close>

function search_loop :: "(nat \<Rightarrow> bool) \<Rightarrow> nat \<Rightarrow> nat \<Rightarrow> nat" where
  "search_loop f i j =
     (if i < j then
        let h = (i + j) div 2 in if \<not> f h then search_loop f (h + 1) j else search_loop f i h
      else i)"
  by pat_completeness auto
termination
  by (relation "measure (\<lambda>x. snd (snd x) - fst (snd x))") auto

declare search_loop.simps [simp del]

definition UserByID :: "snapshot \<Rightarrow> int64 \<Rightarrow> user option" where
  "UserByID s uid =
     (let us = s_Users s; i = search_loop (\<lambda>i. u_ID (us ! i) \<ge> uid) 0 (length us)
      in if i < length us \<and> u_ID (us ! i) = uid then Some (us ! i) else None)"

subsection \<open>Lemmas\<close>

lemma search_loop_first:
  assumes "i \<le> j" and "\<forall>k l. k \<le> l \<longrightarrow> l < j \<longrightarrow> f k \<longrightarrow> f l" and "\<forall>k < i. \<not> f k"
  shows "i \<le> search_loop f i j \<and> search_loop f i j \<le> j \<and> (\<forall>k < search_loop f i j. \<not> f k) \<and>
    (search_loop f i j < j \<longrightarrow> f (search_loop f i j))"
  using assms
proof (induction f i j rule: search_loop.induct)
  case (1 f i j)
  show ?case
  proof (cases "i < j")
    case False
    then have "search_loop f i j = i" by (subst search_loop.simps) simp
    with False "1.prems" show ?thesis by simp
  next
    case True
    define h where "h = (i + j) div 2"
    have h: "i \<le> h" "h < j" using True by (auto simp: h_def)
    have eq: "search_loop f i j = (if \<not> f h then search_loop f (h + 1) j else search_loop f i h)"
      using True by (subst search_loop.simps) (simp add: Let_def h_def)
    show ?thesis
    proof (cases "f h")
      case fh: True
      have "\<forall>k l. k \<le> l \<longrightarrow> l < h \<longrightarrow> f k \<longrightarrow> f l" using "1.prems"(2) h(2) less_trans by blast
      then have "i \<le> search_loop f i h \<and> search_loop f i h \<le> h \<and> (\<forall>k < search_loop f i h. \<not> f k) \<and>
          (search_loop f i h < h \<longrightarrow> f (search_loop f i h))"
        using "1.IH"(2) [OF True h_def] fh h(1) "1.prems"(3) by blast
      moreover have "search_loop f i j = search_loop f i h" using fh eq by simp
      ultimately show ?thesis using fh h(2) by (auto simp: le_less)
    next
      case fh: False
      have le: "h + 1 \<le> j" using h(2) by simp
      have "\<forall>k < h + 1. \<not> f k"
        using fh "1.prems"(2) h(2) by (auto simp: less_Suc_eq_le)
      then have "h + 1 \<le> search_loop f (h + 1) j \<and> search_loop f (h + 1) j \<le> j \<and>
          (\<forall>k < search_loop f (h + 1) j. \<not> f k) \<and>
          (search_loop f (h + 1) j < j \<longrightarrow> f (search_loop f (h + 1) j))"
        using "1.IH"(1) [OF True h_def fh le "1.prems"(2)] by blast
      moreover have "search_loop f i j = search_loop f (h + 1) j" using fh eq by simp
      ultimately show ?thesis using h(1) by simp
    qed
  qed
qed

lemma UserByID_sorted:
  assumes "sorted (map u_ID (s_Users s))" and "distinct (map u_ID (s_Users s))"
  shows "UserByID s uid = Some u \<longleftrightarrow> u \<in> set (s_Users s) \<and> u_ID u = uid"
proof -
  let ?us = "s_Users s"
  let ?f = "\<lambda>i. u_ID (?us ! i) \<ge> uid"
  let ?i = "search_loop ?f 0 (length ?us)"
  have mono: "\<forall>k l. k \<le> l \<longrightarrow> l < length ?us \<longrightarrow> ?f k \<longrightarrow> ?f l"
    using sorted_nth_mono [OF assms(1)] by fastforce
  have S: "?i \<le> length ?us" "\<forall>k < ?i. \<not> ?f k" "?i < length ?us \<longrightarrow> ?f ?i"
    using search_loop_first [of 0 "length ?us" ?f] mono by auto
  show ?thesis
  proof
    assume "UserByID s uid = Some u"
    then have "?i < length ?us" and "?us ! ?i = u" and "u_ID u = uid"
      by (auto simp: UserByID_def Let_def split: if_splits)
    then show "u \<in> set ?us \<and> u_ID u = uid" by (metis nth_mem)
  next
    assume u: "u \<in> set ?us \<and> u_ID u = uid"
    then obtain k where k: "k < length ?us" "?us ! k = u" by (auto simp: in_set_conv_nth)
    with u S(2) have "?i \<le> k" by (metis not_le order_refl)
    with k S(3) have "?i < length ?us" "u_ID (?us ! ?i) \<ge> uid" by auto
    moreover have "u_ID (?us ! ?i) \<le> u_ID (?us ! k)"
      using sorted_nth_mono [OF assms(1) \<open>?i \<le> k\<close>] k \<open>?i < length ?us\<close> by simp
    ultimately have "u_ID (?us ! ?i) = u_ID (?us ! k)" using u k by simp
    then have "?i = k"
      using assms(2) k \<open>?i < length ?us\<close> by (metis distinct_conv_nth length_map nth_map)
    with u k show "UserByID s uid = Some u" by (simp add: UserByID_def Let_def)
  qed
qed

text \<open>Two emails are equal only for the same node and user.\<close>

lemma UserEmail_prefix: "UserEmail n u = (''sspanel-node-'' @ itoa n @ ''-user-'') @ itoa u"
  by (simp add: UserEmail_def)

lemma UserEmail_inj:
  "int64_ok u \<Longrightarrow> int64_ok v \<Longrightarrow> UserEmail n u = UserEmail n v \<Longrightarrow> u = v"
  by (simp add: UserEmail_def dec.show_eq_iff)

lemma Finalize_Some:
  assumes "Finalize marshal sha256 s = Some t"
  shows "s_Users t = map sort_user_lists (sort_key u_ID (s_Users s))"
    and "s_Node t = s_Node s"
  using assms by (auto simp: Finalize_def Let_def split: option.splits)

lemma u_ID_sort_user_lists [simp]: "u_ID (sort_user_lists u) = u_ID u"
  by (simp add: sort_user_lists_def)

lemma Finalize_ids:
  assumes "Finalize marshal sha256 s = Some t"
  shows "map u_ID (s_Users t) = map u_ID (sort_key u_ID (s_Users s))"
  using Finalize_Some(1) [OF assms] by simp

lemma sort_key_perm:
  assumes "mset xs = mset ys" and "distinct (map f xs)"
  shows "sort_key f xs = sort_key f ys"
  using assms by (intro sort_key_inj_key_eq) (simp_all add: distinct_map)

lemma map_insort_key: "(\<And>x. f (g x) = f x) \<Longrightarrow> map g (insort_key f x xs) = insort_key f (g x) (map g xs)"
  by (induction xs) auto

lemma map_sort_key: "(\<And>x. f (g x) = f x) \<Longrightarrow> map g (sort_key f xs) = sort_key f (map g xs)"
  by (induction xs) (simp_all add: map_insort_key)

lemma Finalize_sorted:
  assumes "Finalize marshal sha256 s = Some t" and "distinct (map u_ID (s_Users s))"
  shows "sorted (map u_ID (s_Users t))" and "distinct (map u_ID (s_Users t))"
proof -
  have "mset (map u_ID (sort_key u_ID (s_Users s))) = mset (map u_ID (s_Users s))" by simp
  then have "distinct (map u_ID (sort_key u_ID (s_Users s)))"
    using assms(2) mset_eq_imp_distinct_iff by blast
  then show "sorted (map u_ID (s_Users t))" and "distinct (map u_ID (s_Users t))"
    using Finalize_ids [OF assms(1)] by simp_all
qed

text \<open>The shape of a UUID with version nibble \<open>v\<close>.\<close>

definition uuid_shape :: "char \<Rightarrow> string \<Rightarrow> bool" where
  "uuid_shape v u \<longleftrightarrow> length u = 36 \<and>
     list_all (\<lambda>(i, c). if i \<in> {8, 13, 18, 23} then c = CHR ''-'' else is_hex c) (enumerate 0 u) \<and>
     u ! 14 = v \<and> u ! 19 \<in> {CHR ''8'', CHR ''9'', CHR ''a'', CHR ''b''}"

lemma and_or_add: "((b AND m) OR v) = (b AND m) + v" if "m AND v = 0" for b m v :: nat
  by (rule disjunctive_add_eq_or [symmetric]) (simp add: and.assoc that)

lemma and_15_63:
  fixes b :: nat
  shows "b AND 0x0f = b mod 16" and "b AND 0x3f = b mod 64"
  using take_bit_eq_mask [of 4 b] take_bit_eq_mask [of 6 b]
  by (simp_all add: take_bit_eq_mod mask_eq_exp_minus_1)

lemma version_nibble:
  fixes b :: nat
  shows "((b AND 0x0f) OR 0x30) div 16 = 3" and "((b AND 0x0f) OR 0x40) div 16 = 4"
    and "((b AND 0x0f) OR 0x30) < 256" and "((b AND 0x0f) OR 0x40) < 256"
    and "((b AND 0x3f) OR 0x80) div 16 \<in> {8, 9, 10, 11}" and "((b AND 0x3f) OR 0x80) < 256"
proof -
  have e: "(b AND 0x0f) OR 0x30 = b mod 16 + 48" "(b AND 0x0f) OR 0x40 = b mod 16 + 64"
      "(b AND 0x3f) OR 0x80 = b mod 64 + 128"
    using and_or_add [of 15 48 b] and_or_add [of 15 64 b] and_or_add [of 63 128 b]
    by (simp_all add: and_15_63)
  have lt: "b mod 16 < 16" "b mod 64 < 64" by simp_all
  show "((b AND 0x0f) OR 0x30) div 16 = 3" and "((b AND 0x0f) OR 0x40) div 16 = 4"
    and "((b AND 0x0f) OR 0x30) < 256" and "((b AND 0x0f) OR 0x40) < 256"
    and "((b AND 0x3f) OR 0x80) < 256"
    unfolding e using lt by simp_all
  show "((b AND 0x3f) OR 0x80) div 16 \<in> {8, 9, 10, 11}"
    unfolding e using lt(2) by simp arith
qed

lemma list_16:
  assumes "length bs = 16"
  obtains a0 a1 a2 a3 a4 a5 a6 a7 a8 a9 a10 a11 a12 a13 a14 a15
  where "bs = [a0, a1, a2, a3, a4, a5, a6, a7, a8, a9, a10, a11, a12, a13, a14, a15]"
proof (rule that)
  have "[0..<16] = [0, 1, 2, 3, 4, 5, 6, 7, 8, 9, 10, 11, 12, 13, 14, 15]" by (simp add: upt_rec)
  then show "bs = [bs ! 0, bs ! 1, bs ! 2, bs ! 3, bs ! 4, bs ! 5, bs ! 6, bs ! 7, bs ! 8, bs ! 9,
      bs ! 10, bs ! 11, bs ! 12, bs ! 13, bs ! 14, bs ! 15]"
    using map_nth [of bs] assms by simp
qed

lemma uuid_shape_format:
  assumes "length bs = 16" and "\<forall>b \<in> set bs. b < 256" and "v = 0x30 \<or> v = 0x40"
  shows "uuid_shape (digit_char (v div 16)) (format_uuid (set_version_variant v bs))"
proof -
  obtain a0 a1 a2 a3 a4 a5 a6 a7 a8 a9 a10 a11 a12 a13 a14 a15
    where bs: "bs = [a0, a1, a2, a3, a4, a5, a6, a7, a8, a9, a10, a11, a12, a13, a14, a15]"
    using assms(1) by (rule list_16)
  define w6 where "w6 = (a6 AND 0x0f) OR v"
  define w8 where "w8 = (a8 AND 0x3f) OR 0x80"
  have w: "w6 div 16 = v div 16" "w6 < 256" "w8 div 16 \<in> {8, 9, 10, 11}" "w8 < 256"
    using assms(3) version_nibble [of a6] version_nibble [of a8] unfolding w6_def w8_def by auto
  have "format_uuid (set_version_variant v bs) = hex_byte a0 @ hex_byte a1 @ hex_byte a2 @ hex_byte a3 @
      ''-'' @ hex_byte a4 @ hex_byte a5 @ ''-'' @ hex_byte w6 @ hex_byte a7 @ ''-'' @ hex_byte w8 @
      hex_byte a9 @ ''-'' @ hex_byte a10 @ hex_byte a11 @ hex_byte a12 @ hex_byte a13 @ hex_byte a14 @
      hex_byte a15"
    by (simp add: format_uuid_def set_version_variant_def Let_def bs hex_encode_def w6_def w8_def)
  moreover have "digit_char (w8 div 16) \<in> {CHR ''8'', CHR ''9'', CHR ''a'', CHR ''b''}"
    using w(3) by (auto simp: digit_char_def)
  ultimately show ?thesis
    using assms(2) w by (simp add: uuid_shape_def hex_byte_def bs less_mult_imp_div_less)
qed

definition sample_user :: "int \<Rightarrow> user" where
  "sample_user i = \<lparr>u_ID = i, u_UUID = [], u_SpeedLimitMbps = Fin 0, u_ConnectorLimit = 0,
     u_ForbiddenIPs = [], u_ForbiddenPorts = [], u_DisconnectIPs = []\<rparr>"

definition sample_node :: node where
  "sample_node = \<lparr>n_ID = 7, n_Name = [], n_TrafficRate = Fin 1, n_Class = 0, n_Group = 0,
     n_SpeedLimitMbps = Fin 0, n_ConnectorLimit = 0, n_Bandwidth = 0, n_BandwidthLimit = 0,
     n_PublicHost = [], n_PublicPort = 443, n_ServerName = [], n_Target = [],
     n_RealityPublicKey = [], n_ShortID = [], n_Fingerprint = [], n_Flow = [], n_Transport = [],
     n_MinClientVersion = [], n_ConfigurationVersion = 1\<rparr>"

definition sample_snapshot :: "user list \<Rightarrow> snapshot" where
  "sample_snapshot us = \<lparr>s_Node = sample_node, s_Users = us, s_LoadedAt = 0, s_Hash = []\<rparr>"

subsection \<open>Properties\<close>

text \<open>Looking a user up in a finalized snapshot finds exactly the user with that id. When the
  panel rows have distinct ids, the binary search of \<^verbatim>\<open>UserByID\<close> on the result of \<^verbatim>\<open>Finalize\<close>
  returns the user (with its policy lists sorted) if there is one, and reports absence otherwise.\<close>

lemma user_lookup_correct:
  assumes "Finalize marshal sha256 s = Some t" and "distinct (map u_ID (s_Users s))"
  shows "UserByID t uid = Some v \<longleftrightarrow> (\<exists>u \<in> set (s_Users s). u_ID u = uid \<and> v = sort_user_lists u)"
  using UserByID_sorted [OF Finalize_sorted [OF assms], of uid v] Finalize_Some(1) [OF assms(1)] by auto

lemma user_lookup_correct_sample:
  "\<exists>t. UserByID t 2 = Some (sort_user_lists (sample_user 2)) \<and> UserByID t 3 = None"
proof -
  let ?s = "sample_snapshot [sample_user 5, sample_user 2]"
  obtain t where t: "Finalize (\<lambda>_. Some []) (\<lambda>_. [1]) ?s = Some t"
    by (simp add: Finalize_def Let_def)
  have d: "distinct (map u_ID (s_Users ?s))" by (simp add: sample_snapshot_def sample_user_def)
  have "UserByID t 2 = Some (sort_user_lists (sample_user 2))"
    using user_lookup_correct [OF t d, of 2] by (simp add: sample_snapshot_def sample_user_def)
  moreover have "UserByID t 3 \<noteq> Some v" for v
    using user_lookup_correct [OF t d, of 3] by (simp add: sample_snapshot_def sample_user_def)
  ultimately show ?thesis by (metis not_Some_eq)
qed

text \<open>The snapshot hash is canonical. Two snapshots that hold the same users in any order, with
  the policy lists of each in any order, and whose nodes differ at most in the traffic counters,
  get the same user list and the same hash, whatever the encoder and the digest compute.\<close>

theorem finalize_canonical:
  assumes "Finalize marshal sha256 s = Some t" and "Finalize marshal sha256 s' = Some t'"
    and "distinct (map u_ID (s_Users s))"
    and "mset (map sort_user_lists (s_Users s)) = mset (map sort_user_lists (s_Users s'))"
    and "node_json (s_Node s) = node_json (s_Node s')"
  shows "s_Users t = s_Users t' \<and> s_Hash t = s_Hash t'"
proof -
  have F: "map sort_user_lists (sort_key u_ID xs) = sort_key u_ID (map sort_user_lists xs)" for xs
    by (rule map_sort_key) simp
  have "sort_key u_ID (map sort_user_lists (s_Users s)) = sort_key u_ID (map sort_user_lists (s_Users s'))"
    using assms(3,4) by (intro sort_key_perm) (simp_all add: comp_def)
  then show ?thesis
    using assms by (auto simp: Finalize_def Let_def F split: option.splits)
qed

theorem finalize_canonical_witness:
  "\<exists>t t'. s_Users t = s_Users t' \<and> s_Hash t = s_Hash t' \<and>
     Finalize (\<lambda>p. Some (map (\<lambda>u. nat (u_ID u)) (snd p))) id (sample_snapshot [sample_user 5, sample_user 2])
       = Some t \<and>
     Finalize (\<lambda>p. Some (map (\<lambda>u. nat (u_ID u)) (snd p))) id (sample_snapshot [sample_user 2, sample_user 5])
       = Some t'"
proof -
  let ?m = "\<lambda>p :: node \<times> user list. Some (map (\<lambda>u. nat (u_ID u)) (snd p))"
  let ?s = "sample_snapshot [sample_user 5, sample_user 2]"
  let ?s' = "sample_snapshot [sample_user 2, sample_user 5]"
  obtain t where t: "Finalize ?m id ?s = Some t" by (simp add: Finalize_def Let_def)
  obtain t' where t': "Finalize ?m id ?s' = Some t'" by (simp add: Finalize_def Let_def)
  show ?thesis
    using finalize_canonical [OF t t'] t t'
    by (simp add: sample_snapshot_def sample_user_def add_mset_commute)
qed

text \<open>Derived user ids are version 3 UUIDs. For any digest of 16 bytes, \<^verbatim>\<open>UUIDv3\<close> gives 36
  characters with dashes at the standard places, hexadecimal digits elsewhere, version digit 3 and
  an RFC 4122 variant digit.\<close>

theorem uuid_v3_wellformed:
  assumes "\<forall>x. length (md5 x) = 16 \<and> (\<forall>b \<in> set (md5 x). b < 256)"
  shows "uuid_shape CHR ''3'' (UUIDv3 md5 uid password)"
proof -
  have "digit_char (0x30 div 16) = CHR ''3''" by (simp add: digit_char_def)
  with uuid_shape_format [of "md5 (dns_namespace @ map of_char (itoa uid @ ''|'' @ password))" "0x30"]
    assms show ?thesis by (simp add: UUIDv3_def)
qed

theorem uuid_v3_wellformed_witness: "uuid_shape CHR ''3'' (UUIDv3 (\<lambda>_. replicate 16 255) 5 ''pw'')"
  by (rule uuid_v3_wellformed) simp

end
