(* ===== verification/Session_Registry.thy ===== *)
theory Session_Registry
  imports Policy Config Panel_Model "HOL-Library.Product_Lexorder"
begin

text \<open>
  The session registry of \<^verbatim>\<open>internal/session/registry.go\<close>: admission of sessions under the user
  policy and the configured limits, revocation when the authorization snapshot changes, and the
  lease that a running session holds. The request and decision types are those of
  \<^verbatim>\<open>common/sessioncontrol/control.go\<close>.

  A \<^verbatim>\<open>*lease\<close> is an address: the index of the lease in the list \<open>r_leases\<close>, which only grows. A
  \<^verbatim>\<open>func()\<close> bound to a lease is an identifier; the operations return the callbacks they invoke after
  releasing the mutex. A \<^verbatim>\<open>*rate.Limiter\<close> carries its identity, the generation of the snapshot that
  created it and its owner. Go iterates over maps in an unspecified order: where only the order of
  callbacks depends on it, the model visits sessions in the order of their creation and users in the
  order of their ids. Each definition is one critical section of the mutex; \<^verbatim>\<open>Open\<close> has two,
  with other operations in between.
\<close>

subsection \<open>Data\<close>

datatype kind = TCP | XUDP

record request =
  q_InboundTag :: string
  q_Email :: string
  q_SourceIP :: string
  q_Network :: string
  q_DestinationHost :: string
  q_DestinationPort :: "16 word"
  q_DestinationDomain :: bool

record limiter =
  lm_generation :: nat
  lm_owner :: "int64 option"
  lm_limit :: f64
  lm_burst :: int64

record lease =
  le_id :: uint64
  le_userID :: int64
  le_sourceIP :: string
  le_kind :: kind
  le_cancelled :: bool
  le_once :: bool
  le_interrupt :: "nat option"
  le_revoked :: bool
  le_userRate :: "limiter option"
  le_nodeRate :: "limiter option"

record registry =
  r_limits :: limits
  r_nodeID :: int64
  r_nodeSpeed :: f64
  r_nodeConnectors :: int64
  r_users :: "(int64, user) fmap"
  r_sessions :: "(uint64, nat) fmap"
  r_sources :: "(int64, (string, int) fmap) fmap"
  r_userTCP :: "(int64, int) fmap"
  r_userXUDP :: "(int64, int) fmap"
  r_tcp :: int64
  r_xudp :: int64
  r_handshakes :: int64
  r_nextID :: uint64
  r_rejected :: "(string, uint64) fmap"
  r_nodeLimiter :: "limiter option"
  r_userLimiters :: "(int64, limiter option) fmap"
  r_closed :: bool
  r_generation :: nat
  r_leases :: "lease list"
  r_released :: "bool list"

record metrics =
  mt_TCPActive :: int64
  mt_XUDPActive :: int64
  mt_Handshakes :: int64
  mt_Rejected :: "(string, uint64) fmap"

datatype session_error = Rejected string | HandshakeLimit

definition inboundTag :: string where
  "inboundTag = ''vless-reality-in''"

subsection \<open>Helpers\<close>

fun contains :: "string list \<Rightarrow> string \<Rightarrow> bool" where
  "contains [] target = False"
| "contains (v # vs) target = (if v = target then True else contains vs target)"

definition requestKind :: "string \<Rightarrow> kind option" where
  "requestKind network =
     (if network = ''tcp'' then Some TCP else if network = ''udp'' then Some XUDP else None)"

definition effectiveLimit :: "int64 \<Rightarrow> int64 \<Rightarrow> int64" where
  "effectiveLimit user node =
     (if user \<le> 0 then node else if node \<le> 0 \<or> user < node then user else node)"

definition userMap :: "user list \<Rightarrow> (int64, user) fmap" where
  "userMap users = foldl (\<lambda>m u. fmupd (u_ID u) u m) fmempty users"

text \<open>\<^verbatim>\<open>reflect.DeepEqual\<close> on users compares the floats with \<^verbatim>\<open>==\<close>.\<close>

definition user_deep_equal :: "user \<Rightarrow> user \<Rightarrow> bool" where
  "user_deep_equal a b \<longleftrightarrow> f64_eq (u_SpeedLimitMbps a) (u_SpeedLimitMbps b) \<and>
     a\<lparr>u_SpeedLimitMbps := Fin 0\<rparr> = b\<lparr>u_SpeedLimitMbps := Fin 0\<rparr>"

definition userPolicyWithoutDisconnectChanged :: "user \<Rightarrow> user \<Rightarrow> bool" where
  "userPolicyWithoutDisconnectChanged left right \<longleftrightarrow>
     \<not> user_deep_equal (left\<lparr>u_DisconnectIPs := []\<rparr>) (right\<lparr>u_DisconnectIPs := []\<rparr>)"

definition newLimiter :: "nat \<Rightarrow> int64 option \<Rightarrow> f64 \<Rightarrow> limiter option" where
  "newLimiter gen owner mbps =
     (if f64_le mbps (Fin 0) then None
      else (let bytesPerSecond = f64_div_pos (f64_mul mbps (Fin 1000000)) 8;
                burst = f64_to_int64 bytesPerSecond
            in Some \<lparr>lm_generation = gen, lm_owner = owner, lm_limit = bytesPerSecond,
                     lm_burst = (if burst < 65536 then 65536 else burst)\<rparr>))"

definition rejectLocked :: "string \<Rightarrow> registry \<Rightarrow> registry" where
  "rejectLocked reason r =
     r\<lparr>r_rejected := fmupd reason
        ((case fmlookup (r_rejected r) reason of None \<Rightarrow> 0 | Some n \<Rightarrow> n) + 1) (r_rejected r)\<rparr>"

text \<open>\<^verbatim>\<open>rejectLockedError\<close> and \<^verbatim>\<open>reject\<close>: count the reason and return the error.\<close>

definition reject :: "string \<Rightarrow> registry \<Rightarrow> registry \<times> (session_error + 'a)" where
  "reject reason r = (rejectLocked reason r, Inl (Rejected reason))"

definition sources_of :: "registry \<Rightarrow> int64 \<Rightarrow> (string, int) fmap" where
  "sources_of r uid = (case fmlookup (r_sources r) uid of None \<Rightarrow> fmempty | Some m \<Rightarrow> m)"

definition limiter_of :: "registry \<Rightarrow> int64 \<Rightarrow> limiter option" where
  "limiter_of r uid = (case fmlookup (r_userLimiters r) uid of None \<Rightarrow> None | Some l \<Rightarrow> l)"

subsection \<open>Snapshots\<close>

definition installSnapshot :: "snapshot \<Rightarrow> (int64, user) fmap option \<Rightarrow> registry \<Rightarrow> registry" where
  "installSnapshot snapshot old r =
     (let oldNodeSpeed = r_nodeSpeed r;
          speed = n_SpeedLimitMbps (s_Node snapshot);
          users = userMap (s_Users snapshot);
          previous = (case old of None \<Rightarrow> fmempty | Some m \<Rightarrow> m);
          gen = Suc (r_generation r)
      in r\<lparr>r_nodeID := n_ID (s_Node snapshot),
           r_nodeSpeed := speed,
           r_nodeConnectors := n_ConnectorLimit (s_Node snapshot),
           r_users := users,
           r_nodeLimiter :=
             (if r_nodeLimiter r = None \<or> old = None \<or> \<not> f64_eq oldNodeSpeed speed
              then newLimiter gen None speed else r_nodeLimiter r),
           r_userLimiters := fmmap_keys (\<lambda>uid u.
             case fmlookup previous uid of
               Some p \<Rightarrow>
                 if f64_eq (u_SpeedLimitMbps p) (u_SpeedLimitMbps u) then limiter_of r uid
                 else newLimiter gen (Some uid) (u_SpeedLimitMbps u)
             | None \<Rightarrow> newLimiter gen (Some uid) (u_SpeedLimitMbps u)) users,
           r_generation := gen\<rparr>)"

definition New :: "snapshot \<Rightarrow> config \<Rightarrow> registry" where
  "New snapshot cfg = installSnapshot snapshot None
     \<lparr>r_limits = c_Limits cfg, r_nodeID = 0, r_nodeSpeed = Fin 0, r_nodeConnectors = 0,
      r_users = fmempty, r_sessions = fmempty, r_sources = fmempty, r_userTCP = fmempty,
      r_userXUDP = fmempty, r_tcp = 0, r_xudp = 0, r_handshakes = 0, r_nextID = 0,
      r_rejected = fmempty, r_nodeLimiter = None, r_userLimiters = fmempty, r_closed = False,
      r_generation = 0, r_leases = [], r_released = []\<rparr>"

subsection \<open>Handshakes\<close>

text \<open>The returned closure is its index in \<open>r_released\<close>, or nothing for the empty closure.\<close>

definition AcquireHandshake :: "registry \<Rightarrow> request \<Rightarrow> registry \<times> (session_error + nat option)" where
  "AcquireHandshake r q =
     (if q_InboundTag q \<noteq> inboundTag then (r, Inr None)
      else if r_closed r \<or> r_handshakes r \<ge> l_ConcurrentHandshakes (r_limits r) then
        (rejectLocked ''handshake_limit'' r, Inl HandshakeLimit)
      else (r\<lparr>r_handshakes := r_handshakes r + 1, r_released := r_released r @ [False]\<rparr>,
            Inr (Some (length (r_released r)))))"

definition release_handshake :: "nat \<Rightarrow> registry \<Rightarrow> registry" where
  "release_handshake h r =
     (if h < length (r_released r) \<and> \<not> r_released r ! h then
        r\<lparr>r_handshakes := (if r_handshakes r > 0 then r_handshakes r - 1 else r_handshakes r),
          r_released := (r_released r)[h := True]\<rparr>
      else r)"

subsection \<open>Admission\<close>

definition userID :: "registry \<Rightarrow> string \<Rightarrow> int64 option" where
  "userID r email =
     (let prefix = ''sspanel-node-'' @ itoa (r_nodeID r) @ ''-user-'' in
      if \<not> has_prefix email prefix then None
      else (case parse_int64 (trim_prefix email prefix) of
              None \<Rightarrow> None
            | Some uid \<Rightarrow> if uid \<le> 0 \<or> email \<noteq> prefix @ itoa uid then None else Some uid))"

text \<open>The loop over the resolver's answer: canonical texts, without repetition.\<close>

fun canonical_addresses :: "addr list \<Rightarrow> string list \<Rightarrow> string list" where
  "canonical_addresses [] acc = acc"
| "canonical_addresses (a # as) acc =
     (let canonical = addr_string (unmap a) in
      canonical_addresses as (if canonical \<in> set acc then acc else acc @ [canonical]))"

text \<open>
  \<^verbatim>\<open>authorizeTarget\<close>: the addresses to check and the pinned address, or the reason to reject.
  \<open>lookup\<close> is \<^verbatim>\<open>resolver.LookupNetIP\<close>, where \<open>None\<close> is an error.
\<close>

definition authorizeTarget :: "(string \<Rightarrow> addr list option) \<Rightarrow> user \<Rightarrow> request \<Rightarrow>
    string + (string list \<times> string)" where
  "authorizeTarget lookup u q =
     (if PortBlocked (u_ForbiddenPorts u) (uint (q_DestinationPort q)) then Inl ''forbidden_port''
      else (let host = trim_brackets (q_DestinationHost q) in
        case parse_addr host of
          Some address \<Rightarrow>
            (let canonical = addr_string (unmap address) in
             if IPBlocked (u_ForbiddenIPs u) canonical then Inl ''forbidden_ip''
             else Inr ([canonical], []))
        | None \<Rightarrow>
            if \<not> q_DestinationDomain q \<or> host = [] then Inl ''destination''
            else (case lookup host of
                    None \<Rightarrow> Inl ''dns''
                  | Some [] \<Rightarrow> Inl ''dns''
                  | Some resolved \<Rightarrow>
                      (let addresses = sort (canonical_addresses resolved []) in
                       if list_ex (IPBlocked (u_ForbiddenIPs u)) addresses then Inl ''forbidden_ip''
                       else if addresses = [] then Inl ''dns''
                       else Inr (addresses, hd addresses)))))"

definition checkCapacityLocked :: "registry \<Rightarrow> user \<Rightarrow> int64 \<Rightarrow> string \<Rightarrow> kind \<Rightarrow> string option" where
  "checkCapacityLocked r u uid source k =
     (let connectorLimit = effectiveLimit (u_ConnectorLimit u) (r_nodeConnectors r) in
      if connectorLimit > 0 \<and> fmget0 (sources_of r uid) source = 0 \<and>
         int (fm_size (sources_of r uid)) \<ge> connectorLimit then Some ''connector_limit''
      else if k = TCP then
        if r_tcp r \<ge> l_TCPGlobal (r_limits r) then Some ''tcp_global''
        else if fmget0 (r_userTCP r) uid \<ge> l_TCPPerUser (r_limits r) then Some ''tcp_user''
        else None
      else if r_xudp r \<ge> l_XUDPGlobal (r_limits r) then Some ''xudp_global''
      else if fmget0 (r_userXUDP r) uid \<ge> l_XUDPPerUser (r_limits r) then Some ''xudp_user''
      else None)"

text \<open>What \<^verbatim>\<open>Open\<close> carries from its first part to the second critical section.\<close>

record pending =
  p_userID :: int64
  p_sourceIP :: string
  p_kind :: kind
  p_port :: "16 word"
  p_addresses :: "string list"
  p_resolved :: string

datatype prepared = Untracked | Pending pending

definition Open_prepare :: "(string \<Rightarrow> addr list option) \<Rightarrow> registry \<Rightarrow> request \<Rightarrow>
    registry \<times> (session_error + prepared)" where
  "Open_prepare lookup r q =
     (if q_InboundTag q \<noteq> inboundTag then (r, Inr Untracked)
      else case userID r (q_Email q) of
        None \<Rightarrow> reject ''identity'' r
      | Some uid \<Rightarrow>
          (case CanonicalIP (q_SourceIP q) of
             None \<Rightarrow> reject ''source'' r
           | Some sourceIP \<Rightarrow>
               (case requestKind (q_Network q) of
                  None \<Rightarrow> reject ''network'' r
                | Some k \<Rightarrow>
                    if q_DestinationPort q = 0 then reject ''network'' r
                    else (case fmlookup (r_users r) uid of
                            None \<Rightarrow> reject ''authorization'' r
                          | Some u \<Rightarrow>
                              (case authorizeTarget lookup u q of
                                 Inl reason \<Rightarrow> reject reason r
                               | Inr (addresses, resolved) \<Rightarrow>
                                   (r, Inr (Pending \<lparr>p_userID = uid, p_sourceIP = sourceIP,
                                      p_kind = k, p_port = q_DestinationPort q,
                                      p_addresses = addresses, p_resolved = resolved\<rparr>)))))))"

definition new_lease :: "registry \<Rightarrow> pending \<Rightarrow> lease" where
  "new_lease r p = \<lparr>le_id = r_nextID r + 1, le_userID = p_userID p, le_sourceIP = p_sourceIP p,
     le_kind = p_kind p, le_cancelled = False, le_once = False, le_interrupt = None,
     le_revoked = False, le_userRate = limiter_of r (p_userID p), le_nodeRate = r_nodeLimiter r\<rparr>"

definition add_source :: "int64 \<Rightarrow> string \<Rightarrow> registry \<Rightarrow> registry" where
  "add_source uid source r =
     r\<lparr>r_sources := fmupd uid (fm_inc source (sources_of r uid)) (r_sources r)\<rparr>"

definition register :: "registry \<Rightarrow> pending \<Rightarrow> registry" where
  "register r p =
     (let l = new_lease r p;
          r1 = add_source (p_userID p) (p_sourceIP p)
            (r\<lparr>r_nextID := r_nextID r + 1, r_leases := r_leases r @ [l],
               r_sessions := fmupd (le_id l) (length (r_leases r)) (r_sessions r)\<rparr>)
      in if p_kind p = TCP
         then r1\<lparr>r_tcp := r_tcp r1 + 1, r_userTCP := fm_inc (p_userID p) (r_userTCP r1)\<rparr>
         else r1\<lparr>r_xudp := r_xudp r1 + 1, r_userXUDP := fm_inc (p_userID p) (r_userXUDP r1)\<rparr>)"

text \<open>The second critical section. The decision is the pinned address and the lease.\<close>

definition Open_commit :: "registry \<Rightarrow> pending \<Rightarrow> registry \<times> (session_error + string \<times> nat)" where
  "Open_commit r p =
     (case fmlookup (r_users r) (p_userID p) of
        None \<Rightarrow> reject ''authorization'' r
      | Some u \<Rightarrow>
          if r_closed r then reject ''authorization'' r
          else if contains (u_DisconnectIPs u) (p_sourceIP p) then reject ''disconnect_ip'' r
          else if PortBlocked (u_ForbiddenPorts u) (uint (p_port p)) then reject ''forbidden_port'' r
          else if list_ex (IPBlocked (u_ForbiddenIPs u)) (p_addresses p) then reject ''forbidden_ip'' r
          else (case checkCapacityLocked r u (p_userID p) (p_sourceIP p) (p_kind p) of
                  Some reason \<Rightarrow> reject reason r
                | None \<Rightarrow> (register r p, Inr (p_resolved p, length (r_leases r)))))"

text \<open>
  \<^verbatim>\<open>Open\<close> as a whole; \<open>interfere\<close> is what other goroutines do to the registry while the target is
  resolved. A decision without lease is the one of an inbound that is not tracked.
\<close>

definition Open :: "(string \<Rightarrow> addr list option) \<Rightarrow> (registry \<Rightarrow> registry) \<Rightarrow> registry \<Rightarrow> request \<Rightarrow>
    registry \<times> (session_error + string \<times> nat option)" where
  "Open lookup interfere r q =
     (case Open_prepare lookup r q of
        (r1, Inl e) \<Rightarrow> (r1, Inl e)
      | (r1, Inr Untracked) \<Rightarrow> (r1, Inr ([], None))
      | (r1, Inr (Pending p)) \<Rightarrow>
          (case Open_commit (interfere r1) p of
             (r2, Inl e) \<Rightarrow> (r2, Inl e)
           | (r2, Inr (resolved, l)) \<Rightarrow> (r2, Inr (resolved, Some l))))"

subsection \<open>Revocation\<close>

text \<open>A session of the map, seen from its lease.\<close>

definition is_session :: "registry \<Rightarrow> nat \<Rightarrow> bool" where
  "is_session r a \<longleftrightarrow> a < length (r_leases r) \<and> fmlookup (r_sessions r) (le_id (r_leases r ! a)) = Some a"

definition session_addrs :: "registry \<Rightarrow> nat list" where
  "session_addrs r = filter (is_session r) [0..<length (r_leases r)]"

fun revoke_loop :: "int64 fset \<Rightarrow> (int64 \<Rightarrow> string list) \<Rightarrow> nat list \<Rightarrow> lease list \<Rightarrow> nat list \<Rightarrow>
    lease list \<times> nat list" where
  "revoke_loop users sources [] ls callbacks = (ls, callbacks)"
| "revoke_loop users sources (a # as) ls callbacks =
     (let session = ls ! a;
          wholeUser = (le_userID session |\<in>| users);
          source = (le_sourceIP session \<in> set (sources (le_userID session)))
      in if (\<not> wholeUser \<and> \<not> source) \<or> le_revoked session
         then revoke_loop users sources as ls callbacks
         else revoke_loop users sources as
                (ls[a := session\<lparr>le_revoked := True, le_cancelled := True\<rparr>])
                (case le_interrupt session of None \<Rightarrow> callbacks | Some f \<Rightarrow> callbacks @ [f]))"

text \<open>\<open>sources uid\<close> is the inner set of \<^verbatim>\<open>sources[uid]\<close>, empty where the key is absent.\<close>

definition revokeLocked :: "int64 fset \<Rightarrow> (int64 \<Rightarrow> string list) \<Rightarrow> registry \<Rightarrow> registry \<times> nat list" where
  "revokeLocked users sources r =
     (case revoke_loop users sources (session_addrs r) (r_leases r) [] of
        (ls, callbacks) \<Rightarrow> (r\<lparr>r_leases := ls\<rparr>, callbacks))"

text \<open>The sources of the user's sessions that are not revoked, with their oldest session id.\<close>

definition source_ages :: "registry \<Rightarrow> int64 \<Rightarrow> (uint64 \<times> string) list" where
  "source_ages r uid =
     (let ss = filter (\<lambda>l. le_userID l = uid \<and> \<not> le_revoked l) (map ((!) (r_leases r)) (session_addrs r))
      in map (\<lambda>source. (Min (set (map le_id (filter (\<lambda>l. le_sourceIP l = source) ss))), source))
           (remdups (map le_sourceIP ss)))"

text \<open>
  One round of the loop in \<^verbatim>\<open>enforceConnectorsLocked\<close>. \<open>None\<close> is the panic of the slice expression
  \<^verbatim>\<open>ordered[limit:]\<close> when \<^verbatim>\<open>limit\<close> exceeds the length.
\<close>

definition enforce_user :: "int64 \<Rightarrow> registry \<Rightarrow> (registry \<times> nat list \<times> bool) option" where
  "enforce_user uid r =
     (case fmlookup (r_users r) uid of
        None \<Rightarrow> Some (r, [], False)
      | Some u \<Rightarrow>
          (let limit = effectiveLimit (u_ConnectorLimit u) (r_nodeConnectors r) in
           if limit \<le> 0 \<or> int (fm_size (sources_of r uid)) \<le> limit then Some (r, [], False)
           else (let ordered = sort (source_ages r uid) in
             if limit > int (length ordered) then None
             else (let blocked = map snd (drop (nat limit) ordered) in
                   if blocked \<noteq> [] then
                     (case revokeLocked {||} ((\<lambda>_. [])(uid := blocked)) r of
                        (r', callbacks) \<Rightarrow> Some (r', callbacks, True))
                   else Some (r, [], False)))))"

fun enforce_loop :: "int64 list \<Rightarrow> registry \<Rightarrow> (registry \<times> nat list \<times> int64 list) option" where
  "enforce_loop [] r = Some (r, [], [])"
| "enforce_loop (uid # uids) r =
     (case enforce_user uid r of
        None \<Rightarrow> None
      | Some (r1, cs, aff) \<Rightarrow>
          (case enforce_loop uids r1 of
             None \<Rightarrow> None
           | Some (r2, cs', affs) \<Rightarrow> Some (r2, cs @ cs', if aff then uid # affs else affs)))"

definition enforceConnectorsLocked :: "registry \<Rightarrow> (registry \<times> nat list \<times> int64 list) option" where
  "enforceConnectorsLocked r = enforce_loop (sorted_list_of_fset (fmdom (r_sources r))) r"

definition new_disconnects :: "user \<Rightarrow> user \<Rightarrow> string list" where
  "new_disconnects old updated =
     filter (\<lambda>source. \<not> contains (u_DisconnectIPs old) source) (u_DisconnectIPs updated)"

definition policy_revoked :: "(int64, user) fmap \<Rightarrow> (int64, user) fmap \<Rightarrow> int64 fset" where
  "policy_revoked oldUsers newUsers = ffilter (\<lambda>uid.
     case fmlookup oldUsers uid of
       None \<Rightarrow> False
     | Some old \<Rightarrow>
         (case fmlookup newUsers uid of
            None \<Rightarrow> True
          | Some updated \<Rightarrow> userPolicyWithoutDisconnectChanged old updated)) (fmdom oldUsers)"

definition source_revoked :: "(int64, user) fmap \<Rightarrow> (int64, user) fmap \<Rightarrow> int64 \<Rightarrow> string list" where
  "source_revoked oldUsers newUsers uid =
     (case (fmlookup oldUsers uid, fmlookup newUsers uid) of
        (Some old, Some updated) \<Rightarrow>
          if userPolicyWithoutDisconnectChanged old updated then [] else new_disconnects old updated
      | _ \<Rightarrow> [])"

text \<open>\<^verbatim>\<open>Update\<close> returns the callbacks it invokes and the affected users; \<open>None\<close> is a panic.\<close>

definition Update :: "snapshot \<Rightarrow> registry \<Rightarrow> (registry \<times> nat list \<times> int64 list) option" where
  "Update snapshot r =
     (let oldUsers = r_users r;
          newUsers = userMap (s_Users snapshot);
          speedChanged = (\<not> f64_eq (r_nodeSpeed r) (n_SpeedLimitMbps (s_Node snapshot)));
          revokeAll = policy_revoked oldUsers newUsers |\<union>| (if speedChanged then fmdom oldUsers else {||});
          revokeSources = source_revoked oldUsers newUsers;
          r1 = installSnapshot snapshot (Some oldUsers) r
      in case revokeLocked revokeAll revokeSources r1 of
           (r2, callbacks) \<Rightarrow>
             (case enforceConnectorsLocked r2 of
                None \<Rightarrow> None
              | Some (r3, connectorCallbacks, connectorUsers) \<Rightarrow>
                  Some (r3, callbacks @ connectorCallbacks,
                    sorted_list_of_fset (revokeAll |\<union>|
                      ffilter (\<lambda>uid. revokeSources uid \<noteq> []) (fmdom oldUsers) |\<union>|
                      fset_of_list connectorUsers))))"

definition RevokeUsers :: "int64 list \<Rightarrow> registry \<Rightarrow> registry \<times> nat list" where
  "RevokeUsers ids r = revokeLocked (fset_of_list ids) (\<lambda>_. []) r"

definition Close :: "registry \<Rightarrow> registry \<times> nat list" where
  "Close r = revokeLocked (fmdom (r_users r)) (\<lambda>_. []) (r\<lparr>r_closed := True\<rparr>)"

subsection \<open>Queries\<close>

text \<open>\<^verbatim>\<open>Online\<close>: the sources per user; the time stamp is the same \<^verbatim>\<open>now\<close> everywhere.\<close>

definition Online :: "int \<Rightarrow> registry \<Rightarrow> (int64, (string, int) fmap) fmap" where
  "Online now r = fmmap (fmmap (\<lambda>_. now)) (fmfilter (\<lambda>uid. sources_of r uid \<noteq> fmempty) (r_sources r))"

definition Metrics :: "registry \<Rightarrow> metrics" where
  "Metrics r = \<lparr>mt_TCPActive = r_tcp r, mt_XUDPActive = r_xudp r, mt_Handshakes = r_handshakes r,
     mt_Rejected = r_rejected r\<rparr>"

definition HasUserSessions :: "registry \<Rightarrow> int64 \<Rightarrow> bool" where
  "HasUserSessions r uid \<longleftrightarrow> fmget0 (r_userTCP r) uid > 0 \<or> fmget0 (r_userXUDP r) uid > 0"

subsection \<open>Leases\<close>

definition upd_lease :: "nat \<Rightarrow> (lease \<Rightarrow> lease) \<Rightarrow> registry \<Rightarrow> registry" where
  "upd_lease a f r = r\<lparr>r_leases := (r_leases r)[a := f (r_leases r ! a)]\<rparr>"

definition BindInterrupt :: "nat \<Rightarrow> nat option \<Rightarrow> registry \<Rightarrow> registry \<times> nat list" where
  "BindInterrupt a callback r =
     (upd_lease a (\<lambda>l. l\<lparr>le_interrupt := callback\<rparr>) r,
      case callback of None \<Rightarrow> [] | Some f \<Rightarrow> if le_revoked (r_leases r ! a) then [f] else [])"

definition removeSourceLocked :: "int64 \<Rightarrow> string \<Rightarrow> registry \<Rightarrow> registry" where
  "removeSourceLocked uid source r =
     (let r1 = (if fmlookup (r_sources r) uid = None then r
                else r\<lparr>r_sources := fmupd uid (fm_dec source (sources_of r uid)) (r_sources r)\<rparr>)
      in if sources_of r1 uid = fmempty then r1\<lparr>r_sources := fmdrop uid (r_sources r1)\<rparr> else r1)"

definition Rebind :: "nat \<Rightarrow> string \<Rightarrow> registry \<Rightarrow> registry \<times> (session_error + unit)" where
  "Rebind a value r =
     (case CanonicalIP value of
        None \<Rightarrow> reject ''source'' r
      | Some sourceIP \<Rightarrow>
          (let l = r_leases r ! a; uid = le_userID l in
           if r_closed r \<or> le_revoked l then reject ''authorization'' r
           else if sourceIP = le_sourceIP l then (r, Inr ())
           else case fmlookup (r_users r) uid of
             None \<Rightarrow> reject ''authorization'' r
           | Some u \<Rightarrow>
               if contains (u_DisconnectIPs u) sourceIP then reject ''disconnect_ip'' r
               else (let limit = effectiveLimit (u_ConnectorLimit u) (r_nodeConnectors r);
                         after = int (fm_size (sources_of r uid)) -
                           (if fmget0 (sources_of r uid) (le_sourceIP l) = 1 then 1 else 0)
                     in if limit > 0 \<and> fmget0 (sources_of r uid) sourceIP = 0 \<and> after \<ge> limit
                        then reject ''connector_limit'' r
                        else (upd_lease a (\<lambda>l. l\<lparr>le_sourceIP := sourceIP\<rparr>)
                               (add_source uid sourceIP (removeSourceLocked uid (le_sourceIP l) r)),
                              Inr ()))))"

definition lease_Close :: "nat \<Rightarrow> registry \<Rightarrow> registry" where
  "lease_Close a r =
     (let l = r_leases r ! a; uid = le_userID l in
      if le_once l then r
      else (let r1 = upd_lease a (\<lambda>l. l\<lparr>le_once := True, le_cancelled := True\<rparr>) r;
                r2 = r1\<lparr>r_sessions := fmdrop (le_id l) (r_sessions r1)\<rparr>;
                r3 = (if le_kind l = TCP
                      then r2\<lparr>r_tcp := (if r_tcp r2 > 0 then r_tcp r2 - 1 else r_tcp r2),
                              r_userTCP := fm_dec uid (r_userTCP r2)\<rparr>
                      else r2\<lparr>r_xudp := (if r_xudp r2 > 0 then r_xudp r2 - 1 else r_xudp r2),
                              r_userXUDP := fm_dec uid (r_userXUDP r2)\<rparr>)
            in removeSourceLocked uid (le_sourceIP l) r3))"

text \<open>
  The loop of \<^verbatim>\<open>wait\<close>: outer \<open>None\<close> when it does not return, inner \<open>None\<close> for the error of
  \<^verbatim>\<open>WaitN\<close>, which is a parameter acting on the state \<open>w\<close> of the limiter and the clock.
\<close>

partial_function (option) wait_loop :: "('w \<Rightarrow> int \<Rightarrow> 'w option) \<Rightarrow> int \<Rightarrow> int \<Rightarrow> 'w \<Rightarrow> 'w option option" where
  "wait_loop waitN burst bytes w =
     (if bytes > 0 then
        (let chunk = (if bytes > burst then burst else bytes) in
         case waitN w chunk of
           None \<Rightarrow> Some None
         | Some w' \<Rightarrow> wait_loop waitN burst (bytes - chunk) w')
      else Some (Some w))"

definition wait :: "(limiter \<Rightarrow> 'w \<Rightarrow> int \<Rightarrow> 'w option) \<Rightarrow> limiter option \<Rightarrow> int \<Rightarrow> 'w \<Rightarrow> 'w option option" where
  "wait waitN limr bytes w =
     (case limr of None \<Rightarrow> Some (Some w) | Some l \<Rightarrow> wait_loop (waitN l) (lm_burst l) bytes w)"

definition Wait :: "(limiter \<Rightarrow> 'w \<Rightarrow> int \<Rightarrow> 'w option) \<Rightarrow> lease \<Rightarrow> int \<Rightarrow> 'w \<Rightarrow> 'w option option" where
  "Wait waitN l bytes w =
     (if bytes \<le> 0 then Some (Some w)
      else case wait waitN (le_userRate l) bytes w of
        None \<Rightarrow> None
      | Some None \<Rightarrow> Some None
      | Some (Some w') \<Rightarrow> wait waitN (le_nodeRate l) bytes w')"

end
