(* ===== verification/Session_Invariant.thy ===== *)
theory Session_Invariant
  imports Session_Registry
begin

text \<open>
  The invariant of the session registry and that every operation keeps it: the books (ids, the
  session map, the counters per kind, user and source) describe exactly the leases that are not
  closed; the configured limits hold; every session that is not revoked complies with the installed
  snapshot and holds its limiters; a closed registry has no session that is not revoked.
\<close>

subsection \<open>Counting live leases\<close>

definition cnt :: "(lease \<Rightarrow> bool) \<Rightarrow> registry \<Rightarrow> nat" where
  "cnt P r = length (filter (\<lambda>l. \<not> le_once l \<and> P l) (r_leases r))"

definition ids_ok :: "registry \<Rightarrow> bool" where
  "ids_ok r \<longleftrightarrow> length (r_leases r) < 2 ^ 64 \<and> r_nextID r = of_nat (length (r_leases r)) \<and>
     (\<forall>a < length (r_leases r). le_id (r_leases r ! a) = of_nat (Suc a)) \<and>
     (\<forall>k a. fmlookup (r_sessions r) k = Some a \<longleftrightarrow>
        a < length (r_leases r) \<and> \<not> le_once (r_leases r ! a) \<and> le_id (r_leases r ! a) = k)"

definition counters_ok :: "registry \<Rightarrow> bool" where
  "counters_ok r \<longleftrightarrow>
     r_tcp r = int (cnt (\<lambda>l. le_kind l = TCP) r) \<and> r_xudp r = int (cnt (\<lambda>l. le_kind l = XUDP) r) \<and>
     counts (r_userTCP r) (\<lambda>u. cnt (\<lambda>l. le_kind l = TCP \<and> le_userID l = u) r) \<and>
     counts (r_userXUDP r) (\<lambda>u. cnt (\<lambda>l. le_kind l = XUDP \<and> le_userID l = u) r) \<and>
     r_handshakes r = int (length (filter Not (r_released r)))"

definition sources_ok :: "registry \<Rightarrow> bool" where
  "sources_ok r \<longleftrightarrow> (\<forall>u. fmlookup (r_sources r) u \<noteq> Some fmempty \<and>
     counts (sources_of r u) (\<lambda>ip. cnt (\<lambda>l. le_userID l = u \<and> le_sourceIP l = ip) r))"

definition limits_ok :: "registry \<Rightarrow> bool" where
  "limits_ok r \<longleftrightarrow> int (cnt (\<lambda>l. le_kind l = TCP) r) \<le> l_TCPGlobal (r_limits r) \<and>
     int (cnt (\<lambda>l. le_kind l = XUDP) r) \<le> l_XUDPGlobal (r_limits r) \<and>
     (\<forall>u. int (cnt (\<lambda>l. le_kind l = TCP \<and> le_userID l = u) r) \<le> l_TCPPerUser (r_limits r)) \<and>
     (\<forall>u. int (cnt (\<lambda>l. le_kind l = XUDP \<and> le_userID l = u) r) \<le> l_XUDPPerUser (r_limits r)) \<and>
     r_handshakes r \<le> l_ConcurrentHandshakes (r_limits r)"

text \<open>A session complies with the snapshot in force and its traffic passes the limiters in force.\<close>

definition complies :: "registry \<Rightarrow> lease \<Rightarrow> bool" where
  "complies r l \<longleftrightarrow> (case fmlookup (r_users r) (le_userID l) of
       None \<Rightarrow> False | Some u \<Rightarrow> \<not> contains (u_DisconnectIPs u) (le_sourceIP l)) \<and>
     le_userRate l = limiter_of r (le_userID l) \<and> le_nodeRate l = r_nodeLimiter r"

definition policy_ok :: "registry \<Rightarrow> bool" where
  "policy_ok r \<longleftrightarrow>
     (\<forall>l \<in> set (r_leases r). \<not> le_once l \<longrightarrow> \<not> le_revoked l \<longrightarrow> complies r l) \<and>
     (r_nodeLimiter r = None \<longleftrightarrow> f64_le (r_nodeSpeed r) (Fin 0)) \<and>
     (r_closed r \<longrightarrow> (\<forall>l \<in> set (r_leases r). \<not> le_once l \<longrightarrow> le_revoked l)) \<and>
     (\<forall>l \<in> set (r_leases r). le_once l \<or> le_revoked l \<longrightarrow> le_cancelled l)"

text \<open>
  The invariant, with or without the books of source addresses: those are kept only as long as no lease
  is moved after it was closed, everything else is kept in any case.
\<close>

definition inv_upto :: "bool \<Rightarrow> registry \<Rightarrow> bool" where
  "inv_upto b r \<longleftrightarrow> ids_ok r \<and> counters_ok r \<and> (b \<longrightarrow> sources_ok r) \<and> limits_ok r \<and> policy_ok r"

abbreviation reg_inv :: "registry \<Rightarrow> bool" where
  "reg_inv \<equiv> inv_upto True"

abbreviation core_inv :: "registry \<Rightarrow> bool" where
  "core_inv \<equiv> inv_upto False"

lemmas reg_inv_def = inv_upto_def

lemmas reg_inv_defs = reg_inv_def ids_ok_def counters_ok_def sources_ok_def limits_ok_def policy_ok_def

lemma contains_iff [simp]: "contains vs x \<longleftrightarrow> x \<in> set vs"
  by (induction vs) auto

lemma cnt_cong: "(\<And>l. P l = Q l) \<Longrightarrow> cnt P r = cnt Q r"
  by (simp add: cnt_def)

lemma cnt_leases: "r_leases r' = r_leases r \<Longrightarrow> cnt P r' = cnt P r"
  by (simp add: cnt_def)

lemma cnt_snoc:
  "r_leases r' = r_leases r @ [l] \<Longrightarrow> \<not> le_once l \<Longrightarrow> cnt P r' = cnt P r + (if P l then 1 else 0)"
  by (simp add: cnt_def)

lemma cnt_update:
  assumes "r_leases r' = (r_leases r)[a := l]" and "a < length (r_leases r)"
  shows "cnt P r' + (if \<not> le_once (r_leases r ! a) \<and> P (r_leases r ! a) then 1 else 0)
       = cnt P r + (if \<not> le_once l \<and> P l then 1 else 0)"
  using length_filter_update [OF assms(2), of "\<lambda>l. \<not> le_once l \<and> P l" l] by (simp add: cnt_def assms(1))

text \<open>What the books read of a lease.\<close>

definition lease_key :: "lease \<Rightarrow> uint64 \<times> int64 \<times> string \<times> kind \<times> bool" where
  "lease_key l = (le_id l, le_userID l, le_sourceIP l, le_kind l, le_once l)"

lemma cnt_map:
  assumes "\<And>l. lease_key (f l) = lease_key l" and "\<And>l. P (f l) = P l"
    and "r_leases r' = map f (r_leases r)"
  shows "cnt P r' = cnt P r"
  using assms by (simp add: cnt_def filter_map comp_def lease_key_def)

lemma list_update_map_id: "a < length xs \<Longrightarrow> xs[a := f (xs ! a)] = map id (xs[a := f (xs ! a)])"
  by simp

subsection \<open>The revocation loop\<close>

definition hit :: "int64 fset \<Rightarrow> (int64 \<Rightarrow> string list) \<Rightarrow> lease \<Rightarrow> bool" where
  "hit users sources l \<longleftrightarrow> (le_userID l |\<in>| users \<or> le_sourceIP l \<in> set (sources (le_userID l))) \<and>
     \<not> le_once l \<and> \<not> le_revoked l"

definition revoke :: "(lease \<Rightarrow> bool) \<Rightarrow> lease \<Rightarrow> lease" where
  "revoke h l = (if h l then l\<lparr>le_revoked := True, le_cancelled := True\<rparr> else l)"

definition interrupts :: "(lease \<Rightarrow> bool) \<Rightarrow> lease list \<Rightarrow> nat list" where
  "interrupts h ls = List.map_filter le_interrupt (filter h ls)"

lemma interrupts_simps [simp]:
  "interrupts h [] = []"
  "interrupts h (l # ls) =
     (if h l then (case le_interrupt l of None \<Rightarrow> [] | Some f \<Rightarrow> [f]) else []) @ interrupts h ls"
  by (auto simp: interrupts_def map_filter_simps map_filter_def split: option.split)

lemma revoke_key [simp]: "lease_key (revoke h l) = lease_key l"
  by (simp add: revoke_def lease_key_def)

lemma revoke_loop_hit:
  assumes "\<not> le_once (ls ! a)"
  shows "revoke_loop users sources (a # as) ls callbacks =
    (if hit users sources (ls ! a) then
       revoke_loop users sources as (ls[a := revoke (hit users sources) (ls ! a)])
         (callbacks @ (case le_interrupt (ls ! a) of None \<Rightarrow> [] | Some f \<Rightarrow> [f]))
     else revoke_loop users sources as ls callbacks)"
  using assms by (auto simp: Let_def hit_def revoke_def split: option.split)

declare revoke_loop.simps(2) [simp del]

lemma revoke_loop_spec:
  assumes "as = filter (\<lambda>a. \<not> le_once (ls ! a)) [length pre..<length pre + length suf]"
    and "ls = map (revoke (hit users sources)) pre @ suf"
  shows "revoke_loop users sources as ls callbacks =
    (map (revoke (hit users sources)) (pre @ suf), callbacks @ interrupts (hit users sources) suf)"
  using assms
proof (induction suf arbitrary: pre as ls callbacks)
  case Nil
  then show ?case by simp
next
  case (Cons l suf)
  let ?h = "hit users sources" and ?n = "length pre"
  have nth: "ls ! ?n = l" using Cons.prems(2) by (simp add: nth_append)
  have upt: "[?n..<?n + length (l # suf)] = ?n # [Suc ?n..<Suc ?n + length suf]"
    by (simp add: upt_conv_Cons del: upt_Suc)
  define ls' where "ls' = map (revoke ?h) (pre @ [l]) @ suf"
  have once: "le_once (ls' ! a) = le_once (ls ! a)" for a
    using Cons.prems(2) by (simp add: ls'_def nth_append revoke_def nth_Cons')
  define as' where "as' = filter (\<lambda>a. \<not> le_once (ls' ! a)) [length (pre @ [l])..<length (pre @ [l]) + length suf]"
  have as: "as = (if le_once l then as' else ?n # as')"
    using Cons.prems(1) unfolding upt as'_def by (simp add: nth once)
  note IH = Cons.IH [OF as'_def ls'_def]
  show ?case
  proof (cases "le_once l")
    case True
    then have "\<not> ?h l" by (simp add: hit_def)
    then have "ls = ls'" using Cons.prems(2) by (simp add: ls'_def revoke_def)
    with True IH \<open>\<not> ?h l\<close> show ?thesis by (simp add: as)
  next
    case False
    have upd: "ls[?n := revoke ?h l] = ls'" "\<not> ?h l \<Longrightarrow> ls = ls'"
      using Cons.prems(2) by (simp_all add: ls'_def list_update_append revoke_def)
    have "revoke_loop users sources as ls callbacks =
        (if ?h l then revoke_loop users sources as' ls'
           (callbacks @ (case le_interrupt l of None \<Rightarrow> [] | Some f \<Rightarrow> [f]))
         else revoke_loop users sources as' ls' callbacks)"
      using revoke_loop_hit [of ls ?n users sources as' callbacks] False upd by (simp add: as nth)
    with IH show ?thesis by simp
  qed
qed

lemma ids_distinct:
  assumes "ids_ok r" and "a < length (r_leases r)" and "b < length (r_leases r)"
    and "le_id (r_leases r ! a) = le_id (r_leases r ! b)"
  shows "a = b"
proof -
  have "Suc a < 2 ^ 64" "Suc b < 2 ^ 64" using assms by (auto simp: ids_ok_def)
  moreover have "(of_nat (Suc a) :: 64 word) = of_nat (Suc b)"
    using assms unfolding ids_ok_def by metis
  ultimately have "Suc a = Suc b"
    unfolding word_of_nat_eq_iff by (simp add: take_bit_nat_eq_self del: of_nat_Suc)
  then show ?thesis by simp
qed

lemma is_session_live:
  "ids_ok r \<Longrightarrow> is_session r a \<longleftrightarrow> a < length (r_leases r) \<and> \<not> le_once (r_leases r ! a)"
  by (auto simp: ids_ok_def is_session_def)

lemma session_addrs_live:
  "ids_ok r \<Longrightarrow> session_addrs r = filter (\<lambda>a. \<not> le_once (r_leases r ! a)) [0..<length (r_leases r)]"
  unfolding session_addrs_def by (rule filter_cong) (auto simp: is_session_live)

lemma revokeLocked_spec:
  assumes "ids_ok r"
  shows "revokeLocked users sources r =
    (r\<lparr>r_leases := map (revoke (hit users sources)) (r_leases r)\<rparr>,
     interrupts (hit users sources) (r_leases r))"
  using revoke_loop_spec [of "session_addrs r" "r_leases r" "[]" "r_leases r" users sources "[]"]
  by (simp add: revokeLocked_def session_addrs_live [OF assms])

subsection \<open>Bookkeeping steps\<close>

lemma counts_snoc:
  assumes "counts m (\<lambda>k. cnt (\<lambda>l. P l \<and> key l = k) r)" and "P l" and "\<not> le_once l"
    and "r_leases r' = r_leases r @ [l]"
  shows "counts (fm_inc (key l) m) (\<lambda>k. cnt (\<lambda>l. P l \<and> key l = k) r')"
proof -
  have "(\<lambda>k. cnt (\<lambda>l. P l \<and> key l = k) r') =
      (\<lambda>k. cnt (\<lambda>l. P l \<and> key l = k) r)(key l := Suc (cnt (\<lambda>x. P x \<and> key x = key l) r))"
    using assms by (auto simp: cnt_snoc)
  with counts_inc [OF assms(1), of "key l"] show ?thesis by simp
qed

lemma counts_drop:
  assumes "counts m (\<lambda>k. cnt (\<lambda>l. P l \<and> key l = k) r)" and "a < length (r_leases r)"
    and "P (r_leases r ! a)" and "\<not> le_once (r_leases r ! a)"
    and "r_leases r' = (r_leases r)[a := l]" and "le_once l \<or> \<not> P l"
  shows "counts (fm_dec (key (r_leases r ! a)) m) (\<lambda>k. cnt (\<lambda>l. P l \<and> key l = k) r')"
proof -
  let ?k = "key (r_leases r ! a)"
  have "cnt (\<lambda>l. P l \<and> key l = k) r' =
      (if k = ?k then cnt (\<lambda>l. P l \<and> key l = k) r - 1 else cnt (\<lambda>l. P l \<and> key l = k) r)" for k
    using cnt_update [OF assms(5,2), of "\<lambda>l. P l \<and> key l = k"] assms by (auto split: if_splits)
  then have "(\<lambda>k. cnt (\<lambda>l. P l \<and> key l = k) r') =
      (\<lambda>k. cnt (\<lambda>l. P l \<and> key l = k) r)(?k := cnt (\<lambda>l. P l \<and> key l = ?k) r - 1)"
    by auto
  with counts_dec [OF assms(1), of ?k] show ?thesis by simp
qed

lemma cnt_drop:
  assumes "a < length (r_leases r)" and "\<not> le_once (r_leases r ! a)"
    and "r_leases r' = (r_leases r)[a := l]" and "le_once l"
  shows "int (cnt P r') = int (cnt P r) - (if P (r_leases r ! a) then 1 else 0)"
  using cnt_update [OF assms(3,1), of P] assms by (auto split: if_splits)

lemma fm_dec_empty [simp]: "fm_dec k fmempty = fmempty"
  by (simp add: fm_dec_def)

lemma fm_inc_nonempty [simp]: "fm_inc k m \<noteq> fmempty"
  by (metis fm_inc_def fmempty_lookup fmupd_lookup option.distinct(1))

lemma sources_of_remove [simp]:
  "sources_of (removeSourceLocked u ip r) v = (if v = u then fm_dec ip (sources_of r u) else sources_of r v)"
  by (auto simp: removeSourceLocked_def sources_of_def Let_def split: option.splits)

lemma sources_of_add [simp]:
  "sources_of (add_source u ip r) v = (if v = u then fm_inc ip (sources_of r u) else sources_of r v)"
  by (auto simp: add_source_def sources_of_def)

lemma sources_nonempty_remove:
  "fmlookup (r_sources r) v \<noteq> Some fmempty \<Longrightarrow> fmlookup (r_sources (removeSourceLocked u ip r)) v \<noteq> Some fmempty"
  by (auto simp: removeSourceLocked_def sources_of_def Let_def split: option.splits if_splits)

lemma sources_nonempty_add:
  "fmlookup (r_sources r) v \<noteq> Some fmempty \<Longrightarrow> fmlookup (r_sources (add_source u ip r)) v \<noteq> Some fmempty"
  by (auto simp: add_source_def)

text \<open>The two source operations change nothing but the source counts.\<close>

lemma source_ops_frame [simp]:
  "r_leases (removeSourceLocked u ip r) = r_leases r" "r_leases (add_source u ip r) = r_leases r"
  "r_sessions (removeSourceLocked u ip r) = r_sessions r" "r_sessions (add_source u ip r) = r_sessions r"
  "r_nextID (removeSourceLocked u ip r) = r_nextID r" "r_nextID (add_source u ip r) = r_nextID r"
  "r_tcp (removeSourceLocked u ip r) = r_tcp r" "r_tcp (add_source u ip r) = r_tcp r"
  "r_xudp (removeSourceLocked u ip r) = r_xudp r" "r_xudp (add_source u ip r) = r_xudp r"
  "r_userTCP (removeSourceLocked u ip r) = r_userTCP r" "r_userTCP (add_source u ip r) = r_userTCP r"
  "r_userXUDP (removeSourceLocked u ip r) = r_userXUDP r" "r_userXUDP (add_source u ip r) = r_userXUDP r"
  "r_handshakes (removeSourceLocked u ip r) = r_handshakes r" "r_handshakes (add_source u ip r) = r_handshakes r"
  "r_released (removeSourceLocked u ip r) = r_released r" "r_released (add_source u ip r) = r_released r"
  "r_limits (removeSourceLocked u ip r) = r_limits r" "r_limits (add_source u ip r) = r_limits r"
  "r_users (removeSourceLocked u ip r) = r_users r" "r_users (add_source u ip r) = r_users r"
  "r_userLimiters (removeSourceLocked u ip r) = r_userLimiters r"
  "r_userLimiters (add_source u ip r) = r_userLimiters r"
  "r_nodeLimiter (removeSourceLocked u ip r) = r_nodeLimiter r"
  "r_nodeLimiter (add_source u ip r) = r_nodeLimiter r"
  "r_nodeSpeed (removeSourceLocked u ip r) = r_nodeSpeed r" "r_nodeSpeed (add_source u ip r) = r_nodeSpeed r"
  "r_nodeConnectors (removeSourceLocked u ip r) = r_nodeConnectors r"
  "r_nodeConnectors (add_source u ip r) = r_nodeConnectors r"
  "r_closed (removeSourceLocked u ip r) = r_closed r" "r_closed (add_source u ip r) = r_closed r"
  by (simp_all add: removeSourceLocked_def add_source_def Let_def)

lemma complies_cong:
  "r_users r' = r_users r \<Longrightarrow> r_userLimiters r' = r_userLimiters r \<Longrightarrow> r_nodeLimiter r' = r_nodeLimiter r \<Longrightarrow>
   complies r' l = complies r l"
  by (simp add: complies_def limiter_of_def)

subsection \<open>Rejections and handshakes\<close>

lemma reg_inv_rejectLocked [simp]: "inv_upto b (rejectLocked reason r) = inv_upto b r"
  by (simp add: reg_inv_defs cnt_def sources_of_def limiter_of_def complies_def rejectLocked_def)

lemma reg_inv_handshake:
  assumes "inv_upto b r"
  shows "inv_upto b (fst (AcquireHandshake r q))" and "inv_upto b (release_handshake h r)"
proof -
  show "inv_upto b (fst (AcquireHandshake r q))"
    using assms
    by (auto simp: AcquireHandshake_def reg_inv_defs cnt_def sources_of_def limiter_of_def complies_def
        rejectLocked_def)
  have "int (length (filter Not ((r_released r)[h := True]))) = r_handshakes r - 1" "0 < r_handshakes r"
    if "h < length (r_released r)" "\<not> r_released r ! h"
    using that assms length_filter_update [OF that(1), of Not True]
    by (auto simp: reg_inv_def counters_ok_def)
  with assms show "inv_upto b (release_handshake h r)"
    by (auto simp: release_handshake_def reg_inv_defs cnt_def sources_of_def limiter_of_def complies_def)
qed

subsection \<open>Opening a session\<close>

lemma register_leases: "r_leases (register r p) = r_leases r @ [new_lease r p]"
  by (simp add: register_def Let_def add_source_def)

lemma register_frame [simp]:
  "r_users (register r p) = r_users r" "r_limits (register r p) = r_limits r"
  "r_userLimiters (register r p) = r_userLimiters r" "r_nodeLimiter (register r p) = r_nodeLimiter r"
  "r_nodeSpeed (register r p) = r_nodeSpeed r" "r_closed (register r p) = r_closed r"
  "r_nodeConnectors (register r p) = r_nodeConnectors r"
  "r_handshakes (register r p) = r_handshakes r" "r_released (register r p) = r_released r"
  "r_nextID (register r p) = r_nextID r + 1"
  "r_sessions (register r p) = fmupd (r_nextID r + 1) (length (r_leases r)) (r_sessions r)"
  "r_tcp (register r p) = (if p_kind p = TCP then r_tcp r + 1 else r_tcp r)"
  "r_xudp (register r p) = (if p_kind p = TCP then r_xudp r else r_xudp r + 1)"
  "r_userTCP (register r p) = (if p_kind p = TCP then fm_inc (p_userID p) (r_userTCP r) else r_userTCP r)"
  "r_userXUDP (register r p) = (if p_kind p = TCP then r_userXUDP r else fm_inc (p_userID p) (r_userXUDP r))"
  by (simp_all add: register_def Let_def add_source_def new_lease_def)

lemma sources_of_register [simp]:
  "sources_of (register r p) v =
     (if v = p_userID p then fm_inc (p_sourceIP p) (sources_of r v) else sources_of r v)"
  by (simp add: register_def Let_def add_source_def sources_of_def)

lemma new_lease_simps [simp]:
  "le_id (new_lease r p) = r_nextID r + 1" "le_userID (new_lease r p) = p_userID p"
  "le_sourceIP (new_lease r p) = p_sourceIP p" "le_kind (new_lease r p) = p_kind p"
  "\<not> le_once (new_lease r p)" "\<not> le_revoked (new_lease r p)" "\<not> le_cancelled (new_lease r p)"
  "le_interrupt (new_lease r p) = None"
  "le_userRate (new_lease r p) = limiter_of r (p_userID p)" "le_nodeRate (new_lease r p) = r_nodeLimiter r"
  by (simp_all add: new_lease_def)

lemma cnt_register: "cnt P (register r p) = cnt P r + (if P (new_lease r p) then 1 else 0)"
  by (rule cnt_snoc) (simp_all add: register_leases)

lemma of_nat_Suc_word: "(of_nat n + 1 :: 64 word) = of_nat (Suc n)"
  by simp

lemma ids_ok_register:
  assumes "ids_ok r" and "Suc (length (r_leases r)) < 2 ^ 64"
  shows "ids_ok (register r p)"
proof -
  let ?n = "length (r_leases r)"
  have id: "r_nextID r + 1 = of_nat (Suc ?n)" using assms by (simp add: ids_ok_def)
  have fresh: "le_id (r_leases r ! a) \<noteq> of_nat (Suc ?n)" if "a < ?n" for a
  proof
    assume "le_id (r_leases r ! a) = of_nat (Suc ?n)"
    then have "(of_nat (Suc a) :: 64 word) = of_nat (Suc ?n)"
      using assms(1) that unfolding ids_ok_def by metis
    then have "Suc a = Suc ?n"
      using that assms(2) unfolding word_of_nat_eq_iff by (simp add: take_bit_nat_eq_self del: of_nat_Suc)
    with that show False by simp
  qed
  show ?thesis
    using assms fresh unfolding ids_ok_def register_frame id
    by (auto simp: register_leases nth_append less_Suc_eq id of_nat_Suc_word simp del: of_nat_Suc)
qed

lemma kind_cases: "k \<noteq> TCP \<longleftrightarrow> k = XUDP"
  by (cases k) auto

lemma counters_ok_register: "counters_ok r \<Longrightarrow> counters_ok (register r p)"
  using counts_snoc [of "r_userTCP r" "\<lambda>l. le_kind l = TCP" le_userID r "new_lease r p" "register r p"]
    counts_snoc [of "r_userXUDP r" "\<lambda>l. le_kind l = XUDP" le_userID r "new_lease r p" "register r p"]
  by (cases "p_kind p") (simp_all add: counters_ok_def cnt_register register_leases)

lemma sources_ok_register:
  assumes "sources_ok r"
  shows "sources_ok (register r p)"
  unfolding sources_ok_def
proof (intro allI conjI)
  fix u
  show "fmlookup (r_sources (register r p)) u \<noteq> Some fmempty"
    using assms by (simp add: sources_ok_def register_def Let_def add_source_def)
  show "counts (sources_of (register r p) u)
      (\<lambda>ip. cnt (\<lambda>l. le_userID l = u \<and> le_sourceIP l = ip) (register r p))"
    using assms counts_snoc [of "sources_of r u" "\<lambda>l. le_userID l = u" le_sourceIP r "new_lease r p"
        "register r p"]
    by (cases "u = p_userID p") (simp_all add: sources_ok_def cnt_register register_leases)
qed

lemma capacity_limits:
  assumes "checkCapacityLocked r u (p_userID p) (p_sourceIP p) (p_kind p) = None"
    and "counters_ok r" and "limits_ok r"
  shows "limits_ok (register r p)"
  using assms unfolding limits_ok_def register_frame cnt_register checkCapacityLocked_def Let_def counters_ok_def
  by (cases "p_kind p") (auto simp: counts_get split: if_splits)

lemma policy_ok_register:
  assumes "policy_ok r" and "fmlookup (r_users r) (p_userID p) = Some u" and "\<not> r_closed r"
    and "\<not> contains (u_DisconnectIPs u) (p_sourceIP p)"
  shows "policy_ok (register r p)"
proof -
  have c: "complies (register r p) l = complies r l" for l by (rule complies_cong) simp_all
  have "complies r (new_lease r p)" using assms by (simp add: complies_def)
  then show ?thesis using assms by (auto simp: policy_ok_def register_leases c)
qed

lemma reg_inv_reject [simp]: "inv_upto b (fst (reject reason r)) = inv_upto b r"
  by (simp add: reject_def)

lemma Open_commit_Inr:
  assumes "Open_commit r p = (r', Inr d)"
  obtains u where "fmlookup (r_users r) (p_userID p) = Some u" "\<not> r_closed r"
    "\<not> contains (u_DisconnectIPs u) (p_sourceIP p)"
    "\<not> PortBlocked (u_ForbiddenPorts u) (uint (p_port p))"
    "\<not> list_ex (IPBlocked (u_ForbiddenIPs u)) (p_addresses p)"
    "checkCapacityLocked r u (p_userID p) (p_sourceIP p) (p_kind p) = None"
    "r' = register r p" "d = (p_resolved p, length (r_leases r))"
  using assms by (auto simp: Open_commit_def reject_def split: option.splits if_splits)

lemma Open_commit_Inl:
  assumes "Open_commit r p = (r', Inl e)"
  obtains reason where "r' = rejectLocked reason r" "e = Rejected reason"
  using assms by (auto simp: Open_commit_def reject_def split: option.splits if_splits)

lemma reg_inv_commit:
  assumes "inv_upto b r" and "Suc (length (r_leases r)) < 2 ^ 64"
  shows "inv_upto b (fst (Open_commit r p))"
proof (cases "Open_commit r p")
  case (Pair r' res)
  show ?thesis
  proof (cases res)
    case (Inl e)
    with Pair obtain reason where "r' = rejectLocked reason r" by (auto elim: Open_commit_Inl)
    with assms Pair show ?thesis by simp
  next
    case (Inr d)
    then have "Open_commit r p = (r', Inr d)" using Pair by simp
    then show ?thesis
      using assms Pair
      by (elim Open_commit_Inr)
        (auto simp: reg_inv_def intro: ids_ok_register counters_ok_register sources_ok_register
          capacity_limits policy_ok_register)
  qed
qed

lemma reg_inv_prepare: "inv_upto b r \<Longrightarrow> inv_upto b (fst (Open_prepare lookup r q))"
  by (auto simp: Open_prepare_def split: option.split sum.split)

subsection \<open>Closing and moving a session\<close>

definition closed_lease :: "lease \<Rightarrow> lease" where
  "closed_lease l = l\<lparr>le_once := True, le_cancelled := True\<rparr>"

lemma lease_Close_fields:
  fixes r a
  defines "l \<equiv> r_leases r ! a"
  assumes "\<not> le_once l"
  shows "r_leases (lease_Close a r) = (r_leases r)[a := closed_lease l]"
    and "r_sessions (lease_Close a r) = fmdrop (le_id l) (r_sessions r)"
    and "r_tcp (lease_Close a r) = (if le_kind l = TCP \<and> r_tcp r > 0 then r_tcp r - 1 else r_tcp r)"
    and "r_xudp (lease_Close a r) = (if le_kind l \<noteq> TCP \<and> r_xudp r > 0 then r_xudp r - 1 else r_xudp r)"
    and "r_userTCP (lease_Close a r) =
      (if le_kind l = TCP then fm_dec (le_userID l) (r_userTCP r) else r_userTCP r)"
    and "r_userXUDP (lease_Close a r) =
      (if le_kind l = TCP then r_userXUDP r else fm_dec (le_userID l) (r_userXUDP r))"
    and "sources_of (lease_Close a r) v =
      (if v = le_userID l then fm_dec (le_sourceIP l) (sources_of r v) else sources_of r v)"
    and "fmlookup (r_sources r) v \<noteq> Some fmempty \<Longrightarrow> fmlookup (r_sources (lease_Close a r)) v \<noteq> Some fmempty"
  using assms
  by (auto simp: lease_Close_def Let_def upd_lease_def closed_lease_def sources_nonempty_remove
      sources_of_def [of "r_sources_update _ _"] sources_of_def [of "r_sessions_update _ _"])
    (simp_all add: sources_of_def)

lemma lease_Close_frame [simp]:
  "r_users (lease_Close a r) = r_users r" "r_limits (lease_Close a r) = r_limits r"
  "r_userLimiters (lease_Close a r) = r_userLimiters r" "r_nodeLimiter (lease_Close a r) = r_nodeLimiter r"
  "r_nodeSpeed (lease_Close a r) = r_nodeSpeed r" "r_closed (lease_Close a r) = r_closed r"
  "r_nodeConnectors (lease_Close a r) = r_nodeConnectors r"
  "r_handshakes (lease_Close a r) = r_handshakes r" "r_released (lease_Close a r) = r_released r"
  "r_nextID (lease_Close a r) = r_nextID r"
  by (simp_all add: lease_Close_def Let_def upd_lease_def)

lemma ids_ok_close:
  assumes "ids_ok r" and "a < length (r_leases r)" and "\<not> le_once (r_leases r ! a)"
  shows "ids_ok (lease_Close a r)"
proof -
  note F = lease_Close_fields [OF assms(3)]
  have "le_id (r_leases r ! b) \<noteq> le_id (r_leases r ! a)" if "b < length (r_leases r)" "b \<noteq> a" for b
    using ids_distinct [OF assms(1) that(1) assms(2)] that by blast
  with assms show ?thesis
    unfolding ids_ok_def F(1,2) lease_Close_frame
    by (auto simp: nth_list_update closed_lease_def simp del: of_nat_Suc split: if_splits)
qed

lemma counters_ok_close:
  assumes "counters_ok r" and "a < length (r_leases r)" and "\<not> le_once (r_leases r ! a)"
  shows "counters_ok (lease_Close a r)"
proof -
  note F = lease_Close_fields [OF assms(3)]
  have "le_once (closed_lease (r_leases r ! a))" by (simp add: closed_lease_def)
  note N = cnt_drop [OF assms(2,3) F(1) this]
    and T = counts_drop [of "r_userTCP r" "\<lambda>l. le_kind l = TCP" le_userID, OF _ assms(2) _ assms(3) F(1)]
    and X = counts_drop [of "r_userXUDP r" "\<lambda>l. le_kind l = XUDP" le_userID, OF _ assms(2) _ assms(3) F(1)]
  have pos: "P (r_leases r ! a) \<Longrightarrow> 0 < cnt P r" for P using N [of P] by simp
  have keep: "le_kind (r_leases r ! a) \<noteq> k \<Longrightarrow>
      cnt (\<lambda>l. le_kind l = k \<and> le_userID l = u) (lease_Close a r) = cnt (\<lambda>l. le_kind l = k \<and> le_userID l = u) r"
    for k u using N [of "\<lambda>l. le_kind l = k \<and> le_userID l = u"] by simp
  show ?thesis
    using assms(1) N T X keep [of TCP] keep [of XUDP] unfolding counters_ok_def F(3-6) lease_Close_frame
    by (cases "le_kind (r_leases r ! a)") (simp_all add: closed_lease_def pos)
qed

lemma sources_ok_close:
  assumes "sources_ok r" and "a < length (r_leases r)" and "\<not> le_once (r_leases r ! a)"
  shows "sources_ok (lease_Close a r)"
  unfolding sources_ok_def
proof (intro allI conjI)
  note F = lease_Close_fields [OF assms(3)]
  have o: "le_once (closed_lease (r_leases r ! a))" by (simp add: closed_lease_def)
  fix u
  show "fmlookup (r_sources (lease_Close a r)) u \<noteq> Some fmempty"
    by (rule F(8)) (use assms(1) in \<open>simp add: sources_ok_def\<close>)
  have S: "counts (sources_of r u) (\<lambda>ip. cnt (\<lambda>l. le_userID l = u \<and> le_sourceIP l = ip) r)"
    using assms(1) by (simp add: sources_ok_def)
  show "counts (sources_of (lease_Close a r) u)
      (\<lambda>ip. cnt (\<lambda>l. le_userID l = u \<and> le_sourceIP l = ip) (lease_Close a r))"
  proof (cases "le_userID (r_leases r ! a) = u")
    case True
    with counts_drop [OF S assms(2) True assms(3) F(1)] o show ?thesis by (simp add: F(7))
  next
    case False
    then have "cnt (\<lambda>l. le_userID l = u \<and> le_sourceIP l = ip) (lease_Close a r)
        = cnt (\<lambda>l. le_userID l = u \<and> le_sourceIP l = ip) r" for ip
      using cnt_drop [OF assms(2,3) F(1) o, of "\<lambda>l. le_userID l = u \<and> le_sourceIP l = ip"] by simp
    with S False show ?thesis by (simp add: F(7))
  qed
qed

lemma limits_ok_close:
  assumes "limits_ok r" and "a < length (r_leases r)" and "\<not> le_once (r_leases r ! a)"
  shows "limits_ok (lease_Close a r)"
proof -
  note F = lease_Close_fields [OF assms(3)]
  have "le_once (closed_lease (r_leases r ! a))" by (simp add: closed_lease_def)
  from cnt_drop [OF assms(2,3) F(1) this]
  have le: "int (cnt P (lease_Close a r)) \<le> int (cnt P r)" for P by (simp split: if_splits)
  show ?thesis using assms(1) order_trans [OF le] unfolding limits_ok_def lease_Close_frame by blast
qed

lemma policy_ok_update:
  assumes "policy_ok r" and "a < length (r_leases r)" and "r_leases r' = (r_leases r)[a := l]"
    and "r_users r' = r_users r" "r_userLimiters r' = r_userLimiters r" "r_nodeLimiter r' = r_nodeLimiter r"
    "r_nodeSpeed r' = r_nodeSpeed r" "r_closed r' = r_closed r"
    and "\<not> le_once l \<Longrightarrow> \<not> le_revoked l \<Longrightarrow> complies r l \<and> \<not> r_closed r"
    and "le_once l \<or> le_revoked l \<longrightarrow> le_cancelled l"
  shows "policy_ok r'"
proof -
  have c: "complies r' x = complies r x" for x by (rule complies_cong) (use assms in simp_all)
  have sub: "set (r_leases r') \<subseteq> insert l (set (r_leases r))"
    using set_update_subset_insert [of "r_leases r" a l] by (simp add: assms(3))
  show ?thesis
    using assms(1,9,10) sub unfolding policy_ok_def assms(6-8) c by blast
qed

lemma reg_inv_close:
  assumes "inv_upto b r" and "a < length (r_leases r)"
  shows "inv_upto b (lease_Close a r)"
proof (cases "le_once (r_leases r ! a)")
  case True
  then show ?thesis using assms by (simp add: lease_Close_def Let_def)
next
  case False
  have "policy_ok (lease_Close a r)"
    by (rule policy_ok_update [OF _ assms(2) lease_Close_fields(1) [OF False]])
      (use assms in \<open>simp_all add: reg_inv_def closed_lease_def\<close>)
  with assms False show ?thesis
    by (simp add: reg_inv_def ids_ok_close counters_ok_close sources_ok_close limits_ok_close)
qed

text \<open>Changing a field of a live lease that the books do not read.\<close>

lemma reg_inv_upd_lease:
  assumes "inv_upto b r" and "a < length (r_leases r)"
    and "lease_key l = lease_key (r_leases r ! a)" and "le_revoked l = le_revoked (r_leases r ! a)"
    and "le_cancelled l = le_cancelled (r_leases r ! a)" and "le_userRate l = le_userRate (r_leases r ! a)"
    and "le_nodeRate l = le_nodeRate (r_leases r ! a)"
  shows "inv_upto b (r\<lparr>r_leases := (r_leases r)[a := l]\<rparr>)"
proof -
  let ?r = "r\<lparr>r_leases := (r_leases r)[a := l]\<rparr>"
  let ?l = "r_leases r ! a"
  have k: "le_id l = le_id ?l" "le_userID l = le_userID ?l" "le_sourceIP l = le_sourceIP ?l"
    "le_kind l = le_kind ?l" "le_once l = le_once ?l" using assms(3) by (simp_all add: lease_key_def)
  have cnt: "P l = P ?l \<Longrightarrow> cnt P ?r = cnt P r" for P
    using cnt_update [of ?r r a l P] assms(2) k by (simp split: if_splits)
  have "ids_ok ?r" using assms(1,2) k unfolding reg_inv_def ids_ok_def by (auto simp: nth_list_update)
  moreover have "counters_ok ?r = counters_ok r" "limits_ok ?r = limits_ok r" "sources_ok ?r = sources_ok r"
    unfolding counters_ok_def limits_ok_def sources_ok_def by (simp_all add: cnt k sources_of_def)
  moreover have "policy_ok ?r"
  proof (rule policy_ok_update [OF _ assms(2)])
    have "?l \<in> set (r_leases r)" using assms(2) by simp
    moreover have "complies r l = complies r ?l" using k assms(6,7) by (simp add: complies_def split: option.split)
    ultimately show "complies r l \<and> \<not> r_closed r" if "\<not> le_once l" "\<not> le_revoked l"
      using assms(1,4) that k(5) unfolding reg_inv_def policy_ok_def by blast
    show "le_once l \<or> le_revoked l \<longrightarrow> le_cancelled l"
      using assms \<open>?l \<in> set (r_leases r)\<close> k unfolding reg_inv_def policy_ok_def by auto
  qed (use assms in \<open>simp_all add: reg_inv_def\<close>)
  ultimately show ?thesis using assms(1) by (simp add: reg_inv_def)
qed

lemma reg_inv_bind:
  assumes "inv_upto b r" and "a < length (r_leases r)"
  shows "inv_upto b (fst (BindInterrupt a callback r))"
  using reg_inv_upd_lease [OF assms] by (simp add: BindInterrupt_def upd_lease_def lease_key_def)


subsection \<open>Rebinding a session to another source\<close>

definition moved :: "string \<Rightarrow> lease \<Rightarrow> lease" where
  "moved ip l = l\<lparr>le_sourceIP := ip\<rparr>"

definition rebound :: "nat \<Rightarrow> string \<Rightarrow> registry \<Rightarrow> registry" where
  "rebound a ip r = upd_lease a (moved ip)
     (add_source (le_userID (r_leases r ! a)) ip
       (removeSourceLocked (le_userID (r_leases r ! a)) (le_sourceIP (r_leases r ! a)) r))"

lemma Rebind_cases:
  assumes "Rebind a value r = (r', res)"
  obtains (rejected) reason where "r' = rejectLocked reason r" "res = Inl (Rejected reason)"
  | (same) "r' = r" "res = Inr ()" "CanonicalIP value = Some (le_sourceIP (r_leases r ! a))"
  | (moved) ip u where "r' = rebound a ip r" "res = Inr ()" "CanonicalIP value = Some ip"
      "ip \<noteq> le_sourceIP (r_leases r ! a)" "\<not> r_closed r" "\<not> le_revoked (r_leases r ! a)"
      "fmlookup (r_users r) (le_userID (r_leases r ! a)) = Some u" "ip \<notin> set (u_DisconnectIPs u)"
      "effectiveLimit (u_ConnectorLimit u) (r_nodeConnectors r) \<le> 0 \<or>
       fmget0 (sources_of r (le_userID (r_leases r ! a))) ip \<noteq> 0 \<or>
       int (fm_size (sources_of r (le_userID (r_leases r ! a)))) -
         (if fmget0 (sources_of r (le_userID (r_leases r ! a))) (le_sourceIP (r_leases r ! a)) = 1 then 1 else 0)
       < effectiveLimit (u_ConnectorLimit u) (r_nodeConnectors r)"
  using assms unfolding Rebind_def reject_def rebound_def moved_def Let_def
  by (auto split: option.splits if_splits)

lemma sources_of_upd_lease [simp]: "sources_of (upd_lease a f r) u = sources_of r u"
  by (simp add: upd_lease_def sources_of_def)

lemma rebound_leases: "r_leases (rebound a ip r) = (r_leases r)[a := moved ip (r_leases r ! a)]"
  by (simp add: rebound_def upd_lease_def)

lemma rebound_frame [simp]:
  "r_users (rebound a ip r) = r_users r" "r_limits (rebound a ip r) = r_limits r"
  "r_userLimiters (rebound a ip r) = r_userLimiters r" "r_nodeLimiter (rebound a ip r) = r_nodeLimiter r"
  "r_nodeSpeed (rebound a ip r) = r_nodeSpeed r" "r_closed (rebound a ip r) = r_closed r"
  "r_nodeConnectors (rebound a ip r) = r_nodeConnectors r"
  "r_handshakes (rebound a ip r) = r_handshakes r" "r_released (rebound a ip r) = r_released r"
  "r_nextID (rebound a ip r) = r_nextID r" "r_sessions (rebound a ip r) = r_sessions r"
  "r_tcp (rebound a ip r) = r_tcp r" "r_xudp (rebound a ip r) = r_xudp r"
  "r_userTCP (rebound a ip r) = r_userTCP r" "r_userXUDP (rebound a ip r) = r_userXUDP r"
  by (simp_all add: rebound_def upd_lease_def)

lemma sources_of_rebound:
  "sources_of (rebound a ip r) v = (if v = le_userID (r_leases r ! a)
     then fm_inc ip (fm_dec (le_sourceIP (r_leases r ! a)) (sources_of r v)) else sources_of r v)"
  by (simp add: rebound_def)

lemma counts_move:
  assumes "counts m f" and "x \<noteq> y" and "0 < f x"
    and "\<And>k. g k = (if k = x then f x - 1 else if k = y then Suc (f y) else f k)"
  shows "counts (fm_inc y (fm_dec x m)) g"
proof -
  have "g = (f(x := f x - 1))(y := Suc ((f(x := f x - 1)) y))" using assms(2,4) by auto
  with counts_inc [OF counts_dec [OF assms(1), of x], of y] show ?thesis by simp
qed

lemma sources_ok_rebound:
  assumes "sources_ok r" and "a < length (r_leases r)" and "\<not> le_once (r_leases r ! a)"
    and "ip \<noteq> le_sourceIP (r_leases r ! a)"
  shows "sources_ok (rebound a ip r)"
  unfolding sources_ok_def
proof (intro allI conjI)
  let ?l = "r_leases r ! a"
  fix u
  show "fmlookup (r_sources (rebound a ip r)) u \<noteq> Some fmempty"
    using assms(1) by (simp add: rebound_def upd_lease_def sources_ok_def sources_nonempty_add sources_nonempty_remove)
  have S: "counts (sources_of r u) (\<lambda>ip. cnt (\<lambda>l. le_userID l = u \<and> le_sourceIP l = ip) r)"
    using assms(1) by (simp add: sources_ok_def)
  have C: "cnt (\<lambda>l. le_userID l = u \<and> le_sourceIP l = k) (rebound a ip r)
        + (if le_userID ?l = u \<and> le_sourceIP ?l = k then 1 else 0)
      = cnt (\<lambda>l. le_userID l = u \<and> le_sourceIP l = k) r + (if le_userID ?l = u \<and> ip = k then 1 else 0)" for k
    using cnt_update [OF rebound_leases assms(2), of "\<lambda>l. le_userID l = u \<and> le_sourceIP l = k" ip] assms(3)
    by (simp add: moved_def)
  show "counts (sources_of (rebound a ip r) u)
      (\<lambda>ip'. cnt (\<lambda>l. le_userID l = u \<and> le_sourceIP l = ip') (rebound a ip r))"
  proof (cases "le_userID ?l = u")
    case True
    have "counts (fm_inc ip (fm_dec (le_sourceIP ?l) (sources_of r u)))
      (\<lambda>ip'. cnt (\<lambda>l. le_userID l = u \<and> le_sourceIP l = ip') (rebound a ip r))"
    proof (rule counts_move [OF S])
      show "le_sourceIP ?l \<noteq> ip" using assms(4) by simp
      show "0 < cnt (\<lambda>l. le_userID l = u \<and> le_sourceIP l = le_sourceIP ?l) r"
        using C [of "le_sourceIP ?l"] True assms(4) by simp
      show "cnt (\<lambda>l. le_userID l = u \<and> le_sourceIP l = k) (rebound a ip r) =
          (if k = le_sourceIP ?l then cnt (\<lambda>l. le_userID l = u \<and> le_sourceIP l = le_sourceIP ?l) r - 1
           else if k = ip then Suc (cnt (\<lambda>l. le_userID l = u \<and> le_sourceIP l = ip) r)
           else cnt (\<lambda>l. le_userID l = u \<and> le_sourceIP l = k) r)" for k
        using C [of k] True assms(4) by auto
    qed
    with True show ?thesis by (simp add: sources_of_rebound)
  next
    case False
    with S C show ?thesis by (simp add: sources_of_rebound)
  qed
qed

lemma reg_inv_rebind:
  assumes "inv_upto b r" and "a < length (r_leases r)" and "b \<longrightarrow> \<not> le_once (r_leases r ! a)"
  shows "inv_upto b (fst (Rebind a value r))"
proof (cases "Rebind a value r")
  case (Pair r' res)
  then show ?thesis
  proof (cases rule: Rebind_cases)
    case (moved ip u)
    let ?l = "r_leases r ! a"
    have cnt: "P (Session_Invariant.moved ip ?l) = P ?l \<Longrightarrow> cnt P r' = cnt P r" for P
      using cnt_update [OF rebound_leases assms(2), of P ip] unfolding moved(1)
      by (simp add: moved_def split: if_splits)
    have "ids_ok r'" using assms(1,2) unfolding reg_inv_def ids_ok_def moved(1) rebound_frame
      by (auto simp: rebound_leases nth_list_update moved_def)
    moreover have "counters_ok r' = counters_ok r" "limits_ok r' = limits_ok r"
      unfolding counters_ok_def limits_ok_def by (simp_all add: cnt moved_def) (simp_all add: moved(1))
    moreover have "policy_ok r'"
    proof (rule policy_ok_update [OF _ assms(2), of _ "Session_Invariant.moved ip ?l"])
      have l: "?l \<in> set (r_leases r)" using assms(2) by simp
      then show "complies r (Session_Invariant.moved ip ?l) \<and> \<not> r_closed r"
        if "\<not> le_once (Session_Invariant.moved ip ?l)" "\<not> le_revoked (Session_Invariant.moved ip ?l)"
        using that assms(1) moved(5,7,8) by (auto simp: reg_inv_def policy_ok_def complies_def moved_def)
      show "le_once (Session_Invariant.moved ip ?l) \<or> le_revoked (Session_Invariant.moved ip ?l) \<longrightarrow>
          le_cancelled (Session_Invariant.moved ip ?l)"
        using l assms(1) by (auto simp: reg_inv_def policy_ok_def moved_def)
    qed (use assms moved in \<open>simp_all add: reg_inv_def rebound_leases\<close>)
    ultimately show ?thesis
      using assms sources_ok_rebound [of r a ip] moved(1,4) Pair by (simp add: reg_inv_def)
  qed (use assms Pair in simp_all)
qed


subsection \<open>Revocation\<close>

lemma reg_books_map:
  assumes "\<And>l. lease_key (f l) = lease_key l"
  shows "ids_ok (r\<lparr>r_leases := map f (r_leases r)\<rparr>) = ids_ok r"
    and "counters_ok (r\<lparr>r_leases := map f (r_leases r)\<rparr>) = counters_ok r"
    and "sources_ok (r\<lparr>r_leases := map f (r_leases r)\<rparr>) = sources_ok r"
    and "limits_ok (r\<lparr>r_leases := map f (r_leases r)\<rparr>) = limits_ok r"
proof -
  have k: "le_id (f l) = le_id l" "le_userID (f l) = le_userID l" "le_sourceIP (f l) = le_sourceIP l"
    "le_kind (f l) = le_kind l" "le_once (f l) = le_once l" for l
    using assms [of l] by (simp_all add: lease_key_def)
  have c: "(\<And>l. P (f l) = P l) \<Longrightarrow> cnt P (r\<lparr>r_leases := map f (r_leases r)\<rparr>) = cnt P r" for P
    by (rule cnt_map [OF assms]) simp_all
  show "ids_ok (r\<lparr>r_leases := map f (r_leases r)\<rparr>) = ids_ok r"
    unfolding ids_ok_def by (auto simp: k cong: conj_cong)
  show "counters_ok (r\<lparr>r_leases := map f (r_leases r)\<rparr>) = counters_ok r"
    "sources_ok (r\<lparr>r_leases := map f (r_leases r)\<rparr>) = sources_ok r"
    "limits_ok (r\<lparr>r_leases := map f (r_leases r)\<rparr>) = limits_ok r"
    unfolding counters_ok_def sources_ok_def limits_ok_def by (simp_all add: c k sources_of_def)
qed

lemma policy_ok_revoke:
  assumes "\<forall>l \<in> set (r_leases r). \<not> le_once l \<longrightarrow> \<not> le_revoked l \<longrightarrow> \<not> h l \<longrightarrow> complies r l"
    and "r_nodeLimiter r = None \<longleftrightarrow> f64_le (r_nodeSpeed r) (Fin 0)"
    and "r_closed r \<longrightarrow> (\<forall>l \<in> set (r_leases r). \<not> le_once l \<longrightarrow> le_revoked l \<or> h l)"
    and "\<forall>l \<in> set (r_leases r). le_once l \<or> le_revoked l \<longrightarrow> le_cancelled l"
  shows "policy_ok (r\<lparr>r_leases := map (revoke h) (r_leases r)\<rparr>)"
proof -
  have c: "complies (r\<lparr>r_leases := ls\<rparr>) l = complies r l" for ls l by (rule complies_cong) simp_all
  show ?thesis using assms by (auto simp: policy_ok_def c revoke_def)
qed

lemma reg_inv_revoke:
  assumes "inv_upto b r"
  shows "inv_upto b (fst (revokeLocked users sources r))"
  using assms policy_ok_revoke [of r "hit users sources"]
  by (simp add: reg_inv_def revokeLocked_spec reg_books_map policy_ok_def)

lemma reg_inv_Close:
  assumes "inv_upto b r"
  shows "inv_upto b (fst (Close r))"
proof -
  let ?r = "r\<lparr>r_closed := True\<rparr>"
  have books: "ids_ok ?r = ids_ok r" "counters_ok ?r = counters_ok r" "sources_ok ?r = sources_ok r" "limits_ok ?r = limits_ok r"
    by (simp_all add: ids_ok_def counters_ok_def sources_ok_def limits_ok_def cnt_def sources_of_def)
  have c: "complies ?r l = complies r l" for l by (rule complies_cong) simp_all
  have "hit (fmdom (r_users r)) (\<lambda>_. []) l"
    if "l \<in> set (r_leases r)" "\<not> le_once l" "\<not> le_revoked l" for l
  proof -
    have "complies r l" using assms that by (simp add: reg_inv_def policy_ok_def)
    then have "le_userID l |\<in>| fmdom (r_users r)"
      by (auto simp: complies_def split: option.splits intro: fmdomI)
    with that show ?thesis by (simp add: hit_def)
  qed
  with assms have "policy_ok (?r\<lparr>r_leases := map (revoke (hit (fmdom (r_users r)) (\<lambda>_. []))) (r_leases ?r)\<rparr>)"
    by (intro policy_ok_revoke) (auto simp: reg_inv_def policy_ok_def c)
  with books assms show ?thesis
    using reg_books_map [of "revoke (hit (fmdom (r_users r)) (\<lambda>_. []))" ?r]
    by (simp add: Close_def revokeLocked_spec reg_inv_def)
qed

subsection \<open>Installing a snapshot\<close>

lemma f64_eqD: "f64_eq a b \<Longrightarrow> a = b"
  by (auto simp: f64_eq_def)

lemma newLimiter_None: "newLimiter gen owner mbps = None \<longleftrightarrow> f64_le mbps (Fin 0)"
  by (simp add: newLimiter_def Let_def)

lemma install_frame [simp]:
  "r_leases (installSnapshot s old r) = r_leases r" "r_sessions (installSnapshot s old r) = r_sessions r"
  "r_sources (installSnapshot s old r) = r_sources r" "r_userTCP (installSnapshot s old r) = r_userTCP r"
  "r_userXUDP (installSnapshot s old r) = r_userXUDP r" "r_tcp (installSnapshot s old r) = r_tcp r"
  "r_xudp (installSnapshot s old r) = r_xudp r" "r_handshakes (installSnapshot s old r) = r_handshakes r"
  "r_nextID (installSnapshot s old r) = r_nextID r" "r_closed (installSnapshot s old r) = r_closed r"
  "r_limits (installSnapshot s old r) = r_limits r" "r_released (installSnapshot s old r) = r_released r"
  "r_users (installSnapshot s old r) = userMap (s_Users s)"
  "r_nodeConnectors (installSnapshot s old r) = n_ConnectorLimit (s_Node s)"
  "r_nodeSpeed (installSnapshot s old r) = n_SpeedLimitMbps (s_Node s)"
  by (simp_all add: installSnapshot_def Let_def)

lemma install_books:
  "ids_ok (installSnapshot s old r) = ids_ok r" "counters_ok (installSnapshot s old r) = counters_ok r"
  "sources_ok (installSnapshot s old r) = sources_ok r" "limits_ok (installSnapshot s old r) = limits_ok r"
  by (simp_all add: ids_ok_def counters_ok_def sources_ok_def limits_ok_def cnt_def sources_of_def)

lemma install_node_limiter:
  assumes "r_nodeLimiter r = None \<longleftrightarrow> f64_le (r_nodeSpeed r) (Fin 0)"
  shows "r_nodeLimiter (installSnapshot s old r) = None \<longleftrightarrow>
      f64_le (r_nodeSpeed (installSnapshot s old r)) (Fin 0)"
    and "f64_eq (r_nodeSpeed r) (n_SpeedLimitMbps (s_Node s)) \<Longrightarrow>
      r_nodeLimiter (installSnapshot s (Some m) r) = r_nodeLimiter r"
  using assms
  by (auto simp: installSnapshot_def Let_def newLimiter_None dest: f64_eqD)

lemma install_limiter_of:
  assumes "fmlookup m uid = Some old" and "fmlookup (userMap (s_Users s)) uid = Some u"
    and "f64_eq (u_SpeedLimitMbps old) (u_SpeedLimitMbps u)"
  shows "limiter_of (installSnapshot s (Some m) r) uid = limiter_of r uid"
  using assms by (simp add: installSnapshot_def Let_def limiter_of_def)

definition update_hit :: "snapshot \<Rightarrow> registry \<Rightarrow> lease \<Rightarrow> bool" where
  "update_hit s r = hit (policy_revoked (r_users r) (userMap (s_Users s)) |\<union>|
       (if \<not> f64_eq (r_nodeSpeed r) (n_SpeedLimitMbps (s_Node s)) then fmdom (r_users r) else {||}))
     (source_revoked (r_users r) (userMap (s_Users s)))"

lemma update_hit_key: "lease_key (revoke (update_hit s r) l) = lease_key l"
  by simp

lemma update_keeps_compliance:
  assumes "complies r l" and "r_nodeLimiter r = None \<longleftrightarrow> f64_le (r_nodeSpeed r) (Fin 0)"
    and "\<not> le_once l" and "\<not> le_revoked l" and "\<not> update_hit s r l"
  shows "complies (installSnapshot s (Some (r_users r)) r) l"
proof -
  let ?uid = "le_userID l" and ?new = "userMap (s_Users s)"
  obtain u where u: "fmlookup (r_users r) ?uid = Some u" "le_sourceIP l \<notin> set (u_DisconnectIPs u)"
    using assms(1) by (auto simp: complies_def split: option.splits)
  then have dom: "?uid |\<in>| fmdom (r_users r)" by (simp add: fmdomI)
  have nothit: "?uid |\<notin>| policy_revoked (r_users r) ?new"
      "f64_eq (r_nodeSpeed r) (n_SpeedLimitMbps (s_Node s))"
      "le_sourceIP l \<notin> set (source_revoked (r_users r) ?new ?uid)"
    using assms(3-5) dom by (auto simp: update_hit_def hit_def split: if_splits)
  obtain v where v: "fmlookup ?new ?uid = Some v" "\<not> userPolicyWithoutDisconnectChanged u v"
    using nothit(1) dom u by (auto simp: policy_revoked_def split: option.splits)
  then have "f64_eq (u_SpeedLimitMbps u) (u_SpeedLimitMbps v)"
    by (simp add: userPolicyWithoutDisconnectChanged_def user_deep_equal_def)
  moreover have "le_sourceIP l \<notin> set (u_DisconnectIPs v)"
    using nothit(3) u v by (simp add: source_revoked_def new_disconnects_def)
  ultimately show ?thesis
    using assms(1,2) u v nothit(2) install_limiter_of [OF u(1) v(1)] install_node_limiter(2) [OF assms(2)]
    by (simp add: complies_def)
qed

lemma reg_inv_install_revoke:
  fixes r s
  assumes "inv_upto b r"
  defines "r1 \<equiv> installSnapshot s (Some (r_users r)) r"
  shows "inv_upto b (r1\<lparr>r_leases := map (revoke (update_hit s r)) (r_leases r1)\<rparr>)"
proof -
  have P: "policy_ok r" using assms by (simp add: reg_inv_def)
  have "policy_ok (r1\<lparr>r_leases := map (revoke (update_hit s r)) (r_leases r1)\<rparr>)"
    using P update_keeps_compliance [of r _ s] install_node_limiter(1) [of r s "Some (r_users r)"]
    by (intro policy_ok_revoke) (auto simp: policy_ok_def r1_def)
  with assms(1) show ?thesis
    using reg_books_map [of "revoke (update_hit s r)" r1, OF update_hit_key]
    by (simp add: reg_inv_def r1_def install_books)
qed

lemma Update_unfold:
  assumes "ids_ok r"
  shows "Update s r = (let r1 = installSnapshot s (Some (r_users r)) r;
      r2 = r1\<lparr>r_leases := map (revoke (update_hit s r)) (r_leases r)\<rparr>
    in case enforceConnectorsLocked r2 of
        None \<Rightarrow> None
      | Some (r3, cs, us) \<Rightarrow> Some (r3, interrupts (update_hit s r) (r_leases r) @ cs,
          sorted_list_of_fset (policy_revoked (r_users r) (userMap (s_Users s)) |\<union>|
            (if \<not> f64_eq (r_nodeSpeed r) (n_SpeedLimitMbps (s_Node s)) then fmdom (r_users r) else {||}) |\<union>|
            ffilter (\<lambda>uid. source_revoked (r_users r) (userMap (s_Users s)) uid \<noteq> []) (fmdom (r_users r)) |\<union>|
            fset_of_list us)))"
  unfolding Update_def update_hit_def Let_def
  using assms by (simp add: revokeLocked_spec install_books split del: if_split)

lemma reg_inv_enforce_user:
  "inv_upto b r \<Longrightarrow> enforce_user uid r = Some (r', cs, changed) \<Longrightarrow> inv_upto b r'"
  using reg_inv_revoke [of b r]
  by (auto simp: enforce_user_def Let_def split: option.splits if_splits prod.splits) (metis fst_conv)+

lemma reg_inv_enforce_loop:
  "inv_upto b r \<Longrightarrow> enforce_loop uids r = Some (r', cs, us) \<Longrightarrow> inv_upto b r'"
  by (induction uids arbitrary: r r' cs us)
    (fastforce split: option.splits prod.splits dest: reg_inv_enforce_user)+

lemma reg_inv_Update:
  assumes "inv_upto b r" and "Update s r = Some (r', cs, us)"
  shows "inv_upto b r'"
proof -
  have "ids_ok r" using assms by (simp add: reg_inv_def)
  with assms show ?thesis
    using reg_inv_install_revoke [OF assms(1), of s]
    by (auto simp: Update_unfold Let_def enforceConnectorsLocked_def split: option.splits
        dest: reg_inv_enforce_loop)
qed

lemma reg_inv_New:
  assumes "\<not> limits_bad (c_Limits cfg)"
  shows "inv_upto b (New s cfg)"
  using assms
  by (auto simp: New_def reg_inv_def ids_ok_def counters_ok_def sources_ok_def limits_ok_def policy_ok_def
      cnt_def sources_of_def counts_def limits_bad_def installSnapshot_def Let_def newLimiter_None)

end
