(* ===== verification/Session_Machine.thy ===== *)
theory Session_Machine
  imports Session_Invariant
begin

text \<open>
  The session registry as a machine whose steps are the critical sections of its operations, in
  any interleaving, and the properties of its runs: exact books, limits, compliance of every running
  session with the snapshot in force, revocation and its callbacks, the connector limit, and what
  goes wrong when a limit change meets running sessions.
\<close>

subsection \<open>The machine\<close>

record machine =
  m_reg :: registry
  m_called :: "nat list"
  m_crashed :: bool

datatype event =
    Acquire request
  | Release nat
  | Prepare "addr list option" request
  | Commit pending
  | UpdateTo snapshot
  | Revoke "int64 list"
  | CloseAll
  | Bind nat "nat option"
  | Rebinding nat string
  | CloseLease nat

text \<open>The registry after an operation, with the callbacks it invoked appended to those before.\<close>

definition after :: "machine \<Rightarrow> registry \<times> nat list \<Rightarrow> machine" where
  "after m rc = m\<lparr>m_reg := fst rc, m_called := m_called m @ snd rc\<rparr>"

fun perform :: "machine \<Rightarrow> event \<Rightarrow> machine" where
  "perform m (Acquire q) = after m (fst (AcquireHandshake (m_reg m) q), [])"
| "perform m (Release h) = after m (release_handshake h (m_reg m), [])"
| "perform m (Prepare answer q) = after m (fst (Open_prepare (\<lambda>_. answer) (m_reg m) q), [])"
| "perform m (Commit p) = after m (fst (Open_commit (m_reg m) p), [])"
| "perform m (UpdateTo s) =
     (case Update s (m_reg m) of
        None \<Rightarrow> m\<lparr>m_crashed := True\<rparr>
      | Some (r, cs, us) \<Rightarrow> after m (r, cs))"
| "perform m (Revoke ids) = after m (RevokeUsers ids (m_reg m))"
| "perform m CloseAll = after m (Close (m_reg m))"
| "perform m (Bind a f) = after m (BindInterrupt a f (m_reg m))"
| "perform m (Rebinding a value) = after m (fst (Rebind a value (m_reg m)), [])"
| "perform m (CloseLease a) = after m (lease_Close a (m_reg m), [])"

definition session_step :: "machine \<Rightarrow> event \<Rightarrow> machine" where
  "session_step m e = (if m_crashed m then m else perform m e)"

definition boot :: "snapshot \<Rightarrow> config \<Rightarrow> machine" where
  "boot s cfg = \<lparr>m_reg = New s cfg, m_called = [], m_crashed = False\<rparr>"

text \<open>
  What holds of every run: the data plane calls the methods of leases it was given, and fewer than
  \<open>2 ^ 64 - 1\<close> sessions are opened in the life of a process.
\<close>

fun allowed :: "machine \<Rightarrow> event \<Rightarrow> bool" where
  "allowed m (Commit p) = (int (length (r_leases (m_reg m))) + 1 < 2 ^ 64)"
| "allowed m (Bind a f) = (a < length (r_leases (m_reg m)))"
| "allowed m (Rebinding a value) = (a < length (r_leases (m_reg m)))"
| "allowed m (CloseLease a) = (a < length (r_leases (m_reg m)))"
| "allowed m e = True"

text \<open>
  What does not hold of every run: that a lease is not moved after it was closed. \<^verbatim>\<open>Rebind\<close> does not check
  it, and the theory \<open>Xudp_Session\<close> shows where the data plane does it. What depends on it says so.
\<close>

fun in_order :: "machine \<Rightarrow> event \<Rightarrow> bool" where
  "in_order m (Rebinding a value) = (\<not> le_once (r_leases (m_reg m) ! a))"
| "in_order m e = True"

lemma after_simps [simp]:
  "m_reg (after m rc) = fst rc" "m_called (after m rc) = m_called m @ snd rc"
  "m_crashed (after m rc) = m_crashed m"
  by (simp_all add: after_def)

lemma ids_left: "int n + 1 < 2 ^ 64 \<Longrightarrow> Suc n < 2 ^ 64"
  by simp

lemma reg_inv_perform:
  assumes "inv_upto b (m_reg m)" and "allowed m e" and "b \<longrightarrow> in_order m e"
  shows "inv_upto b (m_reg (perform m e))"
  using assms
  by (cases e)
    (auto simp: reg_inv_handshake reg_inv_prepare reg_inv_commit [OF _ ids_left] reg_inv_Close reg_inv_bind
      reg_inv_rebind reg_inv_close RevokeUsers_def reg_inv_revoke split: option.split
      dest: reg_inv_Update)

interpretation reg: step_invariant session_step "\<lambda>m e. allowed m e \<and> (b \<longrightarrow> in_order m e)" "\<lambda>m. inv_upto b (m_reg m)" for b
  by unfold_locales (simp add: session_step_def reg_inv_perform)

text \<open>The states that a run reaches from the start, and the runs that move open leases only.\<close>

definition reaches :: "snapshot \<Rightarrow> config \<Rightarrow> event list \<Rightarrow> registry \<Rightarrow> bool" where
  "reaches s cfg es r \<longleftrightarrow> \<not> limits_bad (c_Limits cfg) \<and> enabled_run session_step allowed (boot s cfg) es \<and>
     r = m_reg (run session_step (boot s cfg) es)"

definition moves_open_leases :: "snapshot \<Rightarrow> config \<Rightarrow> event list \<Rightarrow> bool" where
  "moves_open_leases s cfg es \<longleftrightarrow> enabled_run session_step in_order (boot s cfg) es"

lemma enabled_run_conj:
  "enabled_run step (\<lambda>s e. P s e \<and> Q s e) s es \<longleftrightarrow> enabled_run step P s es \<and> enabled_run step Q s es"
  by (induction es arbitrary: s) auto

lemma reaches_upto:
  assumes "reaches s cfg es r" and "b \<longrightarrow> moves_open_leases s cfg es"
  shows "inv_upto b r"
proof -
  have "enabled_run session_step (\<lambda>m e. allowed m e \<and> (b \<longrightarrow> in_order m e)) (boot s cfg) es"
    using assms by (cases b) (simp_all add: reaches_def moves_open_leases_def enabled_run_conj)
  moreover have "inv_upto b (m_reg (boot s cfg))" using assms(1) by (simp add: boot_def reaches_def reg_inv_New)
  ultimately show ?thesis using reg.inv_run assms(1) by (auto simp: reaches_def)
qed

lemma reaches_core: "reaches s cfg es r \<Longrightarrow> core_inv r"
  using reaches_upto [of s cfg es r False] by simp

lemma reaches_inv: "reaches s cfg es r \<Longrightarrow> moves_open_leases s cfg es \<Longrightarrow> reg_inv r"
  using reaches_upto [of s cfg es r True] by simp

lemma reaches_parts:
  assumes "reaches s cfg es r"
  shows "ids_ok r" "counters_ok r" "limits_ok r" "policy_ok r"
  using reaches_core [OF assms] by (simp_all add: reg_inv_def)

definition live :: "registry \<Rightarrow> lease set" where
  "live r = {l \<in> set (r_leases r). \<not> le_once l}"

lemma cnt_pos: "0 < cnt P r \<longleftrightarrow> (\<exists>l \<in> live r. P l)"
  by (auto simp: cnt_def live_def filter_empty_conv)

lemma cnt_0: "cnt P r = 0 \<longleftrightarrow> (\<forall>l \<in> live r. \<not> P l)"
  using cnt_pos [of P r] by auto

lemma user_counts:
  assumes "counters_ok r"
  shows "fmget0 (r_userTCP r) u = int (cnt (\<lambda>l. le_kind l = TCP \<and> le_userID l = u) r)"
    and "fmget0 (r_userXUDP r) u = int (cnt (\<lambda>l. le_kind l = XUDP \<and> le_userID l = u) r)"
  using assms counts_get [of "r_userTCP r" "\<lambda>u. cnt (\<lambda>l. le_kind l = TCP \<and> le_userID l = u) r" u]
    counts_get [of "r_userXUDP r" "\<lambda>u. cnt (\<lambda>l. le_kind l = XUDP \<and> le_userID l = u) r" u]
  by (simp_all add: counters_ok_def)

lemma source_counts:
  assumes "sources_ok r"
  shows "fmget0 (sources_of r u) ip = int (cnt (\<lambda>l. le_userID l = u \<and> le_sourceIP l = ip) r)"
    and "ip |\<in>| fmdom (sources_of r u) \<longleftrightarrow> (\<exists>l \<in> live r. le_userID l = u \<and> le_sourceIP l = ip)"
    and "fm_size (sources_of r u) = card {ip. \<exists>l \<in> live r. le_userID l = u \<and> le_sourceIP l = ip}"
proof -
  have S: "counts (sources_of r u) (\<lambda>ip. cnt (\<lambda>l. le_userID l = u \<and> le_sourceIP l = ip) r)"
    using assms by (simp add: sources_ok_def)
  from counts_get [OF S] counts_dom [OF S] counts_size [OF S]
  show "fmget0 (sources_of r u) ip = int (cnt (\<lambda>l. le_userID l = u \<and> le_sourceIP l = ip) r)"
    and "ip |\<in>| fmdom (sources_of r u) \<longleftrightarrow> (\<exists>l \<in> live r. le_userID l = u \<and> le_sourceIP l = ip)"
    and "fm_size (sources_of r u) = card {ip. \<exists>l \<in> live r. le_userID l = u \<and> le_sourceIP l = ip}"
    by (simp_all add: cnt_pos)
qed

text \<open>Revocation changes leases only.\<close>

definition body :: "registry \<Rightarrow> registry" where
  "body r = r\<lparr>r_leases := []\<rparr>"

lemma body_eqD:
  assumes "body r' = body r"
  shows "r_limits r' = r_limits r" "r_users r' = r_users r" "r_nodeConnectors r' = r_nodeConnectors r"
    "r_sources r' = r_sources r" "sources_of r' uid = sources_of r uid" "r_sessions r' = r_sessions r"
    "r_closed r' = r_closed r"
  using assms by (cases r; cases r'; simp add: body_def sources_of_def)+

lemma body_revoke [simp]: "body (fst (revokeLocked users sources r)) = body r"
  by (simp add: revokeLocked_def body_def split: prod.split)

lemma body_enforce_user: "enforce_user uid r = Some (r', cs, b) \<Longrightarrow> body r' = body r"
  using body_revoke [of "{||}" _ r]
  by (auto simp: enforce_user_def Let_def split: option.splits if_splits prod.splits) (metis fst_conv body_revoke)

lemma body_enforce_loop: "enforce_loop uids r = Some (r', cs, us) \<Longrightarrow> body r' = body r"
  by (induction uids arbitrary: r r' cs us)
    (fastforce split: option.splits prod.splits dest: body_enforce_user)+

lemma body_Update:
  assumes "Update s r = Some (r', cs, us)"
  shows "body r' = body (installSnapshot s (Some (r_users r)) r)"
proof -
  obtain users sources r2 cs2 where "revokeLocked users sources (installSnapshot s (Some (r_users r)) r) = (r2, cs2)"
      "\<exists>cs3 us3. enforceConnectorsLocked r2 = Some (r', cs3, us3)"
    using assms by (fastforce simp: Update_def Let_def split: option.splits prod.splits)
  then show ?thesis
    using body_enforce_loop body_revoke unfolding enforceConnectorsLocked_def by (metis fst_conv)
qed

lemma r_limits_Update: "Update s r = Some (r', cs, us) \<Longrightarrow> r_limits r' = r_limits r"
  using body_eqD(1) [OF body_Update, of s r r' cs us] by simp

lemma r_limits_revoke [simp]: "r_limits (fst (revokeLocked users sources r)) = r_limits r"
  by (rule body_eqD(1)) simp

lemma r_limits_Open_commit [simp]: "r_limits (fst (Open_commit r p)) = r_limits r"
  by (auto simp: Open_commit_def reject_def rejectLocked_def split: option.split)

lemma r_limits_Open_prepare [simp]: "r_limits (fst (Open_prepare lookup r q)) = r_limits r"
  by (auto simp: Open_prepare_def reject_def rejectLocked_def split: option.split sum.split)

lemma r_limits_Rebind [simp]: "r_limits (fst (Rebind a value r)) = r_limits r"
proof (cases "Rebind a value r")
  case (Pair r' res)
  then have "r_limits r' = r_limits r" by (cases rule: Rebind_cases) (simp_all add: rejectLocked_def)
  with Pair show ?thesis by simp
qed

lemma r_limits_perform: "r_limits (m_reg (perform m e)) = r_limits (m_reg m)"
  by (cases e)
    (auto simp: AcquireHandshake_def rejectLocked_def release_handshake_def RevokeUsers_def Close_def
      BindInterrupt_def upd_lease_def split: option.split dest: r_limits_Update)

interpretation lims: step_invariant session_step "\<lambda>_ _. True" "\<lambda>m. r_limits (m_reg m) = L" for L
  by unfold_locales (simp add: session_step_def r_limits_perform)

lemma reaches_limits: "reaches s cfg es r \<Longrightarrow> r_limits r = c_Limits cfg"
proof -
  have "r_limits (m_reg (boot s cfg)) = c_Limits cfg"
    by (simp add: boot_def New_def)
  then show "reaches s cfg es r \<Longrightarrow> r_limits r = c_Limits cfg"
    using lims.inv_run [of "boot s cfg" "c_Limits cfg" es] by (simp add: reaches_def)
qed

subsection \<open>A sample run\<close>

definition sample_pending :: "string \<Rightarrow> pending" where
  "sample_pending ip = \<lparr>p_userID = 2, p_sourceIP = ip, p_kind = TCP, p_port = 443,
     p_addresses = [''0.0.0.1''], p_resolved = []\<rparr>"

definition node_limit :: "int \<Rightarrow> snapshot" where
  "node_limit n = (sample_snapshot [sample_user 2])\<lparr>s_Node := sample_node\<lparr>n_ConnectorLimit := n\<rparr>\<rparr>"

definition sample_machine :: "event list \<Rightarrow> machine" where
  "sample_machine es = run session_step (boot (node_limit 2) (defaults sample_config)) es"

definition two_sessions :: "event list" where
  "two_sessions = [Commit (sample_pending ''0.0.0.8''), Commit (sample_pending ''0.0.0.9'')]"

lemma sample_limits: "\<not> limits_bad (c_Limits (defaults sample_config))"
  by code_simp

lemma sample_reaches:
  "enabled_run session_step allowed (boot (node_limit 2) (defaults sample_config)) es \<Longrightarrow>
   reaches (node_limit 2) (defaults sample_config) es (m_reg (sample_machine es))"
  by (simp add: reaches_def sample_limits sample_machine_def)

lemma two_sessions_reached:
  "reaches (node_limit 2) (defaults sample_config) two_sessions (m_reg (sample_machine two_sessions))"
  by (rule sample_reaches) code_simp

lemma two_sessions_in_order: "moves_open_leases (node_limit 2) (defaults sample_config) two_sessions"
  by code_simp

lemma closed_reached:
  "reaches (node_limit 2) (defaults sample_config) (two_sessions @ [CloseLease 0, CloseAll])
     (m_reg (sample_machine (two_sessions @ [CloseLease 0, CloseAll])))"
  by (rule sample_reaches) code_simp

subsection \<open>Books and limits\<close>

lemma some_kind: "(\<exists>l \<in> A. le_kind l = TCP \<and> P l) \<or> (\<exists>l \<in> A. le_kind l = XUDP \<and> P l) \<longleftrightarrow> (\<exists>l \<in> A. P l)"
  using kind.exhaust by blast

text \<open>C4: The books are exact. After any interleaving of operations, the active TCP and XUDP
  counts of \<^verbatim>\<open>Metrics\<close> are the numbers of sessions that were opened and not closed, and \<^verbatim>\<open>HasUserSessions\<close>
  holds for exactly the users with such a session. If no lease was moved after it was closed, \<^verbatim>\<open>Online\<close>
  reports for each user exactly the source addresses of such sessions.\<close>

theorem session_books_exact:
  assumes "reaches s cfg es r"
  shows "mt_TCPActive (Metrics r) = int (length (filter (\<lambda>l. \<not> le_once l \<and> le_kind l = TCP) (r_leases r))) \<and>
    mt_XUDPActive (Metrics r) = int (length (filter (\<lambda>l. \<not> le_once l \<and> le_kind l = XUDP) (r_leases r))) \<and>
    (\<forall>uid. HasUserSessions r uid \<longleftrightarrow> (\<exists>l \<in> live r. le_userID l = uid)) \<and>
    (moves_open_leases s cfg es \<longrightarrow>
      (\<forall>uid ip. (\<exists>m. fmlookup (Online now r) uid = Some m \<and> fmlookup m ip = Some now) \<longleftrightarrow>
        (\<exists>l \<in> live r. le_userID l = uid \<and> le_sourceIP l = ip)))"
proof (intro conjI allI impI)
  note C = reaches_parts(2) [OF assms]
  show "mt_TCPActive (Metrics r) = int (length (filter (\<lambda>l. \<not> le_once l \<and> le_kind l = TCP) (r_leases r)))"
    "mt_XUDPActive (Metrics r) = int (length (filter (\<lambda>l. \<not> le_once l \<and> le_kind l = XUDP) (r_leases r)))"
    using C by (simp_all add: counters_ok_def Metrics_def cnt_def)
  fix uid
  show "HasUserSessions r uid \<longleftrightarrow> (\<exists>l \<in> live r. le_userID l = uid)"
    using C by (simp add: HasUserSessions_def user_counts cnt_pos some_kind)
next
  fix uid ip
  assume "moves_open_leases s cfg es"
  then have "sources_ok r" using reaches_inv [OF assms] by (simp add: reg_inv_def)
  note source_counts(2) [OF this, of ip uid]
  then show "(\<exists>m. fmlookup (Online now r) uid = Some m \<and> fmlookup m ip = Some now) \<longleftrightarrow>
       (\<exists>l \<in> live r. le_userID l = uid \<and> le_sourceIP l = ip)"
    by (auto simp: Online_def sources_of_def fmlookup_dom_iff split: option.splits)
qed

theorem session_books_exact_witness:
  "mt_TCPActive (Metrics (m_reg (sample_machine two_sessions))) = 2 \<and>
   (\<exists>l \<in> live (m_reg (sample_machine two_sessions)). le_userID l = 2) \<and>
   (\<exists>m. fmlookup (Online 9 (m_reg (sample_machine two_sessions))) 2 = Some m \<and> fmlookup m ''0.0.0.8'' = Some 9)"
proof -
  let ?r = "m_reg (sample_machine two_sessions)"
  note W = session_books_exact [OF two_sessions_reached, of 9]
  have "length (filter (\<lambda>l. \<not> le_once l \<and> le_kind l = TCP) (r_leases ?r)) = 2" and "HasUserSessions ?r 2"
    and l: "0 < length (r_leases ?r)" "\<not> le_once (r_leases ?r ! 0)" "le_userID (r_leases ?r ! 0) = 2"
      "le_sourceIP (r_leases ?r ! 0) = ''0.0.0.8''"
    by code_simp+
  moreover have "r_leases ?r ! 0 \<in> live ?r" using l by (simp add: live_def)
  ultimately show ?thesis using W two_sessions_in_order by auto
qed

text \<open>C3: The configured limits hold at every moment. In every reachable state the sessions per
  kind stay within the global limit, those of each user within the per-user limit, and the
  handshakes in progress within theirs.\<close>

theorem session_limits_hold:
  assumes "reaches s cfg es r"
  shows "r_tcp r \<le> l_TCPGlobal (c_Limits cfg) \<and> r_xudp r \<le> l_XUDPGlobal (c_Limits cfg) \<and>
    fmget0 (r_userTCP r) uid \<le> l_TCPPerUser (c_Limits cfg) \<and>
    fmget0 (r_userXUDP r) uid \<le> l_XUDPPerUser (c_Limits cfg) \<and>
    0 \<le> r_handshakes r \<and> r_handshakes r \<le> l_ConcurrentHandshakes (c_Limits cfg)"
  using reaches_parts(2,3) [OF assms] reaches_limits [OF assms]
  by (simp add: user_counts) (simp add: limits_ok_def counters_ok_def)

theorem session_limits_hold_witness:
  "r_tcp (m_reg (sample_machine two_sessions)) \<le> 3000 \<and> fmget0 (r_userTCP (m_reg (sample_machine two_sessions))) 2 \<le> 800"
proof -
  have "l_TCPGlobal (c_Limits (defaults sample_config)) = 3000" "l_TCPPerUser (c_Limits (defaults sample_config)) = 800"
    by code_simp+
  with session_limits_hold [OF two_sessions_reached, of 2] show ?thesis by simp
qed

text \<open>C7: Every running session complies with the snapshot in force. In every reachable state, a
  session that is neither closed nor revoked belongs to a user of the snapshot, does not come from a
  disconnected source of that user, and is throttled by exactly the limiters the registry holds for the
  user and the node, so replacing a limiter never leaves a session on the old one.\<close>

theorem running_sessions_comply:
  assumes "reaches s cfg es r" and "l \<in> set (r_leases r)" and "\<not> le_once l" and "\<not> le_revoked l"
  shows "\<exists>u. fmlookup (r_users r) (le_userID l) = Some u \<and> \<not> contains (u_DisconnectIPs u) (le_sourceIP l) \<and>
    le_userRate l = limiter_of r (le_userID l) \<and> le_nodeRate l = r_nodeLimiter r"
proof -
  have "complies r l" using reaches_parts(4) [OF assms(1)] assms(2-) by (simp add: policy_ok_def)
  then show ?thesis by (auto simp: complies_def split: option.splits)
qed

theorem running_sessions_comply_witness:
  "le_nodeRate (r_leases (m_reg (sample_machine two_sessions)) ! 1) = r_nodeLimiter (m_reg (sample_machine two_sessions))"
proof -
  let ?r = "m_reg (sample_machine two_sessions)"
  have "1 < length (r_leases ?r)" "\<not> le_once (r_leases ?r ! 1)" "\<not> le_revoked (r_leases ?r ! 1)"
    by code_simp+
  with running_sessions_comply [OF two_sessions_reached, of "r_leases ?r ! 1"] show ?thesis by force
qed

text \<open>C14: Closing the registry ends everything. In every reachable state in which \<^verbatim>\<open>Close\<close> was
  called, each session is closed or revoked with its context cancelled, \<^verbatim>\<open>Open\<close> admits no session and
  \<^verbatim>\<open>AcquireHandshake\<close> no handshake.\<close>

theorem closed_registry_is_final:
  assumes "reaches s cfg es r" and "r_closed r"
  shows "(\<forall>l \<in> set (r_leases r). le_cancelled l \<and> (le_once l \<or> le_revoked l)) \<and>
    (\<exists>reason. Open_commit r p = (rejectLocked reason r, Inl (Rejected reason))) \<and>
    (q_InboundTag q = inboundTag \<longrightarrow>
       AcquireHandshake r q = (rejectLocked ''handshake_limit'' r, Inl HandshakeLimit))"
  using reaches_parts(4) [OF assms(1)] assms(2)
  by (auto simp: policy_ok_def Open_commit_def AcquireHandshake_def reject_def split: option.splits)

theorem closed_registry_is_final_witness:
  "le_cancelled (r_leases (m_reg (sample_machine (two_sessions @ [CloseLease 0, CloseAll]))) ! 1)"
proof -
  let ?r = "m_reg (sample_machine (two_sessions @ [CloseLease 0, CloseAll]))"
  have "r_closed ?r" and "1 < length (r_leases ?r)" by code_simp+
  with closed_registry_is_final [OF closed_reached] nth_mem show ?thesis by blast
qed

subsection \<open>Interrupt callbacks\<close>

definition bound :: "lease list \<Rightarrow> nat list" where
  "bound ls = List.map_filter le_interrupt ls"

definition irq_ok :: "nat list \<Rightarrow> lease list \<Rightarrow> bool" where
  "irq_ok called ls \<longleftrightarrow> distinct (bound ls) \<and> (\<forall>l \<in> set ls. \<forall>f. le_interrupt l = Some f \<longrightarrow>
     count_list called f = (if le_revoked l then 1 else 0))"

lemma bound_simps [simp]:
  "bound [] = []"
  "bound (l # ls) = (case le_interrupt l of None \<Rightarrow> bound ls | Some f \<Rightarrow> f # bound ls)"
  by (auto simp: bound_def map_filter_simps split: option.split)

lemma set_bound: "f \<in> set (bound ls) \<longleftrightarrow> (\<exists>l \<in> set ls. le_interrupt l = Some f)"
  by (induction ls) (auto split: option.split)

lemma bound_append [simp]: "bound (xs @ ys) = bound xs @ bound ys"
  by (induction xs) (auto split: option.split)

lemma bound_map: "(\<And>l. le_interrupt (g l) = le_interrupt l) \<Longrightarrow> bound (map g ls) = bound ls"
  by (induction ls) (auto split: option.split)

lemma bound_unique:
  "distinct (bound ls) \<Longrightarrow> l \<in> set ls \<Longrightarrow> k \<in> set ls \<Longrightarrow> le_interrupt l = Some f \<Longrightarrow>
   le_interrupt k = Some f \<Longrightarrow> l = k"
  by (induction ls) (auto simp: set_bound split: option.splits)

lemma count_interrupts_Cons:
  "count_list (interrupts h (l # ls)) f =
     (if h l \<and> le_interrupt l = Some f then 1 else 0) + count_list (interrupts h ls) f"
  by (cases "h l"; cases "le_interrupt l"; simp)

lemma count_interrupts:
  "distinct (bound ls) \<Longrightarrow> count_list (interrupts h ls) f =
     (if list_ex (\<lambda>l. h l \<and> le_interrupt l = Some f) ls then 1 else 0)"
proof (induction ls)
  case (Cons l ls)
  have D: "distinct (bound ls)" using Cons.prems by (cases "le_interrupt l") simp_all
  have U: "\<not> list_ex (\<lambda>l. h l \<and> le_interrupt l = Some f) ls" if "le_interrupt l = Some f"
    using Cons.prems that by (auto simp: set_bound list_ex_iff)
  show ?case
    unfolding count_interrupts_Cons Cons.IH [OF D] using U by (cases "le_interrupt l = Some f") simp_all
qed simp

lemma irq_ok_revoke:
  assumes "irq_ok called ls" and "\<And>l. h l \<Longrightarrow> \<not> le_revoked l"
  shows "irq_ok (called @ interrupts h ls) (map (revoke h) ls)"
  unfolding irq_ok_def
proof (intro conjI ballI allI impI)
  have D: "distinct (bound ls)" using assms(1) by (simp add: irq_ok_def)
  then show "distinct (bound (map (revoke h) ls))" by (simp add: bound_map revoke_def)
  fix l' f
  assume "l' \<in> set (map (revoke h) ls)" and f: "le_interrupt l' = Some f"
  then obtain l where l: "l \<in> set ls" "l' = revoke h l" by auto
  with f have lf: "le_interrupt l = Some f" by (simp add: revoke_def split: if_splits)
  have "list_ex (\<lambda>k. h k \<and> le_interrupt k = Some f) ls \<longleftrightarrow> h l"
    unfolding list_ex_iff using bound_unique [OF D l(1) _ lf] l(1) lf by blast
  moreover have "count_list called f = (if le_revoked l then 1 else 0)"
    using assms(1) l(1) lf by (simp add: irq_ok_def)
  ultimately show "count_list (called @ interrupts h ls) f = (if le_revoked l' then 1 else 0)"
    using assms(2) [of l] l(2) by (simp add: count_interrupts [OF D] revoke_def)
qed

lemma hit_not_revoked: "hit users sources l \<Longrightarrow> \<not> le_revoked l"
  by (simp add: hit_def)

lemma irq_ok_revokeLocked:
  assumes "ids_ok r" and "irq_ok called (r_leases r)" and "revokeLocked users sources r = (r', cs)"
  shows "irq_ok (called @ cs) (r_leases r')"
  using assms irq_ok_revoke [OF assms(2), of "hit users sources"] hit_not_revoked
  by (auto simp: revokeLocked_spec)

lemma irq_ok_enforce_user:
  assumes "ids_ok r" and "irq_ok called (r_leases r)" and "enforce_user uid r = Some (r', cs, b)"
  shows "irq_ok (called @ cs) (r_leases r')"
  using assms irq_ok_revokeLocked [OF assms(1,2)]
  by (auto simp: enforce_user_def Let_def split: option.splits if_splits prod.splits)

lemma irq_ok_enforce_loop:
  "inv_upto k r \<Longrightarrow> irq_ok called (r_leases r) \<Longrightarrow> enforce_loop uids r = Some (r', cs, us) \<Longrightarrow>
   irq_ok (called @ cs) (r_leases r')"
proof (induction uids arbitrary: r called r' cs us)
  case (Cons uid uids)
  then obtain r1 cs1 b cs2 us2 where 1: "enforce_user uid r = Some (r1, cs1, b)"
      and 2: "enforce_loop uids r1 = Some (r', cs2, us2)" and cs: "cs = cs1 @ cs2"
    by (auto split: option.splits prod.splits)
  have "irq_ok (called @ cs1) (r_leases r1)"
    using irq_ok_enforce_user [OF _ Cons.prems(2) 1] Cons.prems(1) by (simp add: reg_inv_def)
  from Cons.IH [OF reg_inv_enforce_user [OF Cons.prems(1) 1] this 2] show ?case by (simp add: cs)
qed simp

lemma irq_ok_Update:
  assumes "inv_upto k r" and "irq_ok called (r_leases r)" and "Update s r = Some (r', cs, us)"
  shows "irq_ok (called @ cs) (r_leases r')"
proof -
  let ?r1 = "installSnapshot s (Some (r_users r)) r"
  let ?r2 = "?r1\<lparr>r_leases := map (revoke (update_hit s r)) (r_leases r)\<rparr>"
  have "ids_ok r" using assms(1) by (simp add: reg_inv_def)
  then obtain cs2 us2 where E: "enforce_loop (sorted_list_of_fset (fmdom (r_sources ?r2))) ?r2 = Some (r', cs2, us2)"
      and cs: "cs = interrupts (update_hit s r) (r_leases r) @ cs2"
    using assms(3) by (auto simp: Update_unfold Let_def enforceConnectorsLocked_def split: option.splits)
  have "irq_ok (called @ interrupts (update_hit s r) (r_leases r)) (r_leases ?r2)"
    using irq_ok_revoke [OF assms(2), of "update_hit s r"] by (simp add: update_hit_def hit_not_revoked)
  moreover have "inv_upto k ?r2" using reg_inv_install_revoke [OF assms(1), of s] by simp
  ultimately show ?thesis using irq_ok_enforce_loop E unfolding cs by (metis append_assoc)
qed

text \<open>Each lease is given one callback, which no other lease has.\<close>

fun allowed_once :: "machine \<Rightarrow> event \<Rightarrow> bool" where
  "allowed_once m (Bind a f) =
     (a < length (r_leases (m_reg m)) \<and> le_interrupt (r_leases (m_reg m) ! a) = None \<and>
      (case f of None \<Rightarrow> True
       | Some c \<Rightarrow> c \<notin> set (m_called m) \<and> c \<notin> set (bound (r_leases (m_reg m)))))"
| "allowed_once m e = allowed m e"

lemma allowed_once_allowed: "allowed_once m e \<Longrightarrow> allowed m e"
  by (cases e) auto

lemma bound_update:
  assumes "a < length ls" and "le_interrupt l = le_interrupt (ls ! a)"
  shows "bound (ls[a := l]) = bound ls"
  using assms
proof (induction ls arbitrary: a)
  case (Cons k ls)
  then show ?case by (cases a) (auto split: option.split)
qed simp

lemma irq_ok_update:
  assumes "irq_ok called ls" and "a < length ls" and "le_interrupt l = le_interrupt (ls ! a)"
    and "le_revoked l = le_revoked (ls ! a)"
  shows "irq_ok called (ls[a := l])"
proof -
  have "k = l \<or> k \<in> set ls" if "k \<in> set (ls[a := l])" for k
    using set_update_subset_insert [of ls a l] that by blast
  moreover have "ls ! a \<in> set ls" using assms(2) by simp
  ultimately show ?thesis using assms unfolding irq_ok_def by (metis bound_update)
qed

lemma bound_bind:
  assumes "a < length ls" and "le_interrupt (ls ! a) = None" and "distinct (bound ls)" and "c \<notin> set (bound ls)"
  shows "distinct (bound (ls[a := (ls ! a)\<lparr>le_interrupt := Some c\<rparr>]))"
proof -
  have "bound (ls[a := (ls ! a)\<lparr>le_interrupt := Some c\<rparr>]) = bound (take a ls) @ c # bound (drop (Suc a) ls)"
    using assms(1) by (simp add: upd_conv_take_nth_drop)
  moreover have "bound ls = bound (take a ls) @ bound (drop (Suc a) ls)"
    using assms(2) id_take_nth_drop [OF assms(1)] by (metis bound_append bound_simps(2) option.simps(4))
  ultimately show ?thesis using assms(3,4) by simp
qed

lemma irq_ok_bind:
  assumes "irq_ok called ls" and "a < length ls" and "le_interrupt (ls ! a) = None"
    and "c \<notin> set called" and "c \<notin> set (bound ls)"
  shows "irq_ok (called @ (if le_revoked (ls ! a) then [c] else [])) (ls[a := (ls ! a)\<lparr>le_interrupt := Some c\<rparr>])"
  unfolding irq_ok_def
proof (intro conjI ballI allI impI)
  show "distinct (bound (ls[a := (ls ! a)\<lparr>le_interrupt := Some c\<rparr>]))"
    using assms by (intro bound_bind) (simp_all add: irq_ok_def)
  fix l f
  assume l: "l \<in> set (ls[a := (ls ! a)\<lparr>le_interrupt := Some c\<rparr>])" and f: "le_interrupt l = Some f"
  from l consider "l = (ls ! a)\<lparr>le_interrupt := Some c\<rparr>" | "l \<in> set ls"
    using set_update_subset_insert [of ls a] by fast
  then show "count_list (called @ (if le_revoked (ls ! a) then [c] else [])) f = (if le_revoked l then 1 else 0)"
  proof cases
    case 1
    then show ?thesis using f assms(4) by (simp add: count_list_0_iff)
  next
    case 2
    then have "f \<noteq> c" using f assms(5) by (auto simp: set_bound)
    with 2 f assms(1) show ?thesis by (simp add: irq_ok_def)
  qed
qed

lemma irq_ok_snoc: "irq_ok called ls \<Longrightarrow> le_interrupt l = None \<Longrightarrow> irq_ok called (ls @ [l])"
  by (auto simp: irq_ok_def)

lemma leases_rejectLocked [simp]: "r_leases (rejectLocked reason r) = r_leases r"
  by (simp add: rejectLocked_def)

lemma leases_handshake [simp]:
  "r_leases (fst (AcquireHandshake r q)) = r_leases r" "r_leases (release_handshake h r) = r_leases r"
  by (simp_all add: AcquireHandshake_def release_handshake_def)

lemma leases_prepare [simp]: "r_leases (fst (Open_prepare lookup r q)) = r_leases r"
  by (auto simp: Open_prepare_def reject_def split: option.split sum.split)

lemma leases_commit:
  "r_leases (fst (Open_commit r p)) = r_leases r \<or> r_leases (fst (Open_commit r p)) = r_leases r @ [new_lease r p]"
  by (auto simp: Open_commit_def reject_def register_leases split: option.split)

lemma irq_ok_rebind:
  assumes "irq_ok called (r_leases r)" and "a < length (r_leases r)"
  shows "irq_ok called (r_leases (fst (Rebind a value r)))"
proof (cases "Rebind a value r")
  case (Pair r' res)
  then have "irq_ok called (r_leases r')"
    by (cases rule: Rebind_cases) (use assms in \<open>auto simp: rebound_leases moved_def intro: irq_ok_update\<close>)
  with Pair show ?thesis by simp
qed

lemma irq_ok_close:
  assumes "irq_ok called (r_leases r)" and "a < length (r_leases r)"
  shows "irq_ok called (r_leases (lease_Close a r))"
proof (cases "le_once (r_leases r ! a)")
  case True
  then show ?thesis using assms by (simp add: lease_Close_def Let_def)
next
  case False
  then show ?thesis
    using assms by (simp add: lease_Close_fields(1) irq_ok_update closed_lease_def)
qed

lemma irq_perform:
  assumes "core_inv (m_reg m)" and "irq_ok (m_called m) (r_leases (m_reg m))" and "allowed_once m e"
  shows "irq_ok (m_called (perform m e)) (r_leases (m_reg (perform m e)))"
proof -
  let ?r = "m_reg m"
  have ids: "ids_ok ?r" "ids_ok (?r\<lparr>r_closed := True\<rparr>)" using assms(1) by (simp_all add: reg_inv_def ids_ok_def)
  show ?thesis
  proof (cases e)
    case (Commit p)
    then show ?thesis using assms leases_commit [of ?r p] irq_ok_snoc by auto
  next
    case (UpdateTo s)
    then show ?thesis using assms by (auto split: option.split dest: irq_ok_Update)
  next
    case (Revoke ids)
    then show ?thesis
      using irq_ok_revokeLocked [OF ids(1) assms(2), OF prod.collapse [symmetric]]
      by (simp add: RevokeUsers_def)
  next
    case CloseAll
    then show ?thesis
      using irq_ok_revokeLocked [OF ids(2) _ prod.collapse [symmetric]] assms(2) by (simp add: Close_def)
  next
    case (Bind a f)
    then show ?thesis
      using assms irq_ok_bind [of "m_called m" "r_leases ?r" a] irq_ok_update [of "m_called m" "r_leases ?r" a]
      by (cases f) (auto simp: BindInterrupt_def upd_lease_def)
  qed (use assms in \<open>simp_all add: irq_ok_rebind irq_ok_close\<close>)
qed

interpretation irq: step_invariant session_step allowed_once
  "\<lambda>m. core_inv (m_reg m) \<and> irq_ok (m_called m) (r_leases (m_reg m))"
  by unfold_locales (simp add: session_step_def reg_inv_perform irq_perform allowed_once_allowed)

text \<open>C13: A revoked session is interrupted exactly once. In every run in which each session is
  given one callback of its own, at any moment before or after its revocation, the callback has been
  invoked once if the session is revoked and not at all otherwise: neither the revocation that meets
  an unbound session nor the binding that meets a revoked one loses or repeats the interrupt.\<close>

theorem interrupt_exactly_once:
  assumes "\<not> limits_bad (c_Limits cfg)" and "enabled_run session_step allowed_once (boot s cfg) es"
    and "m = run session_step (boot s cfg) es"
    and "l \<in> set (r_leases (m_reg m))" and "le_interrupt l = Some f"
  shows "count_list (m_called m) f = (if le_revoked l then 1 else 0)"
proof -
  have "irq_ok (m_called (boot s cfg)) (r_leases (m_reg (boot s cfg)))"
    by (simp add: boot_def New_def irq_ok_def)
  moreover have "core_inv (m_reg (boot s cfg))" using assms(1) by (simp add: boot_def reg_inv_New)
  ultimately have "irq_ok (m_called m) (r_leases (m_reg m))"
    using irq.inv_run [OF _ assms(2)] assms(3) by blast
  with assms(4,5) show ?thesis by (simp add: irq_ok_def)
qed

theorem interrupt_exactly_once_witness:
  "count_list (m_called (sample_machine [Commit (sample_pending ''0.0.0.8''), Bind 0 (Some 7), Revoke [2]])) 7 = 1"
proof -
  let ?es = "[Commit (sample_pending ''0.0.0.8''), Bind 0 (Some 7), Revoke [2]]"
  let ?l = "r_leases (m_reg (sample_machine ?es)) ! 0"
  have "enabled_run session_step allowed_once (boot (node_limit 2) (defaults sample_config)) ?es"
    and "0 < length (r_leases (m_reg (sample_machine ?es)))" and "le_interrupt ?l = Some 7" and "le_revoked ?l"
    by code_simp+
  then show ?thesis
    using interrupt_exactly_once [OF sample_limits, of "node_limit 2" ?es "sample_machine ?es" ?l 7]
    by (simp add: sample_machine_def)
qed

subsection \<open>Admission\<close>

lemma userID_iff:
  "userID r email = Some uid \<longleftrightarrow> 0 < uid \<and> int64_ok uid \<and> email = UserEmail (r_nodeID r) uid"
  (is "_ \<longleftrightarrow> ?R")
proof -
  let ?p = "''sspanel-node-'' @ itoa (r_nodeID r) @ ''-user-''"
  have E: "UserEmail (r_nodeID r) uid = ?p @ itoa uid" by (simp add: UserEmail_def)
  show ?thesis
  proof
    assume "userID r email = Some uid"
    then show ?R
      by (auto simp: userID_def Let_def UserEmail_def dest: parse_int64_range split: if_splits option.splits)
  next
    assume R: ?R
    then have "has_prefix email ?p" "trim_prefix email ?p = itoa uid" unfolding E by (simp_all only: has_prefix_append trim_prefix_append)
    with R show "userID r email = Some uid" by (simp add: userID_def Let_def E codec_simps)
  qed
qed

text \<open>The identity of a session is read back exactly. \<^verbatim>\<open>userID\<close> accepts an email if and only if it is
  the one that \<^verbatim>\<open>model.UserEmail\<close> prints for the registry's node and a positive user id, and returns that
  id; leading zeros, signs, other nodes and trailing text are all refused.\<close>

theorem identity_roundtrip:
  "userID r email = Some uid \<longleftrightarrow> 0 < uid \<and> uid \<le> MaxInt64 \<and> email = UserEmail (r_nodeID r) uid"
  unfolding userID_iff by (auto simp: int64_defs)

lemma canonical_addresses_set: "set (canonical_addresses as acc) = set acc \<union> (\<lambda>a. addr_string (unmap a)) ` set as"
  by (induction as arbitrary: acc) (auto simp: Let_def)

lemma authorizeTarget_Inr:
  assumes "authorizeTarget lookup u q = Inr (addresses, resolved)"
  shows "addresses \<noteq> [] \<and> (\<forall>x \<in> set addresses. \<not> IPBlocked (u_ForbiddenIPs u) x) \<and>
    (case parse_addr (trim_brackets (q_DestinationHost q)) of
       Some a \<Rightarrow> addresses = [addr_string (unmap a)] \<and> resolved = []
     | None \<Rightarrow> resolved \<in> set addresses \<and> (\<exists>as. lookup (trim_brackets (q_DestinationHost q)) = Some as \<and>
         set addresses = (\<lambda>a. addr_string (unmap a)) ` set as))"
proof (cases "parse_addr (trim_brackets (q_DestinationHost q))")
  case (Some a)
  with assms show ?thesis by (auto simp: authorizeTarget_def Let_def split: if_splits)
next
  case None
  with assms obtain as where A: "lookup (trim_brackets (q_DestinationHost q)) = Some as"
      "addresses = sort (canonical_addresses as [])" "resolved = hd addresses" "addresses \<noteq> []"
      "\<not> list_ex (IPBlocked (u_ForbiddenIPs u)) addresses"
    by (auto simp: authorizeTarget_def Let_def simp del: canonical_addresses.simps
        split: if_splits option.splits list.splits)
  have "resolved \<in> set addresses" using hd_in_set [OF A(4)] A(3) by simp
  moreover have "set addresses = (\<lambda>a. addr_string (unmap a)) ` set as"
    using A(2) by (simp add: canonical_addresses_set)
  ultimately show ?thesis using None A(1,4,5) by (simp add: list_ex_iff)
qed

lemma Open_prepare_Pending:
  assumes "Open_prepare lookup r q = (r1, Inr (Pending p))"
  obtains u where "r1 = r" "userID r (q_Email q) = Some (p_userID p)" "CanonicalIP (q_SourceIP q) = Some (p_sourceIP p)"
    "fmlookup (r_users r) (p_userID p) = Some u" "p_port p = q_DestinationPort q"
    "authorizeTarget lookup u q = Inr (p_addresses p, p_resolved p)"
  using assms by (auto simp: Open_prepare_def reject_def split: if_splits option.splits sum.splits)

text \<open>An admitted session was checked against the policy in force when it was admitted, whatever other
  operations did while the target was resolved. For a domain, the pinned address is one of the addresses
  checked.\<close>

lemma open_checks_policy:
  assumes "Open lookup interfere r q = (r2, Inr (resolved, Some a))"
  shows "\<exists>uid source u addresses. userID r (q_Email q) = Some uid \<and>
    CanonicalIP (q_SourceIP q) = Some source \<and> fmlookup (r_users (interfere r)) uid = Some u \<and>
    \<not> r_closed (interfere r) \<and> \<not> contains (u_DisconnectIPs u) source \<and>
    \<not> PortBlocked (u_ForbiddenPorts u) (uint (q_DestinationPort q)) \<and>
    addresses \<noteq> [] \<and> (\<forall>x \<in> set addresses. \<not> IPBlocked (u_ForbiddenIPs u) x) \<and>
    le_userID (r_leases r2 ! a) = uid \<and> le_sourceIP (r_leases r2 ! a) = source \<and>
    (case parse_addr (trim_brackets (q_DestinationHost q)) of
       Some d \<Rightarrow> addresses = [addr_string (unmap d)] \<and> resolved = []
     | None \<Rightarrow> resolved \<in> set addresses \<and> (\<exists>as. lookup (trim_brackets (q_DestinationHost q)) = Some as \<and>
         set addresses = (\<lambda>d. addr_string (unmap d)) ` set as))"
proof -
  obtain r1 p where P: "Open_prepare lookup r q = (r1, Inr (Pending p))"
      and C: "Open_commit (interfere r1) p = (r2, Inr (resolved, a))"
    using assms by (auto simp: Open_def split: prod.splits sum.splits prepared.splits)
  obtain u0 where 1: "r1 = r" "userID r (q_Email q) = Some (p_userID p)"
      "CanonicalIP (q_SourceIP q) = Some (p_sourceIP p)" "p_port p = q_DestinationPort q"
      "authorizeTarget lookup u0 q = Inr (p_addresses p, p_resolved p)"
    using P by (rule Open_prepare_Pending)
  obtain u where 2: "fmlookup (r_users (interfere r)) (p_userID p) = Some u" "\<not> r_closed (interfere r)"
      "\<not> contains (u_DisconnectIPs u) (p_sourceIP p)" "\<not> PortBlocked (u_ForbiddenPorts u) (uint (p_port p))"
      "\<not> list_ex (IPBlocked (u_ForbiddenIPs u)) (p_addresses p)"
      "r2 = register (interfere r) p" "resolved = p_resolved p" "a = length (r_leases (interfere r))"
    using C [unfolded 1(1)] by (auto elim: Open_commit_Inr)
  have l: "r_leases r2 ! a = new_lease (interfere r) p" by (simp add: 2 register_leases)
  show ?thesis
    using 1(2-4) 2(1-5) authorizeTarget_Inr [OF 1(5)] unfolding l 2(7)
    by (intro exI [of _ "p_userID p"] exI [of _ "p_sourceIP p"] exI [of _ u] exI [of _ "p_addresses p"])
      (simp add: list_ex_iff)
qed

definition sample_request :: request where
  "sample_request = \<lparr>q_InboundTag = inboundTag, q_Email = UserEmail 7 2, q_SourceIP = ''0.0.0.8'',
     q_Network = ''tcp'', q_DestinationHost = ''a.b'', q_DestinationPort = 443, q_DestinationDomain = True\<rparr>"

lemma sample_open_parts:
  "trim_brackets ''a.b'' = ''a.b''" "parse_addr ''a.b'' = None" "addr_string (unmap (V4 1)) = ''0.0.0.1''"
  "CanonicalIP ''0.0.0.8'' = Some ''0.0.0.8''" "IPBlocked [] ''0.0.0.1'' = False"
  by (simp_all add: eval_netip CanonicalIP_def IPBlocked_def)

lemma sample_open:
  "snd (Open (\<lambda>_. Some [V4 1]) id (m_reg (sample_machine [])) sample_request) = Inr (''0.0.0.1'', Some 0)"
proof -
  let ?r = "m_reg (sample_machine [])"
  have u: "fmlookup (r_users ?r) 2 = Some (sample_user 2)" "r_nodeID ?r = 7" "r_leases ?r = []" "r_closed ?r = False"
    "checkCapacityLocked ?r (sample_user 2) 2 ''0.0.0.8'' TCP = None"
    by code_simp+
  have "userID ?r (UserEmail 7 2) = Some 2" using userID_iff [of ?r _ 2] u(2) by (simp add: int64_defs)
  with u show ?thesis
    by (simp add: Open_def Open_prepare_def Open_commit_def sample_request_def requestKind_def authorizeTarget_def
        sample_open_parts sample_user_def Let_def)
qed

end
