(* ===== verification/Session_Connectors.thy ===== *)
theory Session_Connectors
  imports Session_Machine
begin

text \<open>
  The connector limit: how many source addresses a user may be connected from. The properties of
  \<^verbatim>\<open>checkCapacityLocked\<close> and \<^verbatim>\<open>Rebind\<close> between snapshots, what \<^verbatim>\<open>Update\<close> enforces and whom it leaves alone,
  and the two ways in which \<^verbatim>\<open>enforceConnectorsLocked\<close> and the sessions it revoked get out of step.
\<close>

definition connector_limit :: "registry \<Rightarrow> user \<Rightarrow> int64" where
  "connector_limit r u = effectiveLimit (u_ConnectorLimit u) (r_nodeConnectors r)"

definition connectors_within :: "registry \<Rightarrow> bool" where
  "connectors_within r \<longleftrightarrow> (\<forall>uid u. fmlookup (r_users r) uid = Some u \<longrightarrow> 0 < connector_limit r u \<longrightarrow>
     int (fm_size (sources_of r uid)) \<le> connector_limit r u)"

text \<open>The sources of sessions that are neither closed nor revoked.\<close>

definition active :: "registry \<Rightarrow> int64 \<Rightarrow> string set" where
  "active r uid = {ip. \<exists>l \<in> live r. le_userID l = uid \<and> le_sourceIP l = ip \<and> \<not> le_revoked l}"

subsection \<open>Between snapshots\<close>

lemma fm_size_inc: "fm_size (fm_inc k m) = (if k |\<in>| fmdom m then fm_size m else Suc (fm_size m))"
  by (simp add: fm_inc_def fm_size_upd)

lemma fmdom_dec: "k |\<in>| fmdom (fm_dec x m) \<longleftrightarrow> k |\<in>| fmdom m \<and> (k = x \<longrightarrow> 1 < fmget0 m x)"
  by (auto simp: fm_dec_def fmget0_def fmlookup_dom_iff split: option.splits)

lemma fm_size_dec: "fm_size (fm_dec x m) = (if x |\<in>| fmdom m \<and> fmget0 m x \<le> 1 then fm_size m - 1 else fm_size m)"
proof (cases "1 < fmget0 m x")
  case True
  then have "x |\<in>| fmdom m" by (auto simp: fmget0_def split: option.splits intro: fmdomI)
  with True show ?thesis by (simp add: fm_dec_def fm_size_upd)
next
  case False
  then show ?thesis by (simp add: fm_dec_def fm_size_drop)
qed

lemma fm_size_move:
  assumes "old |\<in>| fmdom m" and "1 \<le> fmget0 m old" and "ip \<noteq> old"
  shows "fm_size (fm_inc ip (fm_dec old m)) =
    (if fmget0 m old = 1 then fm_size m - 1 else fm_size m) + (if ip |\<in>| fmdom m then 0 else 1)"
  using assms by (simp add: fm_size_inc fm_size_dec fmdom_dec)

lemma sources_dom_get: "sources_ok r \<Longrightarrow> fmget0 (sources_of r u) ip = 0 \<longleftrightarrow> ip |\<notin>| fmdom (sources_of r u)"
  using source_counts(1) [of r u ip] source_counts(2) [of r ip u] by (simp add: cnt_0)

lemma sources_get_pos: "sources_ok r \<Longrightarrow> ip |\<in>| fmdom (sources_of r u) \<Longrightarrow> 1 \<le> fmget0 (sources_of r u) ip"
  using sources_dom_get [of r u ip] source_counts(1) [of r u ip] by simp

lemma within_same:
  assumes "connectors_within r" and "r_users r' = r_users r" and "r_nodeConnectors r' = r_nodeConnectors r"
    and "\<And>uid u. fmlookup (r_users r) uid = Some u \<Longrightarrow> 0 < connector_limit r u \<Longrightarrow>
      fm_size (sources_of r' uid) \<le> fm_size (sources_of r uid) \<or>
      int (fm_size (sources_of r' uid)) \<le> connector_limit r u"
  shows "connectors_within r'"
  using assms unfolding connectors_within_def connector_limit_def by fastforce

lemma within_commit:
  assumes "sources_ok r" and "connectors_within r"
  shows "connectors_within (fst (Open_commit r p))"
proof (cases "Open_commit r p")
  case (Pair r' res)
  show ?thesis
  proof (cases res)
    case (Inl e)
    with Pair obtain reason where "r' = rejectLocked reason r" by (auto elim: Open_commit_Inl)
    with assms(2) Pair show ?thesis
      by (simp add: connectors_within_def connector_limit_def rejectLocked_def sources_of_def)
  next
    case (Inr d)
    with Pair obtain v where v: "fmlookup (r_users r) (p_userID p) = Some v" "r' = register r p"
        "checkCapacityLocked r v (p_userID p) (p_sourceIP p) (p_kind p) = None"
      by (auto elim: Open_commit_Inr)
    have "connectors_within r'"
    proof (rule within_same [OF assms(2)])
      fix uid u
      assume "fmlookup (r_users r) uid = Some u" "0 < connector_limit r u"
      then show "fm_size (sources_of r' uid) \<le> fm_size (sources_of r uid) \<or>
          int (fm_size (sources_of r' uid)) \<le> connector_limit r u"
        using v sources_dom_get [OF assms(1), of uid "p_sourceIP p"]
        by (auto simp: fm_size_inc checkCapacityLocked_def Let_def connector_limit_def split: if_splits)
    qed (simp_all add: v)
    with Pair show ?thesis by simp
  qed
qed

lemma within_rebind:
  assumes "sources_ok r" and "connectors_within r" and "a < length (r_leases r)" and "\<not> le_once (r_leases r ! a)"
  shows "connectors_within (fst (Rebind a value r))"
proof (cases "Rebind a value r")
  case (Pair r' res)
  then have "connectors_within r'"
  proof (cases rule: Rebind_cases)
    case (rejected reason)
    with assms(2) show ?thesis
      by (simp add: connectors_within_def connector_limit_def rejectLocked_def sources_of_def)
  next
    case (moved ip v)
    let ?l = "r_leases r ! a"
    show ?thesis
    proof (rule within_same [OF assms(2)])
      fix uid u
      assume u: "fmlookup (r_users r) uid = Some u" "0 < connector_limit r u"
      have old: "le_sourceIP ?l |\<in>| fmdom (sources_of r (le_userID ?l))"
        using assms(3,4) source_counts(2) [OF assms(1)] by (force simp: live_def)
      then have pos: "0 < fm_size (sources_of r (le_userID ?l))"
        by (metis fm_size_0_iff fmdom_empty fempty_iff gr0I)
      note size = fm_size_move [OF old sources_get_pos [OF assms(1) old] moved(4)]
      show "fm_size (sources_of r' uid) \<le> fm_size (sources_of r uid) \<or>
          int (fm_size (sources_of r' uid)) \<le> connector_limit r u"
      proof (cases "uid = le_userID ?l")
        case True
        then have "connector_limit r v = connector_limit r u" using u moved(7) by simp
        with u(2) moved(9) have "ip |\<in>| fmdom (sources_of r uid) \<or>
            int (fm_size (sources_of r uid)) - (if fmget0 (sources_of r uid) (le_sourceIP ?l) = 1 then 1 else 0)
              < connector_limit r u"
          using sources_dom_get [OF assms(1), of uid ip] by (auto simp: True connector_limit_def)
        then show ?thesis using pos size by (auto simp: True moved(1) sources_of_rebound split: if_splits)
      next
        case False
        then show ?thesis by (simp add: moved(1) sources_of_rebound)
      qed
    qed (simp_all add: moved)
  qed (use assms in simp)
  with Pair show ?thesis by simp
qed

lemma within_body:
  assumes "connectors_within r" and "body r' = body r"
  shows "connectors_within r'"
  using assms(1) body_eqD [OF assms(2)] by (simp add: connectors_within_def connector_limit_def)

lemma within_close:
  assumes "connectors_within r"
  shows "connectors_within (lease_Close a r)"
proof (cases "le_once (r_leases r ! a)")
  case True
  then show ?thesis using assms by (simp add: lease_Close_def Let_def)
next
  case False
  show ?thesis
    by (rule within_same [OF assms]) (simp_all add: lease_Close_fields(7) [OF False] fm_size_dec)
qed

fun no_update :: "event \<Rightarrow> bool" where
  "no_update (UpdateTo s) = False"
| "no_update e = True"

lemma within_cong:
  "r_users r' = r_users r \<Longrightarrow> r_nodeConnectors r' = r_nodeConnectors r \<Longrightarrow> r_sources r' = r_sources r \<Longrightarrow>
   connectors_within r' = connectors_within r"
  by (simp add: connectors_within_def connector_limit_def sources_of_def)

lemma within_frame:
  "connectors_within (rejectLocked reason r) = connectors_within r"
  "connectors_within (fst (AcquireHandshake r q)) = connectors_within r"
  "connectors_within (release_handshake h r) = connectors_within r"
  "connectors_within (fst (BindInterrupt a f r)) = connectors_within r"
  "connectors_within (r\<lparr>r_closed := True\<rparr>) = connectors_within r"
  by (rule within_cong; simp add: rejectLocked_def AcquireHandshake_def release_handshake_def
      BindInterrupt_def upd_lease_def)+

lemma within_prepare: "connectors_within (fst (Open_prepare lookup r q)) = connectors_within r"
  by (simp add: Open_prepare_def reject_def within_frame split: option.split sum.split)

lemma within_revoke: "connectors_within (fst (revokeLocked users sources r)) = connectors_within r"
  by (metis body_revoke within_body)

lemma within_perform:
  assumes "reg_inv (m_reg m)" and "connectors_within (m_reg m)" and "allowed m e" and "in_order m e" and "no_update e"
  shows "connectors_within (m_reg (perform m e))"
  using assms
  by (cases e)
    (simp_all add: reg_inv_def within_commit within_rebind within_close within_frame within_prepare within_revoke
      RevokeUsers_def Close_def)

interpretation conn: step_invariant session_step "\<lambda>m e. allowed m e \<and> in_order m e \<and> no_update e"
  "\<lambda>m. reg_inv (m_reg m) \<and> connectors_within (m_reg m)"
  by unfold_locales (simp add: session_step_def reg_inv_perform within_perform)

lemma within_New: "connectors_within (New s cfg)"
  by (auto simp: New_def connectors_within_def connector_limit_def sources_of_def)

text \<open>C24: Between snapshots a user does not exceed the connector limit, as long as no lease is moved after
  it was closed. In every run without an \<^verbatim>\<open>Update\<close> and without such a move, whatever sessions open, move to
  another address, close or are revoked, the number of distinct source addresses from which a user has
  open sessions stays within the smaller positive one of the limits of the user and of the node.\<close>

theorem connector_limit_between_snapshots:
  assumes "reaches s cfg es r" and "moves_open_leases s cfg es" and "list_all no_update es"
    and "fmlookup (r_users r) uid = Some u"
    and "0 < effectiveLimit (u_ConnectorLimit u) (r_nodeConnectors r)"
  shows "int (card {ip. \<exists>l \<in> live r. le_userID l = uid \<and> le_sourceIP l = ip})
    \<le> effectiveLimit (u_ConnectorLimit u) (r_nodeConnectors r)"
proof -
  have "enabled_run session_step (\<lambda>_. no_update) m es" for m using assms(3) by (induction es arbitrary: m) simp_all
  with assms(1,2) have "enabled_run session_step (\<lambda>m e. allowed m e \<and> in_order m e \<and> no_update e) (boot s cfg) es"
    by (simp add: reaches_def moves_open_leases_def enabled_run_conj)
  from conn.inv_run [OF _ this] assms(1) have "reg_inv r \<and> connectors_within r"
    by (simp add: boot_def reg_inv_New within_New reaches_def)
  with assms(4,5) show ?thesis
    by (auto simp: connectors_within_def connector_limit_def reg_inv_def source_counts(3))
qed

theorem connector_limit_between_snapshots_witness:
  "int (card {ip. \<exists>l \<in> live (m_reg (sample_machine two_sessions)). le_userID l = 2 \<and> le_sourceIP l = ip}) \<le> 2"
proof -
  let ?r = "m_reg (sample_machine two_sessions)"
  have "list_all no_update two_sessions"
    and "fmlookup (r_users ?r) 2 = Some (sample_user 2)"
    and "effectiveLimit (u_ConnectorLimit (sample_user 2)) (r_nodeConnectors ?r) = 2"
    by code_simp+
  then show ?thesis
    using connector_limit_between_snapshots [OF two_sessions_reached two_sessions_in_order, of 2 "sample_user 2"] by simp
qed

subsection \<open>Enforcing a lowered limit\<close>

lemma finite_live [simp]: "finite (live r)"
  by (simp add: live_def)

lemma finite_active [simp]: "finite (active r uid)"
proof -
  have "active r uid \<subseteq> le_sourceIP ` live r" by (auto simp: active_def)
  then show ?thesis by (rule finite_subset) simp
qed

lemma active_revoke:
  "active (r\<lparr>r_leases := map (revoke h) (r_leases r)\<rparr>) uid =
     {ip. \<exists>l \<in> live r. le_userID l = uid \<and> le_sourceIP l = ip \<and> \<not> le_revoked l \<and> \<not> h l}"
  by (auto simp: active_def live_def revoke_def split: if_splits)

lemma active_subset_sources: "sources_ok r \<Longrightarrow> card (active r uid) \<le> fm_size (sources_of r uid)"
  unfolding source_counts(3)
  by (rule card_mono) (auto simp: active_def intro: finite_subset [of _ "le_sourceIP ` live r"])

lemma session_leases:
  assumes "ids_ok r"
  shows "(!) (r_leases r) ` set (session_addrs r) = live r"
  by (auto simp: session_addrs_live [OF assms] live_def in_set_conv_nth image_def)

lemma source_ages_sources:
  assumes "ids_ok r"
  shows "set (map snd (source_ages r uid)) = active r uid" and "distinct (map snd (source_ages r uid))"
    and "length (source_ages r uid) = card (active r uid)"
proof -
  have eq: "map snd (source_ages r uid) = remdups (map le_sourceIP (filter (\<lambda>l. le_userID l = uid \<and> \<not> le_revoked l)
      (map ((!) (r_leases r)) (session_addrs r))))"
    by (simp add: source_ages_def Let_def comp_def)
  show S: "set (map snd (source_ages r uid)) = active r uid"
    unfolding eq by (auto simp: session_leases [OF assms] active_def)
  show D: "distinct (map snd (source_ages r uid))" unfolding eq by simp
  show "length (source_ages r uid) = card (active r uid)"
    using distinct_card [OF D] S by (metis length_map)
qed

text \<open>One round of the enforcement loop: it panics, does nothing, or revokes sources of the user.\<close>

lemma enforce_user_None:
  assumes "ids_ok r"
  shows "enforce_user uid r = None \<longleftrightarrow> (\<exists>u. fmlookup (r_users r) uid = Some u \<and> 0 < connector_limit r u \<and>
    connector_limit r u < int (fm_size (sources_of r uid)) \<and> int (card (active r uid)) < connector_limit r u)"
  using source_ages_sources(3) [OF assms, of uid]
  by (auto simp: enforce_user_def connector_limit_def Let_def split: option.splits prod.splits)

lemma enforce_user_Some:
  assumes "ids_ok r" and "enforce_user uid r = Some (r', cs, b)"
  obtains h where "r' = r\<lparr>r_leases := map (revoke h) (r_leases r)\<rparr>" "\<And>l. h l \<Longrightarrow> le_userID l = uid"
    "\<And>u. fmlookup (r_users r) uid = Some u \<Longrightarrow> connector_limit r u \<le> 0 \<or>
       int (fm_size (sources_of r uid)) \<le> connector_limit r u \<Longrightarrow> h = (\<lambda>_. False)"
proof -
  have id: "r = r\<lparr>r_leases := map (revoke (\<lambda>_. False)) (r_leases r)\<rparr>" by (simp add: revoke_def [abs_def])
  show ?thesis
  proof (cases "r' = r")
    case True
    then show ?thesis using id that [of "\<lambda>_. False"] by simp
  next
    case False
    then obtain blocked u where "fmlookup (r_users r) uid = Some u"
        "revokeLocked {||} ((\<lambda>_. [])(uid := blocked)) r = (r', cs)"
        "\<not> (connector_limit r u \<le> 0 \<or> int (fm_size (sources_of r uid)) \<le> connector_limit r u)"
      using assms(2)
      by (auto simp: enforce_user_def connector_limit_def Let_def split: option.splits if_splits prod.splits)
    then show ?thesis
      using that [of "hit {||} ((\<lambda>_. [])(uid := blocked))"]
      by (auto simp: revokeLocked_spec [OF assms(1)] hit_def split: if_splits)
  qed
qed

lemma active_shrinks:
  assumes "ids_ok r" and "enforce_user v r = Some (r', cs, b)"
  shows "active r' uid \<subseteq> active r uid"
proof -
  obtain h where "r' = r\<lparr>r_leases := map (revoke h) (r_leases r)\<rparr>" using assms by (rule enforce_user_Some)
  then show ?thesis unfolding active_revoke by (auto simp: active_revoke) (auto simp: active_def)
qed

lemma enforce_loop_panics:
  assumes "reg_inv r" and "uid \<in> set uids" and "fmlookup (r_users r) uid = Some u"
    and "0 < connector_limit r u" and "connector_limit r u < int (fm_size (sources_of r uid))"
    and "int (card (active r uid)) < connector_limit r u"
  shows "enforce_loop uids r = None"
  using assms
proof (induction uids arbitrary: r)
  case (Cons v uids)
  have ids: "ids_ok r" using Cons.prems(1) by (simp add: reg_inv_def)
  show ?case
  proof (cases "enforce_user v r")
    case (Some res)
    obtain r1 cs b where 1: "enforce_user v r = Some (r1, cs, b)" using Some by (cases res) auto
    have "v \<noteq> uid" using 1 Cons.prems enforce_user_None [OF ids, of uid] by auto
    moreover have "card (active r1 uid) \<le> card (active r uid)"
      by (rule card_mono) (use active_shrinks [OF ids 1] in simp_all)
    moreover note body_eqD [OF body_enforce_user [OF 1]]
    ultimately have "enforce_loop uids r1 = None"
      using Cons.prems by (intro Cons.IH reg_inv_enforce_user [OF Cons.prems(1) 1]) (auto simp: connector_limit_def)
    then show ?thesis by (simp add: 1)
  qed simp
qed simp

text \<open>C36: Lowering the connector limit of a user below the number of connected addresses crashes the
  process. When a user is connected from more addresses than the new snapshot allows and the new row
  differs from the old one (as it does when the user's own limit is lowered), \<^verbatim>\<open>Update\<close> first revokes all
  sessions of the user and then slices the empty list of remaining addresses at the limit, which
  panics; the documented behaviour is to keep the oldest addresses.\<close>

theorem lowered_user_limit_panics:
  assumes "reg_inv r" and "fmlookup (r_users r) uid = Some old"
    and "fmlookup (userMap (s_Users s)) uid = Some u" and "userPolicyWithoutDisconnectChanged old u"
    and "0 < effectiveLimit (u_ConnectorLimit u) (n_ConnectorLimit (s_Node s))"
    and "effectiveLimit (u_ConnectorLimit u) (n_ConnectorLimit (s_Node s)) < int (fm_size (sources_of r uid))"
  shows "Update s r = None"
proof -
  let ?r2 = "(installSnapshot s (Some (r_users r)) r)\<lparr>r_leases := map (revoke (update_hit s r)) (r_leases r)\<rparr>"
  have inv: "reg_inv ?r2" using reg_inv_install_revoke [OF assms(1), of s] by simp
  have "uid |\<in>| policy_revoked (r_users r) (userMap (s_Users s))"
    using assms(2-4) by (auto simp: policy_revoked_def intro: fmdomI)
  then have none: "active ?r2 uid = {}"
    by (auto simp: active_def live_def revoke_def update_hit_def hit_def split: if_splits)
  have lim: "connector_limit ?r2 u = effectiveLimit (u_ConnectorLimit u) (n_ConnectorLimit (s_Node s))"
    by (simp add: connector_limit_def)
  have src: "sources_of ?r2 uid = sources_of r uid" by (simp add: sources_of_def)
  have "sources_of r uid \<noteq> fmempty" using assms(5,6) by auto
  then have "uid |\<in>| fmdom (r_sources ?r2)"
    by (auto simp: sources_of_def split: option.splits intro: fmdomI)
  then have "enforceConnectorsLocked ?r2 = None"
    unfolding enforceConnectorsLocked_def
    using enforce_loop_panics [OF inv, of uid _ u] assms(3,5,6) none lim src by simp
  with assms(1) show ?thesis by (simp add: Update_unfold reg_inv_def Let_def)
qed

definition user_limit :: "int \<Rightarrow> snapshot" where
  "user_limit n = (node_limit 2)\<lparr>s_Users := [(sample_user 2)\<lparr>u_ConnectorLimit := n\<rparr>]\<rparr>"

lemmas sample_inv = reaches_inv [OF two_sessions_reached two_sessions_in_order]

theorem lowered_user_limit_panics_witness:
  "Update (user_limit 1) (m_reg (sample_machine two_sessions)) = None"
  by (rule lowered_user_limit_panics [OF sample_inv, of 2 "sample_user 2" _ "(sample_user 2)\<lparr>u_ConnectorLimit := 1\<rparr>"];
      code_simp)

lemma enforce_user_bounds:
  assumes "ids_ok r" and "sources_ok r" and "enforce_user uid r = Some (r', cs, b)"
    and "fmlookup (r_users r) uid = Some u" and "0 < connector_limit r u"
  shows "int (card (active r' uid)) \<le> connector_limit r u"
proof (cases "int (fm_size (sources_of r uid)) \<le> connector_limit r u")
  case True
  then have "r' = r" using assms(3,4) by (auto simp: enforce_user_def Let_def connector_limit_def)
  with True show ?thesis using active_subset_sources [OF assms(2), of uid] by simp
next
  case False
  let ?k = "nat (connector_limit r u)"
  let ?ordered = "sort (source_ages r uid)"
  let ?blocked = "map snd (drop ?k ?ordered)"
  have A: "active r uid = snd ` set ?ordered" using source_ages_sources(1) [OF assms(1), of uid] by simp
  have split: "snd ` set ?ordered = set (map snd (take ?k ?ordered)) \<union> set ?blocked"
    by (metis append_take_drop_id map_append set_append set_map)
  have small: "card (set (map snd (take ?k ?ordered))) \<le> ?k"
    using card_length [of "map snd (take ?k ?ordered)"] by simp
  show ?thesis
  proof (cases "?blocked = []")
    case True
    then have "r' = r" using False assms(3-5) by (auto simp: enforce_user_def Let_def connector_limit_def split: if_splits)
    then show ?thesis using True A split small assms(5) by simp
  next
    case blk: False
    then have "revokeLocked {||} ((\<lambda>_. [])(uid := ?blocked)) r = (r', cs)"
      using False assms(3-5)
      by (auto simp: enforce_user_def Let_def connector_limit_def split: if_splits prod.splits)
    then have r': "r' = r\<lparr>r_leases := map (revoke (hit {||} ((\<lambda>_. [])(uid := ?blocked)))) (r_leases r)\<rparr>"
      using revokeLocked_spec [OF assms(1)] by (metis prod.inject)
    have "active r' uid \<subseteq> active r uid - set ?blocked"
      unfolding r' active_revoke by (auto simp: active_def live_def hit_def)
    also have "\<dots> \<subseteq> set (map snd (take ?k ?ordered))" using A split by blast
    finally have "card (active r' uid) \<le> ?k" using card_mono small order_trans by (metis List.finite_set)
    then show ?thesis using assms(5) by simp
  qed
qed

lemma active_enforce_loop:
  "reg_inv r \<Longrightarrow> enforce_loop uids r = Some (r', cs, us) \<Longrightarrow> active r' uid \<subseteq> active r uid"
proof (induction uids arbitrary: r r' cs us)
  case (Cons v uids)
  then obtain r1 cs1 b cs2 us2 where 1: "enforce_user v r = Some (r1, cs1, b)"
      and 2: "enforce_loop uids r1 = Some (r', cs2, us2)"
    by (auto split: option.splits prod.splits)
  have "active r' uid \<subseteq> active r1 uid" using Cons.IH [OF reg_inv_enforce_user [OF Cons.prems(1) 1] 2] .
  also have "\<dots> \<subseteq> active r uid" using active_shrinks [OF _ 1] Cons.prems(1) by (simp add: reg_inv_def)
  finally show ?case .
qed simp

lemma enforce_loop_bounds:
  assumes "reg_inv r" and "enforce_loop uids r = Some (r', cs, us)" and "uid \<in> set uids"
    and "fmlookup (r_users r) uid = Some u" and "0 < connector_limit r u"
  shows "int (card (active r' uid)) \<le> connector_limit r u"
  using assms
proof (induction uids arbitrary: r cs us)
  case (Cons v uids)
  then obtain r1 cs1 b cs2 us2 where 1: "enforce_user v r = Some (r1, cs1, b)"
      and 2: "enforce_loop uids r1 = Some (r', cs2, us2)"
    by (auto split: option.splits prod.splits)
  note inv1 = reg_inv_enforce_user [OF Cons.prems(1) 1]
  show ?case
  proof (cases "v = uid")
    case True
    have "card (active r' uid) \<le> card (active r1 uid)"
      by (rule card_mono) (use active_enforce_loop [OF inv1 2] in simp_all)
    with enforce_user_bounds [OF _ _ 1 [unfolded True]] Cons.prems show ?thesis by (simp add: reg_inv_def)
  next
    case False
    note same = body_eqD [OF body_enforce_user [OF 1]]
    have "int (card (active r' uid)) \<le> connector_limit r1 u"
      by (rule Cons.IH [OF inv1 2]) (use False Cons.prems same in \<open>auto simp: connector_limit_def\<close>)
    then show ?thesis by (simp add: connector_limit_def same)
  qed
qed simp

lemma Update_enforce_loop:
  assumes "reg_inv r" and "Update s r = Some (r', cs, us)"
  obtains r2 cs2 us2 where "r2 = (installSnapshot s (Some (r_users r)) r)\<lparr>r_leases := map (revoke (update_hit s r)) (r_leases r)\<rparr>"
    "reg_inv r2" "enforce_loop (sorted_list_of_fset (fmdom (r_sources r))) r2 = Some (r', cs2, us2)"
proof -
  let ?r2 = "(installSnapshot s (Some (r_users r)) r)\<lparr>r_leases := map (revoke (update_hit s r)) (r_leases r)\<rparr>"
  have "ids_ok r" using assms(1) by (simp add: reg_inv_def)
  then have "\<exists>cs2 us2. enforce_loop (sorted_list_of_fset (fmdom (r_sources r))) ?r2 = Some (r', cs2, us2)"
    using assms(2) by (auto simp: Update_unfold Let_def enforceConnectorsLocked_def split: option.splits)
  moreover have "reg_inv ?r2" using reg_inv_install_revoke [OF assms(1), of s] by simp
  ultimately show ?thesis using that by blast
qed

lemma update_enforces:
  assumes "reg_inv r" and "Update s r = Some (r', cs, us)" and "fmlookup (r_users r') uid = Some u"
    and "0 < effectiveLimit (u_ConnectorLimit u) (r_nodeConnectors r')"
  shows "int (card (active r' uid)) \<le> effectiveLimit (u_ConnectorLimit u) (r_nodeConnectors r')"
proof -
  obtain r2 cs2 us2 where r2: "r2 = (installSnapshot s (Some (r_users r)) r)\<lparr>r_leases := map (revoke (update_hit s r)) (r_leases r)\<rparr>"
      and inv: "reg_inv r2" and E: "enforce_loop (sorted_list_of_fset (fmdom (r_sources r))) r2 = Some (r', cs2, us2)"
    using Update_enforce_loop [OF assms(1,2)] .
  note same = body_eqD [OF body_enforce_loop [OF E]]
  have lim: "connector_limit r2 u = effectiveLimit (u_ConnectorLimit u) (r_nodeConnectors r')"
    by (simp add: connector_limit_def same)
  show ?thesis
  proof (cases "uid |\<in>| fmdom (r_sources r)")
    case True
    then show ?thesis using enforce_loop_bounds [OF inv E, of uid u] assms(3,4) lim same by simp
  next
    case False
    then have "fm_size (sources_of r2 uid) = 0" by (simp add: r2 sources_of_def fmdom_notD)
    then have "card (active r2 uid) = 0"
      using active_subset_sources [of r2 uid] inv by (simp add: reg_inv_def)
    then have "card (active r' uid) = 0"
      using active_enforce_loop [OF inv E, of uid] by (metis card_mono finite_active le_zero_eq)
    with assms(4) show ?thesis by simp
  qed
qed

text \<open>C25: A snapshot update that returns has enforced the connector limits, provided that no lease was moved
  after it was closed. After such an \<^verbatim>\<open>Update\<close>, every user of the new snapshot with a positive effective limit
  has sessions that are neither closed nor revoked from at most that many source addresses.\<close>

theorem update_enforces_connectors:
  assumes "reaches s0 cfg es r" and "moves_open_leases s0 cfg es"
    and "Update s r = Some (r', cs, us)" and "fmlookup (r_users r') uid = Some u"
    and "0 < effectiveLimit (u_ConnectorLimit u) (r_nodeConnectors r')"
  shows "int (card (active r' uid)) \<le> effectiveLimit (u_ConnectorLimit u) (r_nodeConnectors r')"
  using update_enforces [OF reaches_inv [OF assms(1,2)] assms(3-5)] .

theorem update_enforces_connectors_witness:
  "int (card (active (fst (the (Update (node_limit 1) (m_reg (sample_machine two_sessions))))) 2)) \<le> 1"
proof -
  let ?u = "Update (node_limit 1) (m_reg (sample_machine two_sessions))"
  have "?u \<noteq> None" by code_simp
  then have u: "?u = Some (fst (the ?u), fst (snd (the ?u)), snd (snd (the ?u)))" by simp
  have "fmlookup (r_users (fst (the ?u))) 2 = Some (sample_user 2)"
    and "effectiveLimit (u_ConnectorLimit (sample_user 2)) (r_nodeConnectors (fst (the ?u))) = 1"
    by code_simp+
  then show ?thesis
    using update_enforces_connectors [OF two_sessions_reached two_sessions_in_order u, of 2 "sample_user 2"] by simp
qed

lemma enforce_loop_spares:
  assumes "reg_inv r" and "enforce_loop uids r = Some (r', cs, us)" and "a < length (r_leases r)"
    and "fmlookup (r_users r) (le_userID (r_leases r ! a)) = Some u"
    and "connector_limit r u \<le> 0 \<or> int (fm_size (sources_of r (le_userID (r_leases r ! a)))) \<le> connector_limit r u"
  shows "r_leases r' ! a = r_leases r ! a"
  using assms
proof (induction uids arbitrary: r cs us)
  case (Cons v uids)
  then obtain r1 cs1 b cs2 us2 where 1: "enforce_user v r = Some (r1, cs1, b)"
      and 2: "enforce_loop uids r1 = Some (r', cs2, us2)"
    by (auto split: option.splits prod.splits)
  have ids: "ids_ok r" using Cons.prems(1) by (simp add: reg_inv_def)
  obtain h where h: "r1 = r\<lparr>r_leases := map (revoke h) (r_leases r)\<rparr>" "\<And>l. h l \<Longrightarrow> le_userID l = v"
      "\<And>u. fmlookup (r_users r) v = Some u \<Longrightarrow> connector_limit r u \<le> 0 \<or>
       int (fm_size (sources_of r v)) \<le> connector_limit r u \<Longrightarrow> h = (\<lambda>_. False)"
    using enforce_user_Some [OF ids 1] by blast
  have "\<not> h (r_leases r ! a)" using h(2,3) Cons.prems(4,5) by metis
  then have same: "r_leases r1 ! a = r_leases r ! a" using Cons.prems(3) h(1) by (simp add: revoke_def)
  note body = body_eqD [OF body_enforce_user [OF 1]]
  have "r_leases r' ! a = r_leases r1 ! a"
    by (rule Cons.IH [OF reg_inv_enforce_user [OF Cons.prems(1) 1] 2])
      (use Cons.prems(3-5) same h(1) body in \<open>simp_all add: connector_limit_def\<close>)
  with same show ?case by simp
qed simp

text \<open>A snapshot update leaves unaffected sessions alone. When the row of the user differs at most
  in the disconnected sources, the source of the session is not among those, the speed of the node is
  unchanged and the user is within the new connector limit, \<^verbatim>\<open>Update\<close> changes nothing about the
  session's lease.\<close>

theorem update_spares_unaffected:
  assumes "reg_inv r" and "Update s r = Some (r', cs, us)" and "a < length (r_leases r)"
    and "l = r_leases r ! a"
    and "fmlookup (r_users r) (le_userID l) = Some old" and "fmlookup (userMap (s_Users s)) (le_userID l) = Some u"
    and "\<not> userPolicyWithoutDisconnectChanged old u" and "\<not> contains (u_DisconnectIPs u) (le_sourceIP l)"
    and "f64_eq (r_nodeSpeed r) (n_SpeedLimitMbps (s_Node s))"
    and "effectiveLimit (u_ConnectorLimit u) (n_ConnectorLimit (s_Node s)) \<le> 0 \<or>
      int (fm_size (sources_of r (le_userID l))) \<le> effectiveLimit (u_ConnectorLimit u) (n_ConnectorLimit (s_Node s))"
  shows "r_leases r' ! a = l"
proof -
  obtain r2 cs2 us2 where r2: "r2 = (installSnapshot s (Some (r_users r)) r)\<lparr>r_leases := map (revoke (update_hit s r)) (r_leases r)\<rparr>"
      and inv: "reg_inv r2" and E: "enforce_loop (sorted_list_of_fset (fmdom (r_sources r))) r2 = Some (r', cs2, us2)"
    using Update_enforce_loop [OF assms(1,2)] .
  have "le_userID l |\<notin>| policy_revoked (r_users r) (userMap (s_Users s))"
    using assms(5-7) by (simp add: policy_revoked_def)
  moreover have "le_sourceIP l \<notin> set (source_revoked (r_users r) (userMap (s_Users s)) (le_userID l))"
    using assms(5-8) by (simp add: source_revoked_def new_disconnects_def)
  ultimately have "\<not> update_hit s r l" using assms(9) by (simp add: update_hit_def hit_def)
  then have same: "r_leases r2 ! a = l" using assms(3,4) by (simp add: r2 revoke_def)
  have "r_leases r' ! a = r_leases r2 ! a"
    by (rule enforce_loop_spares [OF inv E, of a u])
      (use assms(3,6,10) same in \<open>simp_all add: r2 connector_limit_def sources_of_def\<close>)
  with same show ?thesis by simp
qed

theorem update_spares_unaffected_witness:
  "r_leases (fst (the (Update (node_limit 3) (m_reg (sample_machine two_sessions))))) ! 1
     = r_leases (m_reg (sample_machine two_sessions)) ! 1"
proof -
  let ?r = "m_reg (sample_machine two_sessions)"
  let ?u = "Update (node_limit 3) ?r"
  have "?u \<noteq> None" by code_simp
  then have u: "?u = Some (fst (the ?u), fst (snd (the ?u)), snd (snd (the ?u)))" by simp
  show ?thesis
    by (rule update_spares_unaffected [OF sample_inv u, of 1, OF _ refl, of "sample_user 2" "sample_user 2"]; code_simp)
qed

subsection \<open>Sources of revoked sessions\<close>

text \<open>C37: A revoked source gets back in above the limit. A source that still has a revoked session that
  is not closed yet counts as connected, so \<^verbatim>\<open>checkCapacityLocked\<close> skips the connector limit for it: when
  a user already has active sessions from as many addresses as allowed, a new session from such a
  source is admitted whenever the other checks pass, and the user is then active from more addresses
  than the limit.\<close>

theorem revoked_source_readmitted:
  assumes "reg_inv r" and "fmlookup (r_users r) (p_userID p) = Some u" and "\<not> r_closed r"
    and "0 < connector_limit r u" and "connector_limit r u \<le> int (card (active r (p_userID p)))"
    and "\<exists>l \<in> live r. le_userID l = p_userID p \<and> le_sourceIP l = p_sourceIP p \<and> le_revoked l"
    and "p_sourceIP p \<notin> active r (p_userID p)"
    and "\<not> contains (u_DisconnectIPs u) (p_sourceIP p)"
    and "\<not> PortBlocked (u_ForbiddenPorts u) (uint (p_port p))"
    and "\<not> list_ex (IPBlocked (u_ForbiddenIPs u)) (p_addresses p)"
    and "p_kind p = TCP" and "r_tcp r < l_TCPGlobal (r_limits r)"
    and "fmget0 (r_userTCP r) (p_userID p) < l_TCPPerUser (r_limits r)"
  shows "\<exists>r' d. Open_commit r p = (r', Inr d) \<and> connector_limit r' u < int (card (active r' (p_userID p)))"
proof -
  let ?uid = "p_userID p" and ?r' = "register r p"
  have "p_sourceIP p |\<in>| fmdom (sources_of r ?uid)"
    using assms(1,6) by (auto simp: reg_inv_def source_counts(2))
  then have "fmget0 (sources_of r ?uid) (p_sourceIP p) \<noteq> 0"
    using assms(1) sources_dom_get [of r] by (simp add: reg_inv_def)
  with assms have "checkCapacityLocked r u ?uid (p_sourceIP p) (p_kind p) = None"
    by (simp add: checkCapacityLocked_def Let_def)
  with assms have C: "Open_commit r p = (?r', Inr (p_resolved p, length (r_leases r)))"
    by (simp add: Open_commit_def)
  have "insert (p_sourceIP p) (active r ?uid) \<subseteq> active ?r' ?uid"
    by (auto simp: active_def live_def register_leases)
  then have "card (insert (p_sourceIP p) (active r ?uid)) \<le> card (active ?r' ?uid)"
    by (intro card_mono) simp_all
  with assms(5,7) have "connector_limit r u < int (card (active ?r' ?uid))" by simp
  then show ?thesis using C by (simp add: connector_limit_def)
qed

definition after_lowering :: registry where
  "after_lowering = m_reg (sample_machine (two_sessions @ [UpdateTo (node_limit 1)]))"

lemma after_lowering_inv: "reg_inv after_lowering"
  unfolding after_lowering_def by (rule reaches_inv [OF sample_reaches]) code_simp+

lemma active_set: "active r uid = set (map le_sourceIP (filter (\<lambda>l. \<not> le_once l \<and> le_userID l = uid \<and> \<not> le_revoked l) (r_leases r)))"
  by (auto simp: active_def live_def)

theorem revoked_source_readmitted_witness:
  "\<exists>r' d. Open_commit after_lowering (sample_pending ''0.0.0.9'') = (r', Inr d) \<and> 1 < int (card (active r' 2))"
proof -
  let ?p = "sample_pending ''0.0.0.9''"
  have A: "active after_lowering 2 = {''0.0.0.8''}" unfolding active_set by code_simp
  have l: "r_leases after_lowering ! 1 \<in> live after_lowering"
  proof -
    have "1 < length (r_leases after_lowering)" "\<not> le_once (r_leases after_lowering ! 1)" by code_simp+
    then show ?thesis by (simp add: live_def)
  qed
  have L: "connector_limit after_lowering (sample_user 2) = 1" by code_simp
  have "\<exists>r' d. Open_commit after_lowering ?p = (r', Inr d) \<and>
      connector_limit r' (sample_user 2) < int (card (active r' (p_userID ?p)))"
  proof (rule revoked_source_readmitted [OF after_lowering_inv])
    have "le_userID (r_leases after_lowering ! 1) = p_userID ?p"
      "le_sourceIP (r_leases after_lowering ! 1) = p_sourceIP ?p" "le_revoked (r_leases after_lowering ! 1)"
      by code_simp+
    with l show "\<exists>l \<in> live after_lowering. le_userID l = p_userID ?p \<and> le_sourceIP l = p_sourceIP ?p \<and> le_revoked l"
      by blast
    have "p_userID ?p = 2" "p_sourceIP ?p = ''0.0.0.9''" by (simp_all add: sample_pending_def)
    then show "connector_limit after_lowering (sample_user 2) \<le> int (card (active after_lowering (p_userID ?p)))"
      "p_sourceIP ?p \<notin> active after_lowering (p_userID ?p)" using A L by simp_all
  qed (code_simp)+
  then obtain r' d where o: "Open_commit after_lowering ?p = (r', Inr d)"
      and a: "connector_limit r' (sample_user 2) < int (card (active r' (p_userID ?p)))" by blast
  have "r' = register after_lowering ?p" using o by (auto elim: Open_commit_Inr)
  then have "connector_limit r' (sample_user 2) = 1" using L by (simp add: connector_limit_def)
  with o a show ?thesis by (auto simp: sample_pending_def)
qed

subsection \<open>Moving a closed lease\<close>

text \<open>Without the condition on moves the limit does not hold: with a limit of one, the closed lease of a
  connected address is moved to another address, which drops the first address from the books although
  a session from it is open, and a session from the other address is admitted.\<close>

definition late_move :: "event list" where
  "late_move = [Commit (sample_pending ''0.0.0.8''), Commit (sample_pending ''0.0.0.8''), CloseLease 0,
     Rebinding 0 ''0.0.0.9'', Commit (sample_pending ''0.0.0.9'')]"

lemma late_move_exceeds_limit:
  "card (active (m_reg (run session_step (boot (node_limit 1) (defaults sample_config)) late_move)) 2) = 2"
  unfolding active_set by code_simp

end
