(* ===== verification/Session_Lease.thy ===== *)
theory Session_Lease
  imports Session_Connectors
begin

text \<open>
  What a session does with its lease: throttling its traffic with \<^verbatim>\<open>Wait\<close>, and moving the lease to another
  source with \<^verbatim>\<open>Rebind\<close> at the wrong moment.
\<close>

subsection \<open>Throttling\<close>

text \<open>The reference: whole bursts, then the rest, charged in order until the limiter refuses.\<close>

definition chunks :: "int \<Rightarrow> int \<Rightarrow> int list" where
  "chunks burst bytes = replicate (nat (bytes div burst)) burst @ (if bytes mod burst = 0 then [] else [bytes mod burst])"

primrec charge_all :: "('w \<Rightarrow> int \<Rightarrow> 'w option) \<Rightarrow> 'w \<Rightarrow> int list \<Rightarrow> 'w option" where
  "charge_all waitN w [] = Some w"
| "charge_all waitN w (c # cs) = (case waitN w c of None \<Rightarrow> None | Some w' \<Rightarrow> charge_all waitN w' cs)"

lemma chunks_step:
  assumes "0 < burst" and "0 < bytes"
  shows "chunks burst bytes = (let c = (if bytes > burst then burst else bytes) in
    c # (if bytes - c \<le> 0 then [] else chunks burst (bytes - c)))"
proof (cases "burst < bytes")
  case True
  have d: "bytes div burst = (bytes - burst) div burst + 1" using assms True by (intro div_pos_geq) simp_all
  have m: "bytes mod burst = (bytes - burst) mod burst" by simp
  have "0 \<le> (bytes - burst) div burst" using True assms by (simp add: pos_imp_zdiv_nonneg_iff)
  then have "nat (bytes div burst) = Suc (nat ((bytes - burst) div burst))" unfolding d by simp
  then show ?thesis using True unfolding chunks_def m by (simp add: Let_def)
next
  case False
  show ?thesis
  proof (cases "bytes = burst")
    case True
    then show ?thesis using assms by (simp add: chunks_def)
  next
    case neq: False
    then have "bytes div burst = 0" "bytes mod burst = bytes" using False assms by simp_all
    then show ?thesis using False assms by (simp add: chunks_def)
  qed
qed

lemma sum_chunks: "0 < burst \<Longrightarrow> 0 \<le> bytes \<Longrightarrow> sum_list (chunks burst bytes) = bytes"
  using div_mult_mod_eq [of bytes burst]
  by (auto simp: chunks_def sum_list_replicate pos_imp_zdiv_nonneg_iff)

lemma chunk_bounds:
  assumes "0 < burst" and "c \<in> set (chunks burst bytes)"
  shows "0 < c" and "c \<le> burst"
proof -
  have "0 \<le> bytes mod burst" "bytes mod burst < burst" using assms(1) by simp_all
  moreover have "c = burst \<or> c = bytes mod burst \<and> bytes mod burst \<noteq> 0"
    using assms(2) unfolding chunks_def by (simp split: if_splits) blast+
  ultimately show "0 < c" and "c \<le> burst" using assms(1) by linarith+
qed

lemma wait_loop_chunks:
  assumes "0 < burst" and "0 < bytes"
  shows "wait_loop waitN burst bytes w = Some (charge_all waitN w (chunks burst bytes))"
  using assms(2)
proof (induction "nat bytes" arbitrary: bytes w rule: less_induct)
  case less
  define c where "c = (if bytes > burst then burst else bytes)"
  have c: "0 < c" "c \<le> bytes" using assms(1) less.prems by (simp_all add: c_def)
  have chunks: "chunks burst bytes = c # (if bytes - c \<le> 0 then [] else chunks burst (bytes - c))"
    using chunks_step [OF assms(1) less.prems] by (simp add: Let_def c_def)
  have loop: "wait_loop waitN burst bytes w = (case waitN w c of None \<Rightarrow> Some None
      | Some w' \<Rightarrow> wait_loop waitN burst (bytes - c) w')"
    using less.prems by (subst wait_loop.simps) (simp only: Let_def c_def if_True)
  show ?case
  proof (cases "waitN w c")
    case None
    then show ?thesis by (simp add: loop chunks)
  next
    case (Some w')
    have rest: "wait_loop waitN burst 0 w' = Some (Some w')" by (subst wait_loop.simps) simp
    show ?thesis
    proof (cases "bytes - c \<le> 0")
      case True
      with c have z: "bytes - c = 0" by simp
      show ?thesis unfolding loop chunks z using Some rest by simp
    next
      case False
      then have "wait_loop waitN burst (bytes - c) w' = Some (charge_all waitN w' (chunks burst (bytes - c)))"
        using c by (intro less.hyps) simp_all
      with Some False show ?thesis by (simp add: loop chunks)
    qed
  qed
qed

lemma f64_to_int64_le: "f64_to_int64 x \<le> MaxInt64"
  by (cases x rule: f64_to_int64.cases) (auto simp: int64_defs Let_def)

lemma newLimiter_burst:
  assumes "newLimiter gen owner mbps = Some l"
  shows "65536 \<le> lm_burst l" and "lm_burst l \<le> MaxInt64"
  using assms f64_to_int64_le [of "f64_div_pos (f64_mul mbps (Fin 1000000)) 8"]
  by (auto simp: newLimiter_def Let_def int64_defs split: if_splits)

text \<open>C26: Throttling always returns and charges every byte once. With any limiter that \<^verbatim>\<open>newLimiter\<close> creates,
  whatever the configured speed (negative, tiny, huge, infinite or not a number), the loop of \<^verbatim>\<open>wait\<close>
  ends; it asks the limiter for whole bursts and then the rest, stopping at the first refusal; the
  amounts are positive, never above the burst that \<^verbatim>\<open>WaitN\<close> accepts, and add up to the bytes
  given.\<close>

theorem wait_charges_all_bytes:
  assumes "newLimiter gen owner mbps = Some l" and "0 < bytes"
  shows "wait waitN (Some l) bytes w = Some (charge_all (waitN l) w (chunks (lm_burst l) bytes)) \<and>
    sum_list (chunks (lm_burst l) bytes) = bytes \<and>
    (\<forall>c \<in> set (chunks (lm_burst l) bytes). 0 < c \<and> c \<le> lm_burst l)"
proof -
  have "0 < lm_burst l" using newLimiter_burst(1) [OF assms(1)] by simp
  with assms(2) show ?thesis
    by (auto simp: wait_def wait_loop_chunks sum_chunks dest: chunk_bounds)
qed

theorem wait_charges_all_bytes_witness:
  "\<exists>l. newLimiter 1 None (Fin 1) = Some l \<and>
     sum_list (chunks (lm_burst l) 300000) = 300000 \<and>
     wait (\<lambda>_ w c. Some (w + c)) (Some l) 300000 0 = Some (charge_all (\<lambda>w c. Some (w + c)) 0 (chunks (lm_burst l) 300000))"
proof -
  obtain l where l: "newLimiter 1 None (Fin 1) = Some l" by (simp add: newLimiter_def f64_le_def f64_eq_def Let_def)
  show ?thesis
    using wait_charges_all_bytes [OF l, of 300000 "\<lambda>_ w c. Some (w + c)" 0] by (intro exI [of _ l] conjI l) simp_all
qed

subsection \<open>Moving a closed lease\<close>

lemma cnt_once:
  assumes "r_leases r' = (r_leases r)[a := moved ip (r_leases r ! a)]" and "a < length (r_leases r)"
    and "le_once (r_leases r ! a)"
  shows "cnt P r' = cnt P r"
  using cnt_update [OF assms(1,2), of P] assms(3) by (simp add: moved_def)

text \<open>Moving a lease after closing it leaks a source. \<^verbatim>\<open>Rebind\<close> does not look at whether the lease was
  closed: it succeeds on a closed lease that was not revoked, and then the new source is counted once
  more than there are sessions from it, so it stays online and occupies a connector although no
  session is left to give it back.\<close>

lemma rebind_after_close_leaks:
  assumes "reg_inv r" and "a < length (r_leases r)" and "le_once (r_leases r ! a)"
    and "\<not> le_revoked (r_leases r ! a)" and "\<not> r_closed r" and "uid = le_userID (r_leases r ! a)"
    and "fmlookup (r_users r) uid = Some u" and "CanonicalIP value = Some ip"
    and "ip \<noteq> le_sourceIP (r_leases r ! a)" and "\<not> contains (u_DisconnectIPs u) ip"
    and "effectiveLimit (u_ConnectorLimit u) (r_nodeConnectors r) \<le> 0"
  shows "\<exists>r'. Rebind a value r = (r', Inr ()) \<and> fmget0 (sources_of r' uid) ip =
    int (length (filter (\<lambda>l. \<not> le_once l \<and> le_userID l = uid \<and> le_sourceIP l = ip) (r_leases r'))) + 1"
proof -
  have R: "Rebind a value r = (rebound a ip r, Inr ())"
    using assms(4-) by (simp add: Rebind_def Let_def rebound_def moved_def [abs_def])
  have "cnt (\<lambda>l. le_userID l = uid \<and> le_sourceIP l = ip) (rebound a ip r) =
      cnt (\<lambda>l. le_userID l = uid \<and> le_sourceIP l = ip) r"
    by (rule cnt_once [OF rebound_leases assms(2,3)])
  moreover have "fmget0 (sources_of (rebound a ip r) uid) ip = fmget0 (sources_of r uid) ip + 1"
    using assms(6,9) by (simp add: sources_of_rebound fm_inc_def fm_dec_def)
  ultimately show ?thesis
    using R assms(1) source_counts(1) [of r uid ip] by (simp add: reg_inv_def cnt_def)
qed

definition one_closed :: registry where
  "one_closed = m_reg (run session_step (boot (node_limit 0) (defaults sample_config))
     [Commit (sample_pending ''0.0.0.8''), CloseLease 0])"

lemma one_closed_inv: "reg_inv one_closed"
proof (rule reaches_inv)
  show "moves_open_leases (node_limit 0) (defaults sample_config) [Commit (sample_pending ''0.0.0.8''), CloseLease 0]"
    by code_simp
  show "reaches (node_limit 0) (defaults sample_config) [Commit (sample_pending ''0.0.0.8''), CloseLease 0] one_closed"
    unfolding reaches_def one_closed_def by (intro conjI refl; code_simp)
qed

lemma rebind_after_close_leaks_sample:
  "\<exists>r'. Rebind 0 ''0.0.0.9'' one_closed = (r', Inr ()) \<and> fmget0 (sources_of r' 2) ''0.0.0.9'' =
    int (length (filter (\<lambda>l. \<not> le_once l \<and> le_userID l = 2 \<and> le_sourceIP l = ''0.0.0.9'') (r_leases r'))) + 1"
proof (rule rebind_after_close_leaks [OF one_closed_inv])
  show "CanonicalIP ''0.0.0.9'' = Some ''0.0.0.9''" by (simp add: eval_netip CanonicalIP_def)
  show "fmlookup (r_users one_closed) 2 = Some (sample_user 2)" by code_simp
qed (code_simp)+

end
