(* ===== verification/Session_Control.thy ===== *)
theory Session_Control
  imports Session_Lease
begin

text \<open>
  The hooks that the repository adds to its vendored Xray (\<^verbatim>\<open>core/patches\<close>):
  \<^verbatim>\<open>common/sessioncontrol/control.go\<close>, the process-wide controller; \<^verbatim>\<open>proxy/vless/inbound/sessioncontrol.go\<close>
  with its use in \<^verbatim>\<open>Process\<close>, the handshake slots; \<^verbatim>\<open>app/dispatcher/sessioncontrol.go\<close> with its use in
  \<^verbatim>\<open>Dispatch\<close>, the controlled session. The controller is the registry of the running engine.
\<close>

subsection \<open>The controller\<close>

text \<open>
  A controller is its identity. The closure that \<^verbatim>\<open>Register\<close> returns is its index in \<open>ct_closures\<close>,
  which holds its controller and its \<^verbatim>\<open>sync.Once\<close>.
\<close>

record control =
  ct_controller :: "nat option"
  ct_closures :: "(nat \<times> bool) list"

datatype control_error = ErrControllerRegistered

definition Register :: "nat \<Rightarrow> control \<Rightarrow> control \<times> (control_error + nat)" where
  "Register c s =
     (if ct_controller s \<noteq> None then (s, Inl ErrControllerRegistered)
      else (s\<lparr>ct_controller := Some c, ct_closures := ct_closures s @ [(c, False)]\<rparr>, Inr (length (ct_closures s))))"

definition unregister :: "nat \<Rightarrow> control \<Rightarrow> control" where
  "unregister k s =
     (case ct_closures s ! k of
        (c, called) \<Rightarrow>
          if called then s
          else s\<lparr>ct_closures := (ct_closures s)[k := (c, True)],
                 ct_controller := (if ct_controller s = Some c then None else ct_controller s)\<rparr>)"

text \<open>Without a controller a handshake needs no slot, and a session is not controlled.\<close>

definition control_AcquireHandshake :: "control \<Rightarrow> registry \<Rightarrow> request \<Rightarrow> registry \<times> (session_error + nat option)" where
  "control_AcquireHandshake s r q =
     (case ct_controller s of None \<Rightarrow> (r, Inr None) | Some c \<Rightarrow> AcquireHandshake r q)"

definition control_Open :: "(string \<Rightarrow> addr list option) \<Rightarrow> (registry \<Rightarrow> registry) \<Rightarrow> control \<Rightarrow> registry \<Rightarrow> request \<Rightarrow>
    registry \<times> (session_error + string \<times> nat option)" where
  "control_Open lookup interfere s r q =
     (case ct_controller s of None \<Rightarrow> (r, Inr ([], None)) | Some c \<Rightarrow> Open lookup interfere r q)"

lemma register_unregister:
  assumes "Register c s = (s', Inr k)"
  shows "ct_controller s' = Some c \<and> ct_controller (unregister k s') = None \<and>
    unregister k (unregister k s') = unregister k s'"
  using assms by (auto simp: Register_def unregister_def split: if_splits)

text \<open>A late call of an old closure does not remove the controller of a new engine.\<close>

lemma old_closure_harmless:
  assumes "Register c s = (s1, Inr k)" and "Register c' (unregister k s1) = (s2, Inr k')"
  shows "unregister k s2 = s2"
  using assms by (auto simp: Register_def unregister_def nth_append split: if_splits)

subsection \<open>Handshakes\<close>

text \<open>What the context of a connection says of its inbound: tag, user and the text of the source address.\<close>

record inbound =
  ib_Tag :: string
  ib_Email :: "string option"
  ib_Source :: "string option"
  ib_CanSpliceCopy :: nat

definition handshake_request :: "inbound option \<Rightarrow> request" where
  "handshake_request ib = \<lparr>q_InboundTag = (case ib of None \<Rightarrow> [] | Some i \<Rightarrow> ib_Tag i), q_Email = [],
     q_SourceIP = (case ib of None \<Rightarrow> [] | Some i \<Rightarrow> (case ib_Source i of None \<Rightarrow> [] | Some a \<Rightarrow> a)),
     q_Network = [], q_DestinationHost = [], q_DestinationPort = 0, q_DestinationDomain = False\<rparr>"

definition acquireHandshake :: "control \<Rightarrow> inbound option \<Rightarrow> registry \<Rightarrow> registry \<times> (session_error + nat option)" where
  "acquireHandshake s ib r = control_AcquireHandshake s r (handshake_request ib)"

definition releaseHandshake :: "nat option \<Rightarrow> registry \<Rightarrow> registry" where
  "releaseHandshake h r = (case h of None \<Rightarrow> r | Some i \<Rightarrow> release_handshake i r)"

text \<open>
  \<^verbatim>\<open>Process\<close> around its slot: \<open>reading\<close> is what happens to the registry until the header is decoded or
  reading it failed, \<open>serving\<close> what happens from then until the function returns. The release after the
  header is skipped on an early return (\<open>decoded\<close> false); the deferred release is called on every path.
\<close>

definition Process :: "control \<Rightarrow> inbound option \<Rightarrow> bool \<Rightarrow> (registry \<Rightarrow> registry) \<Rightarrow> (registry \<Rightarrow> registry) \<Rightarrow> registry \<Rightarrow>
    registry \<times> session_error option" where
  "Process s ib decoded reading serving r =
     (case acquireHandshake s ib r of
        (r1, Inl e) \<Rightarrow> (r1, Some e)
      | (r1, Inr h) \<Rightarrow>
          let r2 = reading r1;
              r3 = (if decoded then serving (releaseHandshake h r2) else r2)
          in (releaseHandshake h r3, None))"

text \<open>Other connections neither use this slot nor take slots back into use.\<close>

definition leaves_slot :: "nat \<Rightarrow> (registry \<Rightarrow> registry) \<Rightarrow> bool" where
  "leaves_slot h f \<longleftrightarrow> (\<forall>r. h < length (r_released r) \<longrightarrow>
     h < length (r_released (f r)) \<and> r_released (f r) ! h = r_released r ! h)"

lemma release_released:
  "h < length (r_released r) \<Longrightarrow> h < length (r_released (release_handshake h r)) \<and> r_released (release_handshake h r) ! h"
  by (simp add: release_handshake_def)

lemma process_returns_slot:
  assumes "acquireHandshake s ib r = (r1, Inr (Some h))" and "leaves_slot h reading" and "leaves_slot h serving"
  shows "r_released (fst (Process s ib decoded reading serving r)) ! h" and "\<not> r_released (reading r1) ! h"
    and "decoded \<Longrightarrow> fst (Process s ib decoded reading serving r) = serving (release_handshake h (reading r1))"
proof -
  have h: "h < length (r_released r1)" "\<not> r_released r1 ! h"
    using assms(1) by (auto simp: acquireHandshake_def control_AcquireHandshake_def AcquireHandshake_def
        split: option.splits if_splits)
  then have R: "h < length (r_released (reading r1))" "\<not> r_released (reading r1) ! h"
    using assms(2) by (auto simp: leaves_slot_def)
  then show "\<not> r_released (reading r1) ! h" by simp
  note S = release_released [OF R(1)]
  then have T: "h < length (r_released (serving (release_handshake h (reading r1))))"
      "r_released (serving (release_handshake h (reading r1))) ! h"
    using assms(3) by (auto simp: leaves_slot_def)
  show "r_released (fst (Process s ib decoded reading serving r)) ! h"
    using release_released [OF R(1)] release_released [OF T(1)]
    by (simp add: Process_def assms(1) releaseHandshake_def Let_def)
  show "decoded \<Longrightarrow> fst (Process s ib decoded reading serving r) = serving (release_handshake h (reading r1))"
    using T(2) by (simp add: Process_def assms(1) releaseHandshake_def Let_def release_handshake_def [of h "serving _"])
qed

subsection \<open>Opening a controlled session\<close>

record destination =
  ds_Network :: string
  ds_Address :: string  \<comment> \<open>the text of the address\<close>
  ds_Domain :: bool
  ds_Port :: "16 word"

definition session_request :: "inbound option \<Rightarrow> destination \<Rightarrow> request" where
  "session_request ib ds = \<lparr>
     q_InboundTag = (case ib of None \<Rightarrow> [] | Some i \<Rightarrow> ib_Tag i),
     q_Email = (case ib of None \<Rightarrow> [] | Some i \<Rightarrow> (case ib_Email i of None \<Rightarrow> [] | Some e \<Rightarrow> e)),
     q_SourceIP = (case ib of None \<Rightarrow> [] | Some i \<Rightarrow> (case ib_Source i of None \<Rightarrow> [] | Some a \<Rightarrow> a)),
     q_Network = ds_Network ds, q_DestinationHost = ds_Address ds, q_DestinationPort = ds_Port ds,
     q_DestinationDomain = ds_Domain ds\<rparr>"

text \<open>
  \<open>parseAddress\<close> is \<^verbatim>\<open>net.ParseAddress\<close> of Xray: the text of the parsed address, and whether it is a
  domain. The result is the changed inbound, the destination and the lease, if there is one.
\<close>

definition openControlledSession :: "(string \<Rightarrow> addr list option) \<Rightarrow> (registry \<Rightarrow> registry) \<Rightarrow> (string \<Rightarrow> string \<times> bool) \<Rightarrow>
    control \<Rightarrow> inbound option \<Rightarrow> destination \<Rightarrow> registry \<Rightarrow>
    registry \<times> (session_error + inbound option \<times> destination \<times> nat option)" where
  "openControlledSession lookup interfere parseAddress s ib ds r =
     (case control_Open lookup interfere s r (session_request ib ds) of
        (r', Inl e) \<Rightarrow> (r', Inl e)
      | (r', Inr (resolved, l)) \<Rightarrow>
          let ds' = (if resolved \<noteq> [] then ds\<lparr>ds_Address := fst (parseAddress resolved),
                       ds_Domain := snd (parseAddress resolved)\<rparr> else ds)
          in case l of
               None \<Rightarrow> (r', Inr (ib, ds', None))
             | Some a \<Rightarrow> (r', Inr (map_option (\<lambda>i. i\<lparr>ib_CanSpliceCopy := 3\<rparr>) ib, ds', Some a)))"

end
