(* ===== verification/Data_Plane.thy ===== *)
theory Data_Plane
  imports Session_Control
begin

text \<open>
  The sessions of the data plane. A locale states what a holder of leases relies on; the registry
  provides it. The machine of controlled sessions interleaves them with everything else that happens
  to the registry.
\<close>

subsection \<open>The interface of leases\<close>

locale lease_provider =
  fixes ok :: "'r \<Rightarrow> bool"
    and known :: "'r \<Rightarrow> 'a set"
    and opens :: "'r \<Rightarrow> 'a set"
    and close :: "'a \<Rightarrow> 'r \<Rightarrow> 'r"
  assumes opens_known: "ok r \<Longrightarrow> opens r \<subseteq> known r"
    and ok_close: "ok r \<Longrightarrow> a \<in> known r \<Longrightarrow> ok (close a r)"
    and known_close: "ok r \<Longrightarrow> a \<in> known r \<Longrightarrow> known (close a r) = known r"
    and opens_close: "ok r \<Longrightarrow> a \<in> known r \<Longrightarrow> opens (close a r) = opens r - {a}"
begin

text \<open>A table of leases, each with a mark for those that were closed, agrees with the provider.\<close>

definition tracks :: "('a \<times> bool) list \<Rightarrow> 'r \<Rightarrow> bool" where
  "tracks ts r \<longleftrightarrow> ok r \<and> distinct (map fst ts) \<and> fst ` set ts \<subseteq> known r \<and> opens r = fst ` {t \<in> set ts. \<not> snd t}"

lemma tracks_ok: "tracks ts r \<Longrightarrow> ok r"
  by (simp add: tracks_def)

lemma tracks_nth:
  assumes "tracks ts r" and "k < length ts"
  shows "fst (ts ! k) \<in> known r" and "fst (ts ! k) \<in> opens r \<longleftrightarrow> \<not> snd (ts ! k)"
proof -
  show "fst (ts ! k) \<in> known r" using assms by (auto simp: tracks_def)
  have "t = ts ! k" if "t \<in> set ts" "fst t = fst (ts ! k)" for t
    using that assms by (auto simp: tracks_def distinct_map inj_on_def)
  moreover have "fst (ts ! k) \<in> opens r \<longleftrightarrow> (\<exists>t \<in> set ts. \<not> snd t \<and> fst t = fst (ts ! k))"
    using assms(1) unfolding tracks_def by (metis (mono_tags, lifting) image_iff mem_Collect_eq)
  ultimately show "fst (ts ! k) \<in> opens r \<longleftrightarrow> \<not> snd (ts ! k)" using nth_mem [OF assms(2)] by blast
qed

lemma tracks_close:
  assumes "tracks ts r" and "k < length ts"
  shows "tracks (ts[k := (fst (ts ! k), True)]) (close (fst (ts ! k)) r)"
proof -
  let ?a = "fst (ts ! k)" and ?ts = "ts[k := (fst (ts ! k), True)]"
  have T: "ok r" "distinct (map fst ts)" "fst ` set ts \<subseteq> known r" "opens r = fst ` {t \<in> set ts. \<not> snd t}"
    using assms(1) by (auto simp: tracks_def)
  have a: "?a \<in> known r" using tracks_nth [OF assms] by simp
  have m: "map fst ?ts = map fst ts" by (simp add: map_update) (metis assms(2) list_update_id nth_map)
  have d: "distinct ts" using T(2) by (simp add: distinct_map)
  have "set ?ts = insert (?a, True) (set ts - {ts ! k})" using set_update_distinct [OF d assms(2)] .
  moreover have "?a \<notin> fst ` (set ts - {ts ! k})"
    using T(2) assms(2) by (auto simp: distinct_map inj_on_def)
  ultimately have "fst ` {t \<in> set ?ts. \<not> snd t} = fst ` {t \<in> set ts - {ts ! k}. \<not> snd t}"
      "?a \<notin> fst ` {t \<in> set ts - {ts ! k}. \<not> snd t}" by auto
  then have "fst ` {t \<in> set ?ts. \<not> snd t} = opens r - {?a}" unfolding T(4) by blast
  moreover have "fst ` set ?ts = fst ` set ts" using m by (metis list.set_map)
  ultimately show ?thesis using T a m by (simp add: tracks_def ok_close known_close opens_close)
qed

lemma tracks_count: "tracks ts r \<Longrightarrow> card (opens r) = length (filter (\<lambda>t. \<not> snd t) ts)"
proof -
  assume t: "tracks ts r"
  then have d: "distinct (map fst (filter (\<lambda>t. \<not> snd t) ts))" by (auto simp: tracks_def distinct_map_filter)
  have "opens r = set (map fst (filter (\<lambda>t. \<not> snd t) ts))" using t by (simp add: tracks_def)
  then show ?thesis using distinct_card [OF d] by simp
qed

end

text \<open>A provider that others use at the same time, and that grants new leases.\<close>

locale shared_provider = lease_provider ok known opens close
  for ok :: "'r \<Rightarrow> bool" and known :: "'r \<Rightarrow> 'a set" and opens :: "'r \<Rightarrow> 'a set" and close :: "'a \<Rightarrow> 'r \<Rightarrow> 'r" +
  fixes grant :: "'p \<Rightarrow> 'r \<Rightarrow> 'r \<times> 'a option"
    and others :: "'e \<Rightarrow> 'r \<Rightarrow> 'r"
    and fits :: "'e \<Rightarrow> 'r \<Rightarrow> bool"
    and room :: "'r \<Rightarrow> bool"
  assumes grant_ok: "ok r \<Longrightarrow> room r \<Longrightarrow> grant p r = (r', x) \<Longrightarrow> ok r' \<and> known r \<subseteq> known r'"
    and grant_some: "ok r \<Longrightarrow> room r \<Longrightarrow> grant p r = (r', Some a) \<Longrightarrow>
      a \<notin> known r \<and> a \<in> known r' \<and> opens r' = insert a (opens r)"
    and grant_none: "ok r \<Longrightarrow> room r \<Longrightarrow> grant p r = (r', None) \<Longrightarrow> opens r' = opens r"
    and others_ok: "ok r \<Longrightarrow> fits e r \<Longrightarrow> ok (others e r) \<and> known (others e r) = known r \<and> opens (others e r) = opens r"
begin

lemma tracks_grant:
  assumes "tracks ts r" and "room r" and "grant p r = (r', x)"
  shows "tracks (ts @ (case x of None \<Rightarrow> [] | Some a \<Rightarrow> [(a, False)])) r'"
proof -
  have o: "ok r" using assms(1) by (rule tracks_ok)
  show ?thesis
  proof (cases x)
    case None
    note G = grant_ok [OF o assms(2,3)] grant_none [OF o assms(2) assms(3) [unfolded None]]
    with assms(1) show ?thesis by (simp add: None tracks_def) (meson subset_trans)
  next
    case (Some a)
    note G = grant_ok [OF o assms(2,3)] grant_some [OF o assms(2) assms(3) [unfolded Some]]
    from assms(1) G have "a \<notin> fst ` set ts" by (auto simp: tracks_def)
    moreover have "fst ` {t \<in> set (ts @ [(a, False)]). \<not> snd t} = insert a (fst ` {t \<in> set ts. \<not> snd t})" by force
    ultimately show ?thesis
      using assms(1) G subset_trans [of "fst ` set ts" "known r"] unfolding Some option.case tracks_def by simp
  qed
qed

lemma tracks_others: "tracks ts r \<Longrightarrow> fits e r \<Longrightarrow> tracks ts (others e r)"
  using others_ok by (simp add: tracks_def)

end

subsection \<open>The registry as a provider\<close>

text \<open>A lease that was granted and not closed is in the table of sessions.\<close>

definition open_leases :: "registry \<Rightarrow> nat set" where
  "open_leases r = {a. \<exists>k. fmlookup (r_sessions r) k = Some a}"

definition granted :: "registry \<Rightarrow> nat set" where
  "granted r = {..<length (r_leases r)}"

lemma open_leases_iff: "core_inv r \<Longrightarrow> a \<in> open_leases r \<longleftrightarrow> a < length (r_leases r) \<and> \<not> le_once (r_leases r ! a)"
  by (auto simp: open_leases_def reg_inv_def ids_ok_def)

text \<open>The state of the registry after a step of others.\<close>

definition idle :: "registry \<Rightarrow> machine" where
  "idle r = \<lparr>m_reg = r, m_called = [], m_crashed = False\<rparr>"

fun quiet :: "event \<Rightarrow> bool" where
  "quiet (Commit p) = False"
| "quiet (CloseLease a) = False"
| "quiet e = True"

definition effect :: "event \<Rightarrow> registry \<Rightarrow> registry" where
  "effect e r = m_reg (perform (idle r) e)"

lemma perform_effect: "m_reg (perform m e) = effect e (m_reg m)"
  by (cases e) (auto simp: effect_def idle_def after_def split: option.split)

text \<open>Granting and closing leases alone change the table of sessions and the number of leases.\<close>

definition table :: "registry \<Rightarrow> (uint64, nat) fmap \<times> uint64" where
  "table r = (r_sessions r, r_nextID r)"

lemma table_body: "body r' = body r \<Longrightarrow> table r' = table r"
  by (cases r; cases r'; simp add: body_def table_def)

lemma table_simps [simp]:
  "table (rejectLocked reason r) = table r" "table (fst (revokeLocked users sources r)) = table r"
  "table (rebound a ip r) = table r" "table (fst (Open_prepare lookup r q)) = table r"
  using table_body [OF body_revoke]
  by (auto simp: table_def rejectLocked_def rebound_def upd_lease_def add_source_def removeSourceLocked_def Let_def
      Open_prepare_def reject_def split: option.split sum.split)

lemma table_Update:
  assumes "Update s r = Some (r', cs, us)"
  shows "table r' = table r"
  using table_body [OF body_Update [OF assms]] by (simp add: table_def installSnapshot_def Let_def)

lemma table_Rebind [simp]: "table (fst (Rebind a v r)) = table r"
proof -
  obtain r' res where R: "Rebind a v r = (r', res)" by fastforce
  then have "table r' = table r" by (cases rule: Rebind_cases) simp_all
  with R show ?thesis by simp
qed

lemma table_frame:
  "r_sessions (r\<lparr>r_closed := b\<rparr>) = r_sessions r" "table (r\<lparr>r_closed := b\<rparr>) = table r"
  "table (fst (AcquireHandshake r q)) = table r" "table (release_handshake h r) = table r"
  "table (fst (BindInterrupt a f r)) = table r"
  by (simp_all add: table_def AcquireHandshake_def rejectLocked_def release_handshake_def BindInterrupt_def upd_lease_def)

lemma table_effect: "quiet e \<Longrightarrow> table (effect e r) = table r"
  by (cases e)
     (auto simp: effect_def idle_def RevokeUsers_def Close_def table_frame dest: table_Update split: option.split)

lemma length_table:
  assumes "core_inv r" and "core_inv r'" and "table r' = table r"
  shows "length (r_leases r') = length (r_leases r)"
proof -
  have "length (r_leases q) = unat (r_nextID q)" if "core_inv q" for q
    using that by (simp add: reg_inv_def ids_ok_def unat_of_nat)
  with assms show ?thesis by (simp add: table_def)
qed

lemma effect_inv: "core_inv r \<Longrightarrow> allowed (idle r) e \<Longrightarrow> core_inv (effect e r)"
  unfolding effect_def by (rule reg_inv_perform) (simp_all add: idle_def)

lemma allowed_idle: "allowed (idle (m_reg m)) e \<longleftrightarrow> allowed m e"
  by (cases e) (simp_all add: idle_def)

definition grant_lease :: "pending \<Rightarrow> registry \<Rightarrow> registry \<times> nat option" where
  "grant_lease p r = (case Open_commit r p of
     (r', Inl e) \<Rightarrow> (r', None) | (r', Inr (resolved, a)) \<Rightarrow> (r', Some a))"

lemma grant_cases:
  assumes "grant_lease p r = (r', x)"
  obtains (refused) reason where "r' = rejectLocked reason r" "x = None"
  | (admitted) "r' = register r p" "x = Some (length (r_leases r))" "Open_commit r p = (r', Inr (p_resolved p, length (r_leases r)))"
proof (cases "Open_commit r p")
  case (Pair q res)
  show thesis
  proof (cases res)
    case (Inl e)
    with Pair assms refused show thesis by (auto simp: grant_lease_def elim!: Open_commit_Inl)
  next
    case (Inr d)
    with Pair have "Open_commit r p = (q, Inr d)" by simp
    then show thesis by (rule Open_commit_Inr) (use Pair Inr assms admitted in \<open>auto simp: grant_lease_def\<close>)
  qed
qed

interpretation lp: shared_provider core_inv granted open_leases lease_Close grant_lease effect
  "\<lambda>e r. quiet e \<and> allowed (idle r) e" "\<lambda>r. int (length (r_leases r)) + 1 < 2 ^ 64"
proof unfold_locales
  fix r a assume r: "core_inv r"
  then show "open_leases r \<subseteq> granted r" by (auto simp: open_leases_iff granted_def)
  assume a: "a \<in> granted r"
  then have l: "a < length (r_leases r)" by (simp add: granted_def)
  show c: "core_inv (lease_Close a r)" using reg_inv_close [OF r l] .
  have len: "length (r_leases (lease_Close a r)) = length (r_leases r)"
    by (cases "le_once (r_leases r ! a)") (simp_all add: lease_Close_fields, simp add: lease_Close_def Let_def)
  then show "granted (lease_Close a r) = granted r" by (simp add: granted_def)
  have "le_once (r_leases (lease_Close a r) ! b) \<longleftrightarrow> b = a \<or> le_once (r_leases r ! b)" if "b < length (r_leases r)" for b
  proof (cases "le_once (r_leases r ! a)")
    case True
    then show ?thesis by (auto simp: lease_Close_def Let_def)
  next
    case False
    with that l show ?thesis by (auto simp: lease_Close_fields closed_lease_def nth_list_update)
  qed
  then show "open_leases (lease_Close a r) = open_leases r - {a}"
    using r c len by (auto simp: open_leases_iff)
next
  fix r p r' x assume r: "core_inv r" "int (length (r_leases r)) + 1 < 2 ^ 64" and g: "grant_lease p r = (r', x)"
  have "core_inv (fst (Open_commit r p))" using reg_inv_commit [OF r(1) ids_left [OF r(2)]] .
  with g r(1) show "core_inv r' \<and> granted r \<subseteq> granted r'"
    by (cases rule: grant_cases) (auto simp: granted_def register_leases)
next
  fix r p r' a assume r: "core_inv r" "int (length (r_leases r)) + 1 < 2 ^ 64" and g: "grant_lease p r = (r', Some a)"
  have c: "core_inv (fst (Open_commit r p))" using reg_inv_commit [OF r(1) ids_left [OF r(2)]] .
  from g show "a \<notin> granted r \<and> a \<in> granted r' \<and> open_leases r' = insert a (open_leases r)"
  proof (cases rule: grant_cases)
    case admitted
    then have "core_inv (register r p)" using c by simp
    with admitted r(1) show ?thesis
      by (auto simp: granted_def open_leases_iff register_leases nth_append less_Suc_eq split: if_splits)
  qed simp
next
  fix r p r' assume r: "core_inv r" and g: "grant_lease p r = (r', None)"
  from g show "open_leases r' = open_leases r"
    by (cases rule: grant_cases) (auto simp: open_leases_def rejectLocked_def)
next
  fix r e assume r: "core_inv r" and e: "quiet e \<and> allowed (idle r) e"
  have i: "core_inv (effect e r)" using effect_inv r e by blast
  with table_effect [of e r] e length_table [OF r i]
  show "core_inv (effect e r) \<and> granted (effect e r) = granted r \<and> open_leases (effect e r) = open_leases r"
    by (simp add: granted_def open_leases_def table_def)
qed

subsection \<open>Controlled sessions\<close>

text \<open>
  A controlled session: its lease, its \<^verbatim>\<open>sync.Once\<close>, and the context whose end makes its \<^verbatim>\<open>close\<close> run, in a
  goroutine of its own. Its interrupt callback is the index of the session. \<open>pl_done\<close> holds the contexts
  that ended.
\<close>

record controlled =
  cs_lease :: nat
  cs_once :: bool
  cs_ctx :: nat

record plane =
  pl_m :: machine
  pl_sessions :: "controlled list"
  pl_done :: "nat list"

abbreviation pl_reg :: "plane \<Rightarrow> registry" where
  "pl_reg pl \<equiv> m_reg (pl_m pl)"

definition controlled_close :: "nat \<Rightarrow> plane \<Rightarrow> plane" where
  "controlled_close k pl =
     (let s = pl_sessions pl ! k in
      if cs_once s then pl
      else pl\<lparr>pl_m := perform (pl_m pl) (CloseLease (cs_lease s)),
              pl_sessions := (pl_sessions pl)[k := s\<lparr>cs_once := True\<rparr>]\<rparr>)"

text \<open>\<^verbatim>\<open>bind\<close>: the interrupt of a new session.\<close>

definition bind_interrupt :: "nat \<Rightarrow> nat \<Rightarrow> plane \<Rightarrow> plane" where
  "bind_interrupt k a pl = pl\<lparr>pl_m := perform (pl_m pl) (Bind a (Some k))\<rparr>"

text \<open>The session object with its \<^verbatim>\<open>context.AfterFunc\<close>, and the binding of the interrupt.\<close>

definition attach_session :: "nat \<Rightarrow> nat \<Rightarrow> plane \<Rightarrow> plane" where
  "attach_session ctx a pl =
     bind_interrupt (length (pl_sessions pl)) a
       (pl\<lparr>pl_sessions := pl_sessions pl @ [\<lparr>cs_lease = a, cs_once = False, cs_ctx = ctx\<rparr>]\<rparr>)"

text \<open>The second half of \<^verbatim>\<open>Open\<close> with the session of its lease.\<close>

definition open_session :: "nat \<Rightarrow> pending \<Rightarrow> plane \<Rightarrow> plane" where
  "open_session ctx p pl =
     (case grant_lease p (pl_reg pl) of
        (r, None) \<Rightarrow> pl\<lparr>pl_m := perform (pl_m pl) (Commit p)\<rparr>
      | (r, Some a) \<Rightarrow> attach_session ctx a (pl\<lparr>pl_m := perform (pl_m pl) (Commit p)\<rparr>))"

text \<open>The end of a context, and the callback of a session, which runs at some later moment. \<^verbatim>\<open>close\<close> stops the
  callback, so it is pending exactly while the context has ended and \<^verbatim>\<open>close\<close> did not run; a context can
  have ended before the session is attached.\<close>

definition end_context :: "nat \<Rightarrow> plane \<Rightarrow> plane" where
  "end_context ctx pl = pl\<lparr>pl_done := ctx # pl_done pl\<rparr>"

definition after_func :: "nat \<Rightarrow> plane \<Rightarrow> plane" where
  "after_func k pl = (if cs_ctx (pl_sessions pl ! k) \<in> set (pl_done pl) then controlled_close k pl else pl)"

text \<open>All callbacks that are pending.\<close>

definition run_callbacks :: "plane \<Rightarrow> plane" where
  "run_callbacks pl = fold after_func [0..<length (pl_sessions pl)] pl"

datatype plane_event =
    OpenSession nat pending
  | CloseSession nat  \<comment> \<open>\<^verbatim>\<open>Done\<close> of a Mux session, or the deferred call in \<^verbatim>\<open>DispatchLink\<close>\<close>
  | EndContext nat
  | AfterFunc nat
  | MoveSession nat string
  | Registry event

fun plane_perform :: "plane \<Rightarrow> plane_event \<Rightarrow> plane" where
  "plane_perform pl (OpenSession ctx p) = open_session ctx p pl"
| "plane_perform pl (CloseSession k) = controlled_close k pl"
| "plane_perform pl (EndContext ctx) = end_context ctx pl"
| "plane_perform pl (AfterFunc k) = after_func k pl"
| "plane_perform pl (MoveSession k value) = pl\<lparr>pl_m := perform (pl_m pl) (Rebinding (cs_lease (pl_sessions pl ! k)) value)\<rparr>"
| "plane_perform pl (Registry e) = pl\<lparr>pl_m := perform (pl_m pl) e\<rparr>"

definition plane_step :: "plane \<Rightarrow> plane_event \<Rightarrow> plane" where
  "plane_step pl e = (if m_crashed (pl_m pl) then pl else plane_perform pl e)"

definition plane_boot :: "snapshot \<Rightarrow> config \<Rightarrow> plane" where
  "plane_boot s cfg = \<lparr>pl_m = boot s cfg, pl_sessions = [], pl_done = []\<rparr>"

text \<open>
  What the events refer to: existing sessions, closed ones included, fewer than \<open>2 ^ 64 - 1\<close> sessions in
  the life of a process, and steps of others that neither grant nor close leases.
\<close>

fun plane_fits :: "plane \<Rightarrow> plane_event \<Rightarrow> bool" where
  "plane_fits pl (OpenSession ctx p) = (int (length (r_leases (pl_reg pl))) + 1 < 2 ^ 64)"
| "plane_fits pl (CloseSession k) = (k < length (pl_sessions pl))"
| "plane_fits pl (EndContext ctx) = True"
| "plane_fits pl (AfterFunc k) = (k < length (pl_sessions pl))"
| "plane_fits pl (MoveSession k value) = (k < length (pl_sessions pl))"
| "plane_fits pl (Registry e) = (quiet e \<and> allowed (pl_m pl) e)"

definition marks :: "controlled list \<Rightarrow> (nat \<times> bool) list" where
  "marks ss = map (\<lambda>s. (cs_lease s, cs_once s)) ss"

definition plane_inv :: "plane \<Rightarrow> bool" where
  "plane_inv pl \<longleftrightarrow> lp.tracks (marks (pl_sessions pl)) (pl_reg pl)"

lemma marks_nth [simp]: "k < length ss \<Longrightarrow> marks ss ! k = (cs_lease (ss ! k), cs_once (ss ! k))" "length (marks ss) = length ss"
  by (simp_all add: marks_def)

lemma marks_update: "k < length ss \<Longrightarrow> marks (ss[k := s]) = (marks ss)[k := (cs_lease s, cs_once s)]"
  by (simp add: marks_def map_update)

lemma controlled_close_fields:
  assumes "k < length (pl_sessions pl)"
  shows "length (pl_sessions (controlled_close k pl)) = length (pl_sessions pl)"
    and "pl_done (controlled_close k pl) = pl_done pl"
    and "cs_ctx (pl_sessions (controlled_close k pl) ! j) = cs_ctx (pl_sessions pl ! j)"
    and "cs_once (pl_sessions (controlled_close k pl) ! j) \<longleftrightarrow> cs_once (pl_sessions pl ! j) \<or> j = k"
    and "m_crashed (pl_m (controlled_close k pl)) = m_crashed (pl_m pl)"
  using assms by (auto simp: controlled_close_def Let_def nth_list_update)

lemma tracks_controlled_close:
  assumes "lp.tracks (marks (pl_sessions pl)) (pl_reg pl)" and "k < length (pl_sessions pl)"
  shows "lp.tracks (marks (pl_sessions (controlled_close k pl))) (pl_reg (controlled_close k pl))"
  using lp.tracks_close [OF assms(1), of k] assms
  by (auto simp: controlled_close_def Let_def marks_update)

lemma after_func_fields:
  assumes "k < length (pl_sessions pl)"
  shows "length (pl_sessions (after_func k pl)) = length (pl_sessions pl)"
    and "pl_done (after_func k pl) = pl_done pl"
    and "cs_ctx (pl_sessions (after_func k pl) ! j) = cs_ctx (pl_sessions pl ! j)"
    and "cs_once (pl_sessions (after_func k pl) ! j) \<longleftrightarrow>
      cs_once (pl_sessions pl ! j) \<or> j = k \<and> cs_ctx (pl_sessions pl ! j) \<in> set (pl_done pl)"
    and "plane_inv pl \<Longrightarrow> plane_inv (after_func k pl)"
  using controlled_close_fields [OF assms] tracks_controlled_close [OF _ assms]
  by (auto simp: after_func_def plane_inv_def)

lemma fold_after_func:
  assumes "plane_inv pl" and "set ks \<subseteq> {..<length (pl_sessions pl)}"
  shows "plane_inv (fold after_func ks pl) \<and>
    length (pl_sessions (fold after_func ks pl)) = length (pl_sessions pl) \<and>
    (\<forall>j. cs_once (pl_sessions (fold after_func ks pl) ! j) \<longleftrightarrow>
      cs_once (pl_sessions pl ! j) \<or> j \<in> set ks \<and> cs_ctx (pl_sessions pl ! j) \<in> set (pl_done pl))"
  using assms
proof (induction ks arbitrary: pl)
  case (Cons k ks)
  have k: "k < length (pl_sessions pl)" using Cons.prems(2) by simp
  note F = after_func_fields [OF k]
  from Cons.IH [OF F(5) [OF Cons.prems(1)]] Cons.prems(2) F(1-4) show ?case by auto
qed simp

lemma tracks_perform:
  assumes "lp.tracks ts (m_reg m)" and "quiet e" and "allowed m e"
  shows "lp.tracks ts (m_reg (perform m e))"
  using lp.tracks_others [OF assms(1), of e] assms(2,3) by (simp add: perform_effect allowed_idle)

lemma perform_Commit: "m_reg (perform m (Commit p)) = fst (grant_lease p (m_reg m))"
  by (auto simp: grant_lease_def split: prod.split sum.split)

lemma plane_inv_open:
  assumes "plane_inv pl" and "int (length (r_leases (pl_reg pl))) + 1 < 2 ^ 64"
  shows "plane_inv (open_session ctx p pl)"
proof -
  obtain r x where G: "grant_lease p (pl_reg pl) = (r, x)" by fastforce
  have r: "m_reg (perform (pl_m pl) (Commit p)) = r" unfolding perform_Commit G by simp
  note G1 = lp.tracks_grant [OF assms(1) [unfolded plane_inv_def] assms(2) G]
  show ?thesis
  proof (cases x)
    case None
    with G G1 r show ?thesis by (simp add: open_session_def plane_inv_def del: perform.simps)
  next
    case (Some a)
    define pl1 where "pl1 = pl\<lparr>pl_m := perform (pl_m pl) (Commit p),
      pl_sessions := pl_sessions pl @ [\<lparr>cs_lease = a, cs_once = False, cs_ctx = ctx\<rparr>]\<rparr>"
    have t: "lp.tracks (marks (pl_sessions pl1)) (pl_reg pl1)"
      using G1 r by (simp add: pl1_def Some marks_def del: perform.simps)
    have "a < length (r_leases (pl_reg pl1))"
      using lp.tracks_nth(1) [OF t, of "length (pl_sessions pl)"] by (simp add: pl1_def granted_def del: perform.simps)
    then have "plane_inv (bind_interrupt k a pl1)" for k
      using tracks_perform [OF t, of "Bind a (Some k)"] by (simp add: bind_interrupt_def plane_inv_def del: perform.simps)
    moreover have "open_session ctx p pl = bind_interrupt (length (pl_sessions pl)) a pl1"
      using G by (simp add: open_session_def attach_session_def Some pl1_def del: perform.simps)
    ultimately show ?thesis by simp
  qed
qed

interpretation pln: step_invariant plane_step plane_fits plane_inv
proof unfold_locales
  fix pl e assume i: "plane_inv pl" and f: "plane_fits pl e"
  have T: "lp.tracks (marks (pl_sessions pl)) (pl_reg pl)" using i by (simp add: plane_inv_def)
  have "plane_inv (plane_perform pl e)"
  proof (cases e)
    case (OpenSession ctx p)
    with i f plane_inv_open show ?thesis by simp
  next
    case (CloseSession k)
    with f tracks_controlled_close [OF T] show ?thesis by (simp add: plane_inv_def)
  next
    case (EndContext ctx)
    with i show ?thesis by (simp add: plane_inv_def end_context_def)
  next
    case (AfterFunc k)
    with i f after_func_fields(5) show ?thesis by simp
  next
    case (MoveSession k v)
    with f have k: "k < length (pl_sessions pl)" by simp
    with lp.tracks_nth(1) [OF T, of k]
    have "allowed (pl_m pl) (Rebinding (cs_lease (pl_sessions pl ! k)) v)" by (simp add: granted_def)
    with i MoveSession tracks_perform [OF T] show ?thesis by (simp add: plane_inv_def del: perform.simps)
  next
    case (Registry ev)
    with i f tracks_perform [OF T] show ?thesis by (simp add: plane_inv_def del: perform.simps)
  qed
  with i show "plane_inv (plane_step pl e)" by (simp add: plane_step_def)
qed

definition plane_reaches :: "snapshot \<Rightarrow> config \<Rightarrow> plane_event list \<Rightarrow> plane \<Rightarrow> bool" where
  "plane_reaches s cfg es pl \<longleftrightarrow> \<not> limits_bad (c_Limits cfg) \<and> enabled_run plane_step plane_fits (plane_boot s cfg) es \<and>
     pl = run plane_step (plane_boot s cfg) es"

lemma plane_reaches_inv:
  assumes "plane_reaches s cfg es pl"
  shows "plane_inv pl"
proof -
  have "open_leases (New s cfg) = {}" by (simp add: open_leases_def New_def)
  moreover have "core_inv (New s cfg)" using assms by (intro reg_inv_New) (simp add: plane_reaches_def)
  ultimately have "plane_inv (plane_boot s cfg)"
    by (simp add: plane_inv_def plane_boot_def boot_def lp.tracks_def marks_def)
  with assms pln.inv_run show ?thesis by (auto simp: plane_reaches_def)
qed

lemma open_count:
  assumes "core_inv r"
  shows "r_tcp r + r_xudp r = int (card (open_leases r))"
proof -
  have "cnt (\<lambda>l. le_kind l = TCP) r + cnt (\<lambda>l. le_kind l = XUDP) r = length (filter (\<lambda>l. \<not> le_once l) (r_leases r))"
  proof -
    have "length (filter (\<lambda>l. \<not> le_once l \<and> le_kind l = TCP) ls) + length (filter (\<lambda>l. \<not> le_once l \<and> le_kind l = XUDP) ls)
        = length (filter (\<lambda>l. \<not> le_once l) ls)" for ls
      by (induction ls) (auto simp: kind_cases)
    then show ?thesis by (simp add: cnt_def)
  qed
  also have "\<dots> = card {a. a < length (r_leases r) \<and> \<not> le_once (r_leases r ! a)}" by (rule length_filter_conv_card)
  also have "{a. a < length (r_leases r) \<and> \<not> le_once (r_leases r ! a)} = open_leases r"
    using open_leases_iff [OF assms] by blast
  finally show ?thesis using assms by (simp add: reg_inv_def counters_ok_def flip: of_nat_add)
qed

lemma open_sessions_counted:
  assumes "plane_inv pl"
  shows "r_tcp (pl_reg pl) + r_xudp (pl_reg pl) = int (length (filter (\<lambda>c. \<not> cs_once c) (pl_sessions pl)))"
  using open_count [OF lp.tracks_ok] lp.tracks_count assms by (simp add: plane_inv_def marks_def filter_map comp_def)

text \<open>The sessions of the sample registry.\<close>

definition sample_plane :: "plane_event list \<Rightarrow> plane" where
  "sample_plane es = run plane_step (plane_boot (node_limit 2) (defaults sample_config)) es"

lemma sample_plane_reaches:
  "enabled_run plane_step plane_fits (plane_boot (node_limit 2) (defaults sample_config)) es \<Longrightarrow>
   plane_reaches (node_limit 2) (defaults sample_config) es (sample_plane es)"
  by (simp add: plane_reaches_def sample_limits sample_plane_def)

text \<open>C9: The registry counts exactly the controlled sessions whose \<^verbatim>\<open>close\<close> has not run. Whatever order
  connections, snapshots, revocations, moves and callbacks come in, the counters of TCP and XUDP sessions
  add up to the number of these sessions, and a lease is closed exactly when \<^verbatim>\<open>close\<close> of its session ran.
  Until the callback of an ended context has run, its sessions are still counted; when the pending
  callbacks have run, exactly the open sessions of contexts that did not end are counted. This holds of
  XUDP sessions too: the code stops counting one when the connection that opened it has ended, although
  \<^verbatim>\<open>docs/12\<close> says that it counts until it expires.\<close>

theorem controlled_sessions_counted:
  assumes "plane_reaches s cfg es pl"
  shows "r_tcp (pl_reg pl) + r_xudp (pl_reg pl) = int (length (filter (\<lambda>c. \<not> cs_once c) (pl_sessions pl))) \<and>
    (\<forall>c \<in> set (pl_sessions pl). le_once (r_leases (pl_reg pl) ! cs_lease c) \<longleftrightarrow> cs_once c) \<and>
    r_tcp (pl_reg (run_callbacks pl)) + r_xudp (pl_reg (run_callbacks pl)) =
      int (length (filter (\<lambda>c. \<not> cs_once c \<and> cs_ctx c \<notin> set (pl_done pl)) (pl_sessions pl)))"
proof -
  have P: "plane_inv pl" using plane_reaches_inv [OF assms] .
  then have T: "lp.tracks (marks (pl_sessions pl)) (pl_reg pl)" by (simp add: plane_inv_def)
  have L: "\<forall>c \<in> set (pl_sessions pl). le_once (r_leases (pl_reg pl) ! cs_lease c) \<longleftrightarrow> cs_once c"
    using lp.tracks_nth [OF T] by (simp add: all_set_conv_all_nth open_leases_iff [OF lp.tracks_ok [OF T]] granted_def)
  let ?n = "length (pl_sessions pl)"
  have "set [0..<?n] \<subseteq> {..<?n}" by auto
  note F = fold_after_func [OF P this, folded run_callbacks_def]
  then have "length (filter (\<lambda>c. \<not> cs_once c) (pl_sessions (run_callbacks pl))) =
      length (filter (\<lambda>c. \<not> cs_once c \<and> cs_ctx c \<notin> set (pl_done pl)) (pl_sessions pl))"
    unfolding length_filter_conv_card by (auto intro!: arg_cong [where f = card])
  with L F open_sessions_counted [OF P] open_sessions_counted [of "run_callbacks pl"] show ?thesis by simp
qed

theorem controlled_sessions_counted_witness:
  "plane_reaches (node_limit 2) (defaults sample_config) [OpenSession 7 (sample_pending ''0.0.0.8''), EndContext 7]
     (sample_plane [OpenSession 7 (sample_pending ''0.0.0.8''), EndContext 7]) \<and>
   r_tcp (pl_reg (sample_plane [OpenSession 7 (sample_pending ''0.0.0.8''), EndContext 7])) = 1 \<and>
   r_tcp (pl_reg (run_callbacks (sample_plane [OpenSession 7 (sample_pending ''0.0.0.8''), EndContext 7]))) = 0"
proof -
  let ?es = "[OpenSession 7 (sample_pending ''0.0.0.8''), EndContext 7]"
  have r: "plane_reaches (node_limit 2) (defaults sample_config) ?es (sample_plane ?es)"
    by (rule sample_plane_reaches) code_simp
  have "filter (\<lambda>c. \<not> cs_once c \<and> cs_ctx c \<notin> set (pl_done (sample_plane ?es))) (pl_sessions (sample_plane ?es)) = []"
      "r_xudp (pl_reg (run_callbacks (sample_plane ?es))) = 0" "r_tcp (pl_reg (sample_plane ?es)) = 1" by code_simp+
  with controlled_sessions_counted [OF r] r show ?thesis by simp
qed

subsection \<open>Dispatching\<close>

record dispatch_env =
  de_lookup :: "string \<Rightarrow> addr list option"
  de_interfere :: "registry \<Rightarrow> registry"
  de_parseAddress :: "string \<Rightarrow> string \<times> bool"
  de_control :: control

definition set_reg :: "registry \<Rightarrow> plane \<Rightarrow> plane" where
  "set_reg r pl = pl\<lparr>pl_m := (pl_m pl)\<lparr>m_reg := r\<rparr>\<rparr>"

text \<open>\<^verbatim>\<open>Dispatch\<close> for a valid destination, up to the link: the changed inbound, where the traffic
  goes, and the controlled session.\<close>

definition Dispatch :: "dispatch_env \<Rightarrow> nat \<Rightarrow> inbound option \<Rightarrow> destination \<Rightarrow> plane \<Rightarrow>
    plane \<times> (session_error + inbound option \<times> destination \<times> nat option)" where
  "Dispatch de ctx ib ds pl =
     (case openControlledSession (de_lookup de) (de_interfere de) (de_parseAddress de) (de_control de) ib ds (pl_reg pl) of
        (r, Inl e) \<Rightarrow> (set_reg r pl, Inl e)
      | (r, Inr (ib', ds', None)) \<Rightarrow> (set_reg r pl, Inr (ib', ds', None))
      | (r, Inr (ib', ds', Some a)) \<Rightarrow>
          (attach_session ctx a (set_reg r pl), Inr (ib', ds', Some (length (pl_sessions pl)))))"

text \<open>What closing and binding leave of a lease.\<close>

definition terms_of :: "lease \<Rightarrow> int64 \<times> string \<times> bool \<times> limiter option \<times> limiter option" where
  "terms_of l = (le_userID l, le_sourceIP l, le_revoked l, le_userRate l, le_nodeRate l)"

lemma close_terms:
  "terms_of (r_leases (lease_Close b r) ! a) = terms_of (r_leases r ! a)" "r_closed (lease_Close b r) = r_closed r"
proof -
  show "terms_of (r_leases (lease_Close b r) ! a) = terms_of (r_leases r ! a)"
  proof (cases "le_once (r_leases r ! b)")
    case True
    then show ?thesis by (simp add: lease_Close_def Let_def)
  next
    case False
    then have "r_leases (lease_Close b r) = (r_leases r)[b := closed_lease (r_leases r ! b)]" by (rule lease_Close_fields(1))
    then show ?thesis
      by (cases "b < length (r_leases r)") (auto simp: terms_of_def closed_lease_def nth_list_update list_update_beyond)
  qed
qed simp

lemma attach_terms:
  assumes "a < length (r_leases (pl_reg pl))"
  shows "terms_of (r_leases (pl_reg (attach_session ctx a pl)) ! a) = terms_of (r_leases (pl_reg pl) ! a)"
    and "length (pl_sessions (attach_session ctx a pl)) = Suc (length (pl_sessions pl))"
    and "cs_lease (pl_sessions (attach_session ctx a pl) ! length (pl_sessions pl)) = a"
    and "cs_ctx (pl_sessions (attach_session ctx a pl) ! length (pl_sessions pl)) = ctx"
proof -
  have "terms_of (r_leases (upd_lease a (\<lambda>l. l\<lparr>le_interrupt := f\<rparr>) r) ! a) = terms_of (r_leases r ! a)" for f r
    by (cases "a < length (r_leases r)") (simp_all add: upd_lease_def terms_of_def list_update_beyond)
  then show "terms_of (r_leases (pl_reg (attach_session ctx a pl)) ! a) = terms_of (r_leases (pl_reg pl) ! a)"
    by (simp add: attach_session_def bind_interrupt_def BindInterrupt_def)
qed (simp_all add: attach_session_def bind_interrupt_def)

definition sample_inbound :: inbound where
  "sample_inbound = \<lparr>ib_Tag = inboundTag, ib_Email = Some (UserEmail 7 2), ib_Source = Some ''0.0.0.8'', ib_CanSpliceCopy = 1\<rparr>"

definition sample_env :: dispatch_env where
  "sample_env = \<lparr>de_lookup = (\<lambda>_. Some [V4 1]), de_interfere = id, de_parseAddress = (\<lambda>x. (x, False)),
     de_control = \<lparr>ct_controller = Some 0, ct_closures = [(0, False)]\<rparr>\<rparr>"

definition sample_target :: destination where
  "sample_target = \<lparr>ds_Network = ''tcp'', ds_Address = ''a.b'', ds_Domain = True, ds_Port = 443\<rparr>"

lemma canonical_nonempty: "addr_string (unmap d) \<noteq> []"
proof
  assume "addr_string (unmap d) = []"
  with parse_addr_string [of "unmap d"] have "parse_addr [] = Some (unmap d)" by simp
  then show False by (simp add: eval_netip)
qed

lemma pinned_target:
  assumes "case parse_addr host of
      Some d \<Rightarrow> addresses = [addr_string (unmap d)] \<and> resolved = []
    | None \<Rightarrow> resolved \<in> set addresses \<and> (\<exists>as. answer = Some as \<and> set addresses = (\<lambda>d. addr_string (unmap d)) ` set as)"
  shows "case parse_addr host of
      Some d \<Rightarrow> addresses = [addr_string (unmap d)] \<and> (if resolved \<noteq> [] then pin resolved else ds) = ds
    | None \<Rightarrow> (\<exists>as. answer = Some as \<and> set addresses = (\<lambda>d. addr_string (unmap d)) ` set as) \<and>
        (\<exists>x \<in> set addresses. (if resolved \<noteq> [] then pin resolved else ds) = pin x)"
proof (cases "parse_addr host")
  case None
  with assms obtain as where as: "answer = Some as" "set addresses = (\<lambda>d. addr_string (unmap d)) ` set as"
      "resolved \<in> set addresses" by auto
  then have "resolved \<noteq> []" using canonical_nonempty by auto
  with None as show ?thesis by auto
qed (use assms in simp)

lemma Open_outcomes:
  assumes "Open lookup interfere r q = (r', Inr (resolved, l))"
  shows "case l of None \<Rightarrow> q_InboundTag q \<noteq> inboundTag \<and> resolved = [] \<and> r' = r
    | Some a \<Rightarrow> a < length (r_leases r')"
  using assms
  by (auto simp: Open_def Open_prepare_def reject_def register_leases elim!: Open_commit_Inr
      split: prod.splits sum.splits prepared.splits option.splits if_splits)

lemma Open_failed:
  assumes "Open lookup interfere r q = (r', Inl e)"
  obtains reason r0 where "r0 = r \<or> r0 = interfere r" "r' = rejectLocked reason r0"
proof -
  have "\<exists>reason. r1 = rejectLocked reason r" if "Open_prepare lookup r q = (r1, Inl e)" for r1
    using that by (auto simp: Open_prepare_def reject_def split: if_splits option.splits sum.splits)
  moreover have "r1 = r" if "Open_prepare lookup r q = (r1, Inr (Pending p))" for r1 p
    using that by (rule Open_prepare_Pending)
  ultimately show thesis
    using assms that by (fastforce simp: Open_def elim!: Open_commit_Inl split: prod.splits sum.splits prepared.splits)
qed

lemma Dispatch_cases:
  assumes "Dispatch de ctx ib ds pl = (pl', res)"
  obtains (failed) e reason r where "res = Inl e" "pl_sessions pl' = pl_sessions pl"
      "r = pl_reg pl \<or> r = de_interfere de (pl_reg pl)" "pl_reg pl' = rejectLocked reason r"
  | (uncontrolled) "res = Inr (ib, ds, None)" "pl_sessions pl' = pl_sessions pl"
      "ct_controller (de_control de) = None \<or> q_InboundTag (session_request ib ds) \<noteq> inboundTag"
  | (controlled) r resolved a where
      "Open (de_lookup de) (de_interfere de) (pl_reg pl) (session_request ib ds) = (r, Inr (resolved, Some a))"
      "pl' = attach_session ctx a (set_reg r pl)"
      "res = Inr (map_option (\<lambda>i. i\<lparr>ib_CanSpliceCopy := 3\<rparr>) ib,
         if resolved \<noteq> [] then ds\<lparr>ds_Address := fst (de_parseAddress de resolved),
           ds_Domain := snd (de_parseAddress de resolved)\<rparr> else ds, Some (length (pl_sessions pl)))"
proof -
  let ?q = "session_request ib ds" and ?r = "pl_reg pl"
  obtain r oc where O: "control_Open (de_lookup de) (de_interfere de) (de_control de) ?r ?q = (r, oc)" by fastforce
  show thesis
  proof (cases oc)
    case (Inl e)
    with O have "Open (de_lookup de) (de_interfere de) ?r ?q = (r, Inl e)"
      by (simp add: control_Open_def split: option.splits)
    then obtain reason r0 where F: "r0 = ?r \<or> r0 = de_interfere de ?r" "r = rejectLocked reason r0" by (rule Open_failed)
    have "res = Inl e" "pl_sessions pl' = pl_sessions pl" "pl_reg pl' = r"
      using O assms Inl by (auto simp: Dispatch_def openControlledSession_def set_reg_def)
    with F show thesis by (intro failed) simp_all
  next
    case (Inr d)
    obtain resolved l where d: "d = (resolved, l)" by (cases d)
    show thesis
    proof (cases l)
      case None
      have "resolved = [] \<and> (ct_controller (de_control de) = None \<or> q_InboundTag ?q \<noteq> inboundTag)"
        using O Inr d None Open_outcomes [of "de_lookup de" "de_interfere de" ?r ?q r resolved l]
        by (auto simp: control_Open_def split: option.splits)
      with O assms Inr d None show thesis
        by (intro uncontrolled) (auto simp: Dispatch_def openControlledSession_def set_reg_def)
    next
      case (Some a)
      have "Open (de_lookup de) (de_interfere de) ?r ?q = (r, Inr (resolved, Some a))"
        using O Inr d Some by (auto simp: control_Open_def split: option.splits)
      then show thesis
        by (rule controlled) (use O assms Inr d Some in \<open>auto simp: Dispatch_def openControlledSession_def Let_def\<close>)
    qed
  qed
qed

text \<open>C8: A controlled session is dispatched only as the policy allows. Whatever other operations do while the
  target is resolved: an error leaves neither a session nor a lease behind, only the count of the
  rejection. A session without control exists only without a
  controller or on another inbound, and its destination is unchanged. A controlled session has splicing
  disabled and a lease of the user and the canonical source of the connection; in the snapshot installed
  at that moment that user exists, the source is not disconnected, and the port and every address the
  destination stands for are not forbidden; these are exactly the addresses that the resolver returned,
  or the literal address. For a domain the destination is changed to one of the checked addresses, so no
  second lookup decides where the traffic goes.\<close>

theorem dispatch_checks_policy:
  assumes "Dispatch de ctx ib ds pl = (pl', res)"
  shows "case res of
      Inl e \<Rightarrow> pl_sessions pl' = pl_sessions pl \<and>
        (\<exists>reason r. (r = pl_reg pl \<or> r = de_interfere de (pl_reg pl)) \<and> pl_reg pl' = rejectLocked reason r)
    | Inr (ib', ds', None) \<Rightarrow> pl_sessions pl' = pl_sessions pl \<and> ds' = ds \<and>
        (ct_controller (de_control de) = None \<or> q_InboundTag (session_request ib ds) \<noteq> inboundTag)
    | Inr (ib', ds', Some k) \<Rightarrow>
        (\<forall>i. ib' = Some i \<longrightarrow> ib_CanSpliceCopy i = 3) \<and> k = length (pl_sessions pl) \<and> length (pl_sessions pl') = Suc k \<and>
        (\<exists>uid source u addresses.
          userID (pl_reg pl) (q_Email (session_request ib ds)) = Some uid \<and>
          CanonicalIP (q_SourceIP (session_request ib ds)) = Some source \<and>
          le_userID (r_leases (pl_reg pl') ! cs_lease (pl_sessions pl' ! k)) = uid \<and>
          le_sourceIP (r_leases (pl_reg pl') ! cs_lease (pl_sessions pl' ! k)) = source \<and>
          fmlookup (r_users (de_interfere de (pl_reg pl))) uid = Some u \<and> \<not> r_closed (de_interfere de (pl_reg pl)) \<and>
          \<not> contains (u_DisconnectIPs u) source \<and> \<not> PortBlocked (u_ForbiddenPorts u) (uint (ds_Port ds)) \<and>
          addresses \<noteq> [] \<and> (\<forall>x \<in> set addresses. \<not> IPBlocked (u_ForbiddenIPs u) x) \<and>
          (case parse_addr (trim_brackets (ds_Address ds)) of
             Some d \<Rightarrow> addresses = [addr_string (unmap d)] \<and> ds' = ds
           | None \<Rightarrow> (\<exists>as. de_lookup de (trim_brackets (ds_Address ds)) = Some as \<and>
                 set addresses = (\<lambda>d. addr_string (unmap d)) ` set as) \<and>
               (\<exists>x \<in> set addresses. ds' = ds\<lparr>ds_Address := fst (de_parseAddress de x),
                 ds_Domain := snd (de_parseAddress de x)\<rparr>)))"
  using assms
proof (cases rule: Dispatch_cases)
  case (controlled r resolved a)
  let ?q = "session_request ib ds" and ?r = "pl_reg pl"
  note op = controlled(1) and R = controlled(2,3)
  have a: "a < length (r_leases (pl_reg (set_reg r pl)))" using Open_outcomes [OF op] by (simp add: set_reg_def)
  note A = attach_terms [OF a, of ctx]
  have l: "cs_lease (pl_sessions pl' ! length (pl_sessions pl)) = a" "length (pl_sessions pl') = Suc (length (pl_sessions pl))"
      "le_userID (r_leases (pl_reg pl') ! a) = le_userID (r_leases r ! a)"
      "le_sourceIP (r_leases (pl_reg pl') ! a) = le_sourceIP (r_leases r ! a)"
    using A by (simp_all add: R(1) set_reg_def terms_of_def)
  have f: "q_DestinationHost ?q = ds_Address ds" "q_DestinationPort ?q = ds_Port ds" by (simp_all add: session_request_def)
  from open_checks_policy [OF op] obtain uid source u addresses where P:
      "userID ?r (q_Email ?q) = Some uid" "CanonicalIP (q_SourceIP ?q) = Some source"
      "fmlookup (r_users (de_interfere de ?r)) uid = Some u" "\<not> r_closed (de_interfere de ?r)"
      "\<not> contains (u_DisconnectIPs u) source" "\<not> PortBlocked (u_ForbiddenPorts u) (uint (ds_Port ds))"
      "addresses \<noteq> []" "\<forall>x \<in> set addresses. \<not> IPBlocked (u_ForbiddenIPs u) x"
      "le_userID (r_leases r ! a) = uid" "le_sourceIP (r_leases r ! a) = source"
      and D: "case parse_addr (trim_brackets (ds_Address ds)) of
         Some d \<Rightarrow> addresses = [addr_string (unmap d)] \<and> resolved = []
       | None \<Rightarrow> resolved \<in> set addresses \<and> (\<exists>as. de_lookup de (trim_brackets (ds_Address ds)) = Some as \<and>
           set addresses = (\<lambda>d. addr_string (unmap d)) ` set as)"
    unfolding f by blast
  have s: "\<forall>i. map_option (\<lambda>i. i\<lparr>ib_CanSpliceCopy := 3\<rparr>) ib = Some i \<longrightarrow> ib_CanSpliceCopy i = 3" by auto
  show ?thesis unfolding R(2) sum.case prod.case option.case l
    by (intro conjI s refl exI [of _ uid] exI [of _ source] exI [of _ u] exI [of _ addresses] P
      pinned_target [OF D, where pin = "\<lambda>x. ds\<lparr>ds_Address := fst (de_parseAddress de x),
        ds_Domain := snd (de_parseAddress de x)\<rparr>"])
next
  case (failed e reason r)
  then show ?thesis by (cases res) (simp_all, blast)
qed simp

theorem dispatch_checks_policy_witness:
  "\<exists>pl' ib' ds'. Dispatch sample_env 7 (Some sample_inbound) sample_target (sample_plane []) = (pl', Inr (ib', ds', Some 0)) \<and>
     le_sourceIP (r_leases (pl_reg pl') ! cs_lease (pl_sessions pl' ! 0)) = ''0.0.0.8''"
proof -
  let ?o = "Open (\<lambda>_. Some [V4 1]) id (m_reg (sample_machine [])) sample_request"
  have s: "session_request (Some sample_inbound) sample_target = sample_request"
      "pl_reg (sample_plane []) = m_reg (sample_machine [])" "pl_sessions (sample_plane []) = []"
    by (simp_all add: session_request_def sample_inbound_def sample_target_def sample_request_def sample_plane_def
        sample_machine_def plane_boot_def)
  obtain r where "?o = (r, Inr (''0.0.0.1'', Some 0))" using sample_open by (cases ?o) simp
  then obtain pl' ib' ds' where D: "Dispatch sample_env 7 (Some sample_inbound) sample_target (sample_plane []) = (pl', Inr (ib', ds', Some 0))"
    by (auto simp: Dispatch_def openControlledSession_def control_Open_def sample_env_def s Let_def split: prod.splits sum.splits option.splits)
  from dispatch_checks_policy [OF D] have "le_sourceIP (r_leases (pl_reg pl') ! cs_lease (pl_sessions pl' ! 0)) = ''0.0.0.8''"
    unfolding s by (auto simp: sample_request_def sample_open_parts)
  with D show ?thesis by blast
qed

text \<open>
  \<^verbatim>\<open>DispatchLink\<close>, which serves a link until it is done and closes its session on every path: \<open>serving\<close> is what
  happens until then. \<^verbatim>\<open>bindDirect\<close> binds the interrupt as \<^verbatim>\<open>bind\<close> does.
\<close>

definition DispatchLink :: "dispatch_env \<Rightarrow> nat \<Rightarrow> inbound option \<Rightarrow> destination \<Rightarrow> (destination \<Rightarrow> plane \<Rightarrow> plane) \<Rightarrow> plane \<Rightarrow>
    plane \<times> session_error option" where
  "DispatchLink de ctx ib ds serving pl =
     (case Dispatch de ctx ib ds pl of
        (pl1, Inl e) \<Rightarrow> (pl1, Some e)
      | (pl1, Inr (ib', ds', k)) \<Rightarrow>
          let pl2 = serving ds' pl1 in ((case k of None \<Rightarrow> pl2 | Some k \<Rightarrow> controlled_close k pl2), None))"

lemma DispatchLink_closes:
  assumes "Dispatch de ctx ib ds pl = (pl1, Inr (ib', ds', Some k))" and "k < length (pl_sessions (serving ds' pl1))"
  shows "cs_once (pl_sessions (fst (DispatchLink de ctx ib ds serving pl)) ! k)"
  using assms controlled_close_fields(4) [OF assms(2), of k] by (simp add: DispatchLink_def)

end
