(* ===== verification/Traffic.thy ===== *)
theory Traffic
  imports Session_Control
begin

text \<open>
  The traffic of a session: every lease holds limiters that the registry made for its user and for the
  node, and the controlled reader and writer of \<^verbatim>\<open>app/dispatcher/sessioncontrol.go\<close> charge them for what
  passes.
\<close>

subsection \<open>The limiters of a lease\<close>

definition made :: "int64 option \<Rightarrow> limiter option \<Rightarrow> bool" where
  "made owner rate \<longleftrightarrow> rate = None \<or> (\<exists>gen mbps. newLimiter gen owner mbps = rate)"

definition rates :: "registry \<Rightarrow> (limiter option \<times> limiter option) list" where
  "rates r = map (\<lambda>l. (le_userRate l, le_nodeRate l)) (r_leases r)"

text \<open>The limiters in force and those that leases hold were made for the user and for the node.\<close>

definition limiters_ok :: "registry \<Rightarrow> bool" where
  "limiters_ok r \<longleftrightarrow> made None (r_nodeLimiter r) \<and> (\<forall>uid. made (Some uid) (limiter_of r uid)) \<and>
     (\<forall>(u, n) \<in> set (rates r). (\<exists>uid. made (Some uid) u) \<and> made None n)"

lemma made_new: "made owner (newLimiter gen owner mbps)"
  by (auto simp: made_def)

lemma limiters_ok_cong:
  "r_nodeLimiter r' = r_nodeLimiter r \<Longrightarrow> r_userLimiters r' = r_userLimiters r \<Longrightarrow> rates r' = rates r \<Longrightarrow>
   limiters_ok r' = limiters_ok r"
  by (simp add: limiters_ok_def limiter_of_def)

lemma map_upd_same: "a < length xs \<Longrightarrow> f y = f (xs ! a) \<Longrightarrow> map f (xs[a := y]) = map f xs"
  by (simp add: map_update list_update_same_conv)

lemma rates_revoke_loop:
  "map (\<lambda>l. (le_userRate l, le_nodeRate l)) (fst (revoke_loop users sources as ls cs)) =
   map (\<lambda>l. (le_userRate l, le_nodeRate l)) ls"
proof (induction as arbitrary: ls cs)
  case (Cons a as)
  have "map (\<lambda>l. (le_userRate l, le_nodeRate l)) (ls[a := (ls ! a)\<lparr>le_revoked := True, le_cancelled := True\<rparr>]) =
      map (\<lambda>l. (le_userRate l, le_nodeRate l)) ls"
    by (cases "a < length ls") (simp_all add: map_upd_same list_update_beyond)
  with Cons.IH show ?case by (simp add: revoke_loop.simps Let_def)
qed (simp add: revoke_loop.simps)

lemma rates_revoke [simp]: "rates (fst (revokeLocked users sources r)) = rates r"
proof -
  obtain ls cs where "revoke_loop users sources (session_addrs r) (r_leases r) [] = (ls, cs)" by fastforce
  with rates_revoke_loop [of users sources "session_addrs r" "r_leases r" "[]"] show ?thesis
    by (simp add: revokeLocked_def rates_def)
qed

lemma rates_enforce_user: "enforce_user uid r = Some (r', cs, b) \<Longrightarrow> rates r' = rates r"
  by (auto simp: enforce_user_def Let_def split: option.splits if_splits prod.splits) (metis fst_conv rates_revoke)

lemma rates_enforce_loop: "enforce_loop uids r = Some (r', cs, us) \<Longrightarrow> rates r' = rates r"
  by (induction uids arbitrary: r r' cs us) (fastforce split: option.splits prod.splits dest: rates_enforce_user)+

lemma rates_Update:
  assumes "Update s r = Some (r', cs, us)"
  shows "rates r' = rates r"
proof -
  obtain users sources r2 cs2 where R: "revokeLocked users sources (installSnapshot s (Some (r_users r)) r) = (r2, cs2)"
      "\<exists>cs3 us3. enforceConnectorsLocked r2 = Some (r', cs3, us3)"
    using assms by (fastforce simp: Update_def Let_def split: option.splits prod.splits)
  then have "rates r' = rates r2" using rates_enforce_loop unfolding enforceConnectorsLocked_def by blast
  also have "\<dots> = rates (installSnapshot s (Some (r_users r)) r)" using R(1) rates_revoke by (metis fst_conv)
  finally show ?thesis by (simp add: rates_def)
qed

lemma limiters_ok_install:
  assumes "limiters_ok r"
  shows "limiters_ok (installSnapshot s old r)"
proof -
  have "made None (r_nodeLimiter (installSnapshot s old r))"
    using assms by (simp add: installSnapshot_def Let_def limiters_ok_def made_new)
  moreover have "made (Some uid) (limiter_of (installSnapshot s old r) uid)" for uid
    using assms by (auto simp: installSnapshot_def Let_def limiters_ok_def limiter_of_def [of "_\<lparr>r_generation := _\<rparr>"] made_new made_def
        split: option.split)
  ultimately show ?thesis using assms by (simp add: limiters_ok_def rates_def)
qed

lemma limiters_ok_Update:
  assumes "limiters_ok r" and "Update s r = Some (r', cs, us)"
  shows "limiters_ok r'"
proof -
  let ?r = "installSnapshot s (Some (r_users r)) r"
  have "r_nodeLimiter r' = r_nodeLimiter ?r" "r_userLimiters r' = r_userLimiters ?r"
    using body_Update [OF assms(2)] by (cases r'; cases ?r; simp add: body_def)+
  moreover have "rates r' = rates ?r" using rates_Update [OF assms(2)] by (simp add: rates_def)
  ultimately show ?thesis using limiters_ok_install [OF assms(1)] limiters_ok_cong by blast
qed

lemma limiters_frame:
  "limiters_ok (rejectLocked reason r) = limiters_ok r"
  "limiters_ok (fst (AcquireHandshake r q)) = limiters_ok r" "limiters_ok (release_handshake h r) = limiters_ok r"
  "limiters_ok (r\<lparr>r_closed := b\<rparr>) = limiters_ok r"
  by (rule limiters_ok_cong; simp add: rejectLocked_def AcquireHandshake_def release_handshake_def rates_def)+

lemma limiters_revoke: "limiters_ok (fst (revokeLocked users sources r)) = limiters_ok r"
  by (rule limiters_ok_cong) (simp_all, simp_all add: revokeLocked_def split: prod.split)

lemma limiters_leases:
  assumes "r_leases r' = (r_leases r)[a := l]" and "le_userRate l = le_userRate (r_leases r ! a)"
    and "le_nodeRate l = le_nodeRate (r_leases r ! a)"
  shows "rates r' = rates r"
  using assms map_upd_same [of a "r_leases r" "\<lambda>l. (le_userRate l, le_nodeRate l)" l]
  by (cases "a < length (r_leases r)") (simp_all add: rates_def list_update_beyond)

lemma limiters_ok_register:
  assumes "limiters_ok r"
  shows "limiters_ok (register r p)"
  using assms by (auto simp: limiters_ok_def rates_def register_leases limiter_of_def)

lemma limiters_rebind: "limiters_ok r \<Longrightarrow> Rebind a v r = (r', res) \<Longrightarrow> limiters_ok r'"
proof -
  assume r: "limiters_ok r" and "Rebind a v r = (r', res)"
  from this(2) show ?thesis
  proof (cases rule: Rebind_cases)
    case (rejected reason)
    with r show ?thesis by (simp add: limiters_frame)
  next
    case same
    with r show ?thesis by simp
  next
    case (moved ip u)
    have "rates (rebound a ip r) = rates r" by (rule limiters_leases [OF rebound_leases]) (simp_all add: moved_def)
    moreover have "r_nodeLimiter (rebound a ip r) = r_nodeLimiter r" "r_userLimiters (rebound a ip r) = r_userLimiters r"
      by (simp_all add: rebound_def upd_lease_def add_source_def removeSourceLocked_def Let_def)
    ultimately show ?thesis using r moved limiters_ok_cong by metis
  qed
qed

lemma limiters_close: "limiters_ok (lease_Close a r) = limiters_ok r"
proof (cases "le_once (r_leases r ! a)")
  case False
  show ?thesis
  proof (rule limiters_ok_cong)
    show "rates (lease_Close a r) = rates r"
      by (rule limiters_leases [OF lease_Close_fields(1) [OF False]]) (simp_all add: closed_lease_def)
  qed (simp_all add: lease_Close_def Let_def False upd_lease_def removeSourceLocked_def)
qed (simp add: lease_Close_def Let_def)

lemma limiters_bind: "limiters_ok (fst (BindInterrupt a f r)) = limiters_ok r"
  by (rule limiters_ok_cong) (simp_all add: BindInterrupt_def upd_lease_def limiters_leases [of _ r a] )

lemma limiters_prepare: "limiters_ok (fst (Open_prepare lookup r q)) = limiters_ok r"
  by (auto simp: Open_prepare_def reject_def limiters_frame split: option.split sum.split)

lemma limiters_commit: "limiters_ok r \<Longrightarrow> limiters_ok (fst (Open_commit r p))"
  by (auto simp: Open_commit_def reject_def limiters_frame limiters_ok_register split: option.split)

lemma limiters_perform: "limiters_ok (m_reg m) \<Longrightarrow> limiters_ok (m_reg (perform m e))"
  by (cases e)
     (auto simp: limiters_frame limiters_prepare limiters_commit RevokeUsers_def Close_def limiters_revoke limiters_bind
       limiters_close split: option.split dest: limiters_ok_Update intro: limiters_rebind [OF _ prod.collapse [symmetric]])

interpretation lmt: step_invariant session_step "\<lambda>_ _. True" "\<lambda>m. limiters_ok (m_reg m)"
  by unfold_locales (simp add: session_step_def limiters_perform)

lemma limiters_New: "limiters_ok (New s cfg)"
  unfolding New_def by (rule limiters_ok_install) (simp add: limiters_ok_def rates_def limiter_of_def made_def)

lemma lease_rates:
  assumes "l \<in> set (r_leases (m_reg (run session_step (boot s cfg) es)))"
  shows "(\<exists>uid. made (Some uid) (le_userRate l)) \<and> made None (le_nodeRate l)"
proof -
  have "limiters_ok (m_reg (boot s cfg))" by (simp add: boot_def limiters_New)
  moreover have "enabled_run session_step (\<lambda>_ _. True) m es" for m by (induction es arbitrary: m) simp_all
  ultimately have "limiters_ok (m_reg (run session_step (boot s cfg) es))" by (rule lmt.inv_run)
  with assms show ?thesis by (force simp: limiters_ok_def rates_def)
qed

subsection \<open>Readers and writers\<close>

text \<open>
  The controlled reader and writer: what passes is charged to the lease before. A buffer list is a
  list of strings. The outer \<^term>\<open>None\<close> stands for a call that does not return, \<open>Inl\<close> for the refusal of
  \<^verbatim>\<open>Wait\<close>; \<open>err\<close> is the error of the reader or writer behind.
\<close>

definition wrap32 :: "int \<Rightarrow> int" where
  "wrap32 x = (x + 2 ^ 31) mod 2 ^ 32 - 2 ^ 31"

text \<open>\<^verbatim>\<open>MultiBuffer.Len\<close> adds the lengths in an \<^verbatim>\<open>int32\<close>.\<close>

definition mb_len :: "string list \<Rightarrow> int" where
  "mb_len mb = foldl (\<lambda>size b. wrap32 (size + wrap32 (int (length b)))) 0 mb"

definition ReadMultiBuffer :: "(limiter \<Rightarrow> 'w \<Rightarrow> int \<Rightarrow> 'w option) \<Rightarrow> lease \<Rightarrow> string list \<Rightarrow> bool \<Rightarrow> 'w \<Rightarrow>
    (unit + string list \<times> bool \<times> 'w) option" where
  "ReadMultiBuffer waitN l mb err w =
     (if length mb \<noteq> 0 then
        (case Wait waitN l (mb_len mb) w of
           None \<Rightarrow> None
         | Some None \<Rightarrow> Some (Inl ())
         | Some (Some w') \<Rightarrow> Some (Inr (mb, err, w')))
      else Some (Inr (mb, err, w)))"

definition WriteMultiBuffer :: "(limiter \<Rightarrow> 'w \<Rightarrow> int \<Rightarrow> 'w option) \<Rightarrow> lease \<Rightarrow> string list \<Rightarrow> bool \<Rightarrow> 'w \<Rightarrow>
    (unit + string list \<times> bool \<times> 'w) option" where
  "WriteMultiBuffer waitN l mb err w =
     (if length mb \<noteq> 0 then
        (case Wait waitN l (mb_len mb) w of
           None \<Rightarrow> None
         | Some None \<Rightarrow> Some (Inl ())
         | Some (Some w') \<Rightarrow> Some (Inr (mb, err, w')))
      else Some (Inr (mb, err, w)))"

datatype io = IoRead "string list" bool | IoWrite "string list" bool

fun do_io :: "(limiter \<Rightarrow> 'w \<Rightarrow> int \<Rightarrow> 'w option) \<Rightarrow> lease \<Rightarrow> io \<Rightarrow> 'w \<Rightarrow> (unit + string list \<times> bool \<times> 'w) option" where
  "do_io waitN l (IoRead mb err) w = ReadMultiBuffer waitN l mb err w"
| "do_io waitN l (IoWrite mb err) w = WriteMultiBuffer waitN l mb err w"

fun io_bytes :: "io \<Rightarrow> string" where
  "io_bytes (IoRead mb err) = concat mb"
| "io_bytes (IoWrite mb err) = concat mb"

lemma wrap32_add: "wrap32 (wrap32 x + y) = wrap32 (x + y)" "wrap32 (x + wrap32 y) = wrap32 (x + y)"
proof -
  have e: "wrap32 x + y + 2 ^ 31 = (x + 2 ^ 31) mod 2 ^ 32 + y" "x + wrap32 y + 2 ^ 31 = x + (y + 2 ^ 31) mod 2 ^ 32"
    by (simp_all add: wrap32_def)
  show "wrap32 (wrap32 x + y) = wrap32 (x + y)" unfolding wrap32_def [of "wrap32 x + y"] e
    by (simp only: mod_add_left_eq) (simp add: wrap32_def algebra_simps)
  show "wrap32 (x + wrap32 y) = wrap32 (x + y)" unfolding wrap32_def [of "x + wrap32 y"] e
    by (simp only: mod_add_right_eq) (simp add: wrap32_def algebra_simps)
qed

lemma wrap32_id: "0 \<le> x \<Longrightarrow> x < 2 ^ 31 \<Longrightarrow> wrap32 x = x"
  by (simp add: wrap32_def)

lemma mb_len_wrap: "mb_len mb = wrap32 (int (length (concat mb)))"
proof -
  have "foldl (\<lambda>size b. wrap32 (size + wrap32 (int (length b)))) (wrap32 x) mb = wrap32 (x + int (length (concat mb)))" for x
    by (induction mb arbitrary: x) (simp_all add: wrap32_add add.assoc)
  from this [of 0] show ?thesis by (simp add: mb_len_def wrap32_id)
qed

lemma mb_len_exact: "int (length (concat mb)) < 2 ^ 31 \<Longrightarrow> mb_len mb = int (length (concat mb))"
  by (simp add: mb_len_wrap wrap32_id)

text \<open>A buffer list of two gigabytes or more, up to four, has a negative length and passes uncharged.\<close>

lemma oversized_list_uncharged:
  assumes "2 ^ 31 \<le> int (length (concat mb))" and "int (length (concat mb)) < 2 ^ 32"
  shows "ReadMultiBuffer waitN l mb err w = Some (Inr (mb, err, w)) \<and> WriteMultiBuffer waitN l mb err w = Some (Inr (mb, err, w))"
proof -
  have "int (length (concat mb)) + 2 ^ 31 = (int (length (concat mb)) - 2 ^ 31) + 2 ^ 32" by simp
  then have "mb_len mb = int (length (concat mb)) - 2 ^ 31 - 2 ^ 31"
    using assms by (simp only: mb_len_wrap wrap32_def mod_add_self2) simp
  then have "mb_len mb \<le> 0" using assms(2) by simp
  then show ?thesis by (simp add: ReadMultiBuffer_def WriteMultiBuffer_def Wait_def)
qed

text \<open>A session transfers until an operation is refused or fails: the bytes that passed, and the
  limiters afterwards unless one refused.\<close>

fun transfer :: "(limiter \<Rightarrow> 'w \<Rightarrow> int \<Rightarrow> 'w option) \<Rightarrow> lease \<Rightarrow> io list \<Rightarrow> 'w \<Rightarrow> (string \<times> 'w option) option" where
  "transfer waitN l [] w = Some ([], Some w)"
| "transfer waitN l (x # xs) w =
     (case do_io waitN l x w of
        None \<Rightarrow> None
      | Some (Inl _) \<Rightarrow> Some ([], None)
      | Some (Inr (mb, err, w')) \<Rightarrow>
          if err then Some (concat mb, Some w')
          else map_option (\<lambda>(ps, w''). (concat mb @ ps, w'')) (transfer waitN l xs w'))"

text \<open>A limiter that keeps account of what it granted, for any rule by which it grants.\<close>

definition metered :: "(limiter \<Rightarrow> (limiter \<Rightarrow> int) \<Rightarrow> int \<Rightarrow> bool) \<Rightarrow> limiter \<Rightarrow> (limiter \<Rightarrow> int) \<Rightarrow> int \<Rightarrow> (limiter \<Rightarrow> int) option" where
  "metered grants lm g n = (if grants lm g n then Some (g(lm := g lm + n)) else None)"

text \<open>\<^verbatim>\<open>WaitN\<close> fails when the context of the lease is cancelled.\<close>

definition with_context :: "bool \<Rightarrow> (limiter \<Rightarrow> 'w \<Rightarrow> int \<Rightarrow> 'w option) \<Rightarrow> limiter \<Rightarrow> 'w \<Rightarrow> int \<Rightarrow> 'w option" where
  "with_context cancelled waitN lm w n = (if cancelled then None else waitN lm w n)"

definition proper_rates :: "lease \<Rightarrow> bool" where
  "proper_rates l \<longleftrightarrow> (\<forall>lm. le_userRate l = Some lm \<or> le_nodeRate l = Some lm \<longrightarrow>
       (\<exists>gen owner mbps. newLimiter gen owner mbps = Some lm)) \<and>
     (le_userRate l = le_nodeRate l \<longrightarrow> le_userRate l = None)"

lemma charge_metered:
  "charge_all (metered grants lm) g cs = Some g' \<Longrightarrow> g' = g(lm := g lm + sum_list cs)"
proof (induction cs arbitrary: g)
  case (Cons c cs)
  from Cons.prems have "charge_all (metered grants lm) (g(lm := g lm + c)) cs = Some g'"
    by (simp add: metered_def [of grants lm g c] split: if_splits)
  from Cons.IH [OF this] show ?case by (auto simp: fun_eq_iff add.assoc)
qed simp

lemma wait_metered:
  assumes "\<exists>gen owner mbps. newLimiter gen owner mbps = Some lm" and "0 < n"
  shows "\<exists>x. wait (metered grants) (Some lm) n g = Some x \<and> (\<forall>g'. x = Some g' \<longrightarrow> g' = g(lm := g lm + n))"
proof -
  have "0 < lm_burst lm" using assms(1) newLimiter_burst(1) by fastforce
  then have "wait (metered grants) (Some lm) n g = Some (charge_all (metered grants lm) g (chunks (lm_burst lm) n))"
      "sum_list (chunks (lm_burst lm) n) = n"
    using assms(2) by (simp_all add: wait_def wait_loop_chunks sum_chunks)
  then show ?thesis using charge_metered by (metis (no_types))
qed

text \<open>What the limiters of a lease have granted more.\<close>

definition charged :: "lease \<Rightarrow> int \<Rightarrow> (limiter \<Rightarrow> int) \<Rightarrow> (limiter \<Rightarrow> int) \<Rightarrow> bool" where
  "charged l n g g' \<longleftrightarrow> (\<forall>lm. g' lm = g lm + (if le_userRate l = Some lm \<or> le_nodeRate l = Some lm then n else 0))"

lemma Wait_metered:
  assumes "proper_rates l" and "0 \<le> n"
  shows "\<exists>x. Wait (metered grants) l n g = Some x \<and> (\<forall>g'. x = Some g' \<longrightarrow> charged l n g g')"
proof (cases "n = 0")
  case True
  then show ?thesis by (simp add: Wait_def charged_def)
next
  case False
  with assms(2) have n: "0 < n" by simp
  have one: "\<exists>x. wait (metered grants) rate n h = Some x \<and>
      (\<forall>h'. x = Some h' \<longrightarrow> h' = (case rate of None \<Rightarrow> h | Some lm \<Rightarrow> h(lm := h lm + n)))"
    if "\<forall>lm. rate = Some lm \<longrightarrow> (\<exists>gen owner mbps. newLimiter gen owner mbps = Some lm)" for rate h
    using that wait_metered [OF _ n] by (cases rate) (auto simp: wait_def)
  have P: "\<forall>lm. le_userRate l = Some lm \<longrightarrow> (\<exists>gen owner mbps. newLimiter gen owner mbps = Some lm)"
      "\<forall>lm. le_nodeRate l = Some lm \<longrightarrow> (\<exists>gen owner mbps. newLimiter gen owner mbps = Some lm)"
    using assms(1) by (auto simp: proper_rates_def)
  obtain x where X: "wait (metered grants) (le_userRate l) n g = Some x"
      "\<forall>h. x = Some h \<longrightarrow> h = (case le_userRate l of None \<Rightarrow> g | Some lm \<Rightarrow> g(lm := g lm + n))"
    using one [OF P(1)] by blast
  show ?thesis
  proof (cases x)
    case None
    with X n show ?thesis by (simp add: Wait_def)
  next
    case (Some h)
    obtain y where Y: "wait (metered grants) (le_nodeRate l) n h = Some y"
        "\<forall>h'. y = Some h' \<longrightarrow> h' = (case le_nodeRate l of None \<Rightarrow> h | Some lm \<Rightarrow> h(lm := h lm + n))"
      using one [OF P(2)] by blast
    have "charged l n g h'" if "y = Some h'" for h'
      using that X(2) Y(2) Some assms(1) by (auto simp: charged_def proper_rates_def split: option.splits)
    with X Y Some n show ?thesis by (auto simp: Wait_def)
  qed
qed

lemma do_io_metered:
  assumes "proper_rates l" and "int (length (io_bytes i)) < 2 ^ 31"
  shows "\<exists>x. do_io (metered grants) l i g = Some x \<and>
    (\<forall>mb err g'. x = Inr (mb, err, g') \<longrightarrow> charged l (int (length (concat mb))) g g')"
proof -
  note W = Wait_metered [OF assms(1) of_nat_0_le_iff, of grants]
  have z: "charged l 0 g g" by (simp add: charged_def)
  show ?thesis
  proof (cases i)
    case (IoRead mb err)
    with W [of "length (concat mb)" g] z assms(2) show ?thesis
      by (auto simp: ReadMultiBuffer_def mb_len_exact split: option.splits)
  next
    case (IoWrite mb err)
    with W [of "length (concat mb)" g] z assms(2) show ?thesis
      by (auto simp: WriteMultiBuffer_def mb_len_exact split: option.splits)
  qed
qed

lemma charged_add: "charged l m g h \<Longrightarrow> charged l n h g' \<Longrightarrow> charged l (m + n) g g'"
  by (simp add: charged_def)

lemma transfer_metered:
  assumes "proper_rates l" and "\<forall>x \<in> set xs. int (length (io_bytes x)) < 2 ^ 31"
  shows "\<exists>passed rest n g'. transfer (metered grants) l xs g = Some (passed, rest) \<and>
    transfer (metered grants) l (take n xs) g = Some (passed, Some g') \<and> charged l (int (length passed)) g g'"
  using assms(2)
proof (induction xs arbitrary: g)
  case Nil
  show ?case by (simp add: charged_def)
next
  case (Cons x xs)
  obtain res where R: "do_io (metered grants) l x g = Some res"
      "\<forall>mb err g'. res = Inr (mb, err, g') \<longrightarrow> charged l (int (length (concat mb))) g g'"
    using do_io_metered [OF assms(1)] Cons.prems by (metis list.set_intros(1))
  show ?case
  proof (cases res)
    case (Inl u)
    have "charged l (int (length ([] :: string))) g g" by (simp add: charged_def)
    moreover have "transfer (metered grants) l (take 0 (x # xs)) g = Some ([], Some g)" by simp
    moreover have "transfer (metered grants) l (x # xs) g = Some ([], None)" using R(1) Inl by simp
    ultimately show ?thesis by blast
  next
    case (Inr t)
    obtain mb err h where t: "t = (mb, err, h)" by (cases t)
    have c: "charged l (int (length (concat mb))) g h" using R(2) Inr t by blast
    show ?thesis
    proof (cases err)
      case True
      with R(1) Inr t have "transfer (metered grants) l (x # xs) g = Some (concat mb, Some h)"
          "transfer (metered grants) l (take (Suc 0) (x # xs)) g = Some (concat mb, Some h)" by simp_all
      with c show ?thesis by blast
    next
      case False
      obtain passed rest n g' where I: "transfer (metered grants) l xs h = Some (passed, rest)"
          "transfer (metered grants) l (take n xs) h = Some (passed, Some g')" "charged l (int (length passed)) h g'"
        using Cons.IH [of h] Cons.prems by auto
      with R(1) Inr t False have "transfer (metered grants) l (x # xs) g = Some (concat mb @ passed, rest)"
          "transfer (metered grants) l (take (Suc n) (x # xs)) g = Some (concat mb @ passed, Some g')" by simp_all
      moreover have "charged l (int (length (concat mb @ passed))) g g'" using charged_add [OF c I(3)] by simp
      ultimately show ?thesis by blast
    qed
  qed
qed

lemma wait_cancelled:
  assumes "0 < n"
  shows "wait (with_context True waitN) rate n w = Some (if rate = None then Some w else None)"
  using assms by (cases rate) (auto simp: wait_def with_context_def Let_def wait_loop.simps [of _ _ n])

lemma Wait_cancelled:
  "Wait (with_context True waitN) l n w = Some (if n \<le> 0 \<or> le_userRate l = None \<and> le_nodeRate l = None then Some w else None)"
  by (auto simp: Wait_def wait_cancelled)

lemma transfer_cancelled:
  assumes "le_userRate l \<noteq> None \<or> le_nodeRate l \<noteq> None" and "\<forall>x \<in> set xs. int (length (io_bytes x)) < 2 ^ 31"
  shows "\<exists>rest. transfer (with_context True waitN) l xs w = Some ([], rest)"
  using assms(2)
proof (induction xs)
  case (Cons x xs)
  have "\<exists>y. do_io (with_context True waitN) l x w = Some y \<and> (\<forall>mb err w'. y = Inr (mb, err, w') \<longrightarrow> concat mb = [] \<and> w' = w)"
    using assms(1) Cons.prems
    by (cases x) (auto simp: ReadMultiBuffer_def WriteMultiBuffer_def Wait_cancelled mb_len_exact)
  then obtain y where Y: "do_io (with_context True waitN) l x w = Some y"
      "\<forall>mb err w'. y = Inr (mb, err, w') \<longrightarrow> concat mb = [] \<and> w' = w" by blast
  show ?case
  proof (cases y)
    case (Inr t)
    obtain mb err w' where t: "t = (mb, err, w')" by (cases t)
    with Y Inr Cons.IH Cons.prems show ?thesis by auto
  qed (use Y in simp)
qed simp

lemma newLimiter_owner: "newLimiter gen owner mbps = Some lm \<Longrightarrow> lm_owner lm = owner"
  by (auto simp: newLimiter_def Let_def split: if_splits)

lemma made_rates: "made (Some uid) (le_userRate l) \<Longrightarrow> made None (le_nodeRate l) \<Longrightarrow> proper_rates l"
  unfolding proper_rates_def made_def by (metis newLimiter_owner not_None_eq option.distinct(1))

lemma with_context_metered: "with_context c (metered grants) = metered (\<lambda>lm g n. \<not> c \<and> grants lm g n)"
  by (auto simp: with_context_def metered_def fun_eq_iff)

text \<open>C27: All traffic of a session goes through its limiters. For every lease that the registry ever granted,
  after any sequence of operations, and for any reads and writes of less than two gigabytes each, the
  range of the \<^verbatim>\<open>int32\<close> in which \<^verbatim>\<open>MultiBuffer.Len\<close> counts: reading and writing always return, the bytes
  that passed were all charged before, to the limiter of the user and to that of the node, exactly once
  each and to no other limiter, whatever rule the limiters grant by; and once the lease is cancelled, a
  session with a limiter passes nothing more.\<close>

theorem traffic_passes_limiters:
  assumes "l \<in> set (r_leases (m_reg (run session_step (boot s cfg) es)))"
    and "waitN = with_context (le_cancelled l) (metered grants)"
    and "\<forall>x \<in> set xs. int (length (io_bytes x)) < 2 ^ 31"
  shows "\<exists>passed rest n g'. transfer waitN l xs g = Some (passed, rest) \<and>
      transfer waitN l (take n xs) g = Some (passed, Some g') \<and>
      (\<forall>lm. g' lm = g lm + (if le_userRate l = Some lm \<or> le_nodeRate l = Some lm then int (length passed) else 0)) \<and>
      (le_cancelled l \<and> (le_userRate l \<noteq> None \<or> le_nodeRate l \<noteq> None) \<longrightarrow> passed = [])"
proof -
  have "proper_rates l" using lease_rates [OF assms(1)] made_rates by blast
  then obtain passed rest n g' where T: "transfer waitN l xs g = Some (passed, rest)"
      "transfer waitN l (take n xs) g = Some (passed, Some g')" "charged l (int (length passed)) g g'"
    using transfer_metered [OF _ assms(3), of l _ g] unfolding assms(2) with_context_metered by blast
  have "passed = []" if "le_cancelled l" "le_userRate l \<noteq> None \<or> le_nodeRate l \<noteq> None"
    using transfer_cancelled [OF that(2) assms(3), of "metered grants" g] T(1) that(1) by (simp add: assms(2))
  with T show ?thesis unfolding charged_def by blast
qed

text \<open>A node with a limiter.\<close>

definition slow_node :: snapshot where
  "slow_node = (sample_snapshot [sample_user 2])\<lparr>s_Node := sample_node\<lparr>n_SpeedLimitMbps := PInf\<rparr>\<rparr>"

definition slow_run :: machine where
  "slow_run = run session_step (boot slow_node (defaults sample_config)) [Commit (sample_pending ''0.0.0.8'')]"

theorem traffic_passes_limiters_witness:
  "\<exists>l lm passed rest n g'. l \<in> set (r_leases (m_reg slow_run)) \<and> le_nodeRate l = Some lm \<and> \<not> le_cancelled l \<and>
     transfer (metered (\<lambda>_ _ _. True)) l [IoRead [''ab''] False, IoWrite [''c''] False] (\<lambda>_. 0) = Some (passed, rest) \<and>
     transfer (metered (\<lambda>_ _ _. True)) l (take n [IoRead [''ab''] False, IoWrite [''c''] False]) (\<lambda>_. 0) = Some (passed, Some g') \<and>
     g' lm = int (length passed)"
proof -
  let ?l = "r_leases (m_reg slow_run) ! 0"
  have "0 < length (r_leases (m_reg slow_run)) \<and> \<not> le_cancelled ?l \<and> \<not> Option.is_none (le_nodeRate ?l)" by code_simp
  then obtain lm where l: "?l \<in> set (r_leases (m_reg slow_run))" "\<not> le_cancelled ?l" "le_nodeRate ?l = Some lm"
    by (auto simp: Option.is_none_def)
  let ?xs = "[IoRead [''ab''] False, IoWrite [''c''] False]"
  have w: "with_context (le_cancelled ?l) (metered (\<lambda>_ _ _. True)) = metered (\<lambda>_ _ _. True)"
    using l(2) by (simp add: with_context_metered)
  have x: "\<forall>x \<in> set ?xs. int (length (io_bytes x)) < 2 ^ 31" by simp
  from traffic_passes_limiters [OF l(1) [unfolded slow_run_def] w [symmetric, unfolded slow_run_def] x, of "\<lambda>_. 0"]
  obtain passed rest n g' where "transfer (metered (\<lambda>_ _ _. True)) ?l ?xs (\<lambda>_. 0) = Some (passed, rest)"
      "transfer (metered (\<lambda>_ _ _. True)) ?l (take n ?xs) (\<lambda>_. 0) = Some (passed, Some g')"
      "\<forall>lm. g' lm = 0 + (if le_userRate ?l = Some lm \<or> le_nodeRate ?l = Some lm then int (length passed) else 0)"
    unfolding slow_run_def [symmetric] by blast
  moreover from this(3) l(3) have "g' lm = int (length passed)" by simp
  ultimately show ?thesis using l by blast
qed

end
