(* ===== verification/Xudp_Session.thy ===== *)
theory Xudp_Session
  imports Data_Plane Traffic
begin

text \<open>
  The XUDP manager of \<^verbatim>\<open>common/mux\<close> with the hooks that the repository adds: a session is kept beyond the
  connection that opened it, and the connection that takes it over moves its lease.
\<close>

subsection \<open>XUDP sessions\<close>

text \<open>
  \<^verbatim>\<open>common/mux\<close>: the manager keeps an XUDP session by its global id for a minute after its Mux
  connection has gone, and a new connection takes it over.
\<close>

datatype xstatus = Initializing | Active | Expiring

record xudp =
  xu_status :: xstatus
  xu_session :: "nat option"  \<comment> \<open>the controlled session behind \<^verbatim>\<open>onClose\<close> and \<^verbatim>\<open>rebind\<close>\<close>
  xu_expire :: int

text \<open>\<^verbatim>\<open>rebind\<close> of a controlled session, from the connection that takes it over.\<close>

definition controlled_rebind :: "nat \<Rightarrow> inbound option \<Rightarrow> plane \<Rightarrow> plane \<times> bool" where
  "controlled_rebind k ib pl =
     (case (case ib of None \<Rightarrow> None | Some i \<Rightarrow> ib_Source i) of
        None \<Rightarrow> (pl, False)
      | Some source \<Rightarrow>
          (case Rebind (cs_lease (pl_sessions pl ! k)) source (pl_reg pl) of
             (r, Inl e) \<Rightarrow> (set_reg r pl, False)
           | (r, Inr _) \<Rightarrow> (set_reg r pl, True)))"

definition xudp_Interrupt :: "xudp \<Rightarrow> plane \<Rightarrow> plane" where
  "xudp_Interrupt x pl = (case xu_session x of None \<Rightarrow> pl | Some k \<Rightarrow> controlled_close k pl)"

text \<open>\<^verbatim>\<open>Session.Close\<close> of the Mux session of an XUDP session: a minute until it expires.\<close>

definition mux_Close :: "int \<Rightarrow> xudp \<Rightarrow> xudp" where
  "mux_Close now x = (if xu_status x = Active then x\<lparr>xu_status := Expiring, xu_expire := now + 60000000000\<rparr> else x)"

datatype xudp_result = XudpDone | XudpConflict | XudpRebindRejected | XudpDispatchFailed session_error | XudpNotAdded

type_synonym xudp_state = "plane \<times> (string, xudp) fmap"

text \<open>\<open>added\<close>: the session manager of the Mux connection accepts the session.\<close>

definition xudp_attach :: "string \<Rightarrow> xudp \<Rightarrow> bool \<Rightarrow> int \<Rightarrow> xudp_state \<Rightarrow> xudp_state \<times> xudp_result" where
  "xudp_attach gid x added now st =
     (let x1 = x\<lparr>xu_status := Active\<rparr> in
      if added then ((fst st, fmupd gid x1 (snd st)), XudpDone)
      else ((fst st, fmupd gid (mux_Close now x1) (snd st)), XudpNotAdded))"

definition xudp_dispatch :: "dispatch_env \<Rightarrow> string \<Rightarrow> nat \<Rightarrow> inbound option \<Rightarrow> destination \<Rightarrow> bool \<Rightarrow> int \<Rightarrow> xudp_state \<Rightarrow>
    xudp_state \<times> xudp_result" where
  "xudp_dispatch de gid ctx ib ds added now st =
     (case Dispatch de ctx ib ds (fst st) of
        (pl, Inl e) \<Rightarrow> ((pl, fmdrop gid (snd st)), XudpDispatchFailed e)
      | (pl, Inr (ib', ds', k)) \<Rightarrow>
          xudp_attach gid \<lparr>xu_status = Initializing, xu_session = k, xu_expire = 0\<rparr> added now (pl, snd st))"

text \<open>The frame that opens or takes over an XUDP session; \<open>wrote\<close>: its packet could be written.\<close>

definition handle_xudp :: "dispatch_env \<Rightarrow> string \<Rightarrow> nat \<Rightarrow> inbound option \<Rightarrow> destination \<Rightarrow> bool \<Rightarrow> bool \<Rightarrow> int \<Rightarrow> xudp_state \<Rightarrow>
    xudp_state \<times> xudp_result" where
  "handle_xudp de gid ctx ib ds wrote added now st =
     (case fmlookup (snd st) gid of
        None \<Rightarrow> xudp_dispatch de gid ctx ib ds added now st
      | Some x \<Rightarrow>
          if xu_status x = Initializing then (st, XudpConflict)
          else
            (case (case xu_session x of None \<Rightarrow> (fst st, True) | Some k \<Rightarrow> controlled_rebind k ib (fst st)) of
               (pl, False) \<Rightarrow> ((xudp_Interrupt x pl, fmdrop gid (snd st)), XudpRebindRejected)
             | (pl, True) \<Rightarrow>
                 if wrote then xudp_attach gid x added now (pl, snd st)
                 else xudp_dispatch de gid ctx ib ds added now (xudp_Interrupt x pl, snd st)))"

text \<open>The periodic clean-up.\<close>

fun xudp_expire :: "int \<Rightarrow> string list \<Rightarrow> xudp_state \<Rightarrow> xudp_state" where
  "xudp_expire now [] st = st"
| "xudp_expire now (gid # gids) st =
     (case fmlookup (snd st) gid of
        None \<Rightarrow> xudp_expire now gids st
      | Some x \<Rightarrow>
          if xu_status x = Expiring \<and> now > xu_expire x
          then xudp_expire now gids (xudp_Interrupt x (fst st), fmdrop gid (snd st))
          else xudp_expire now gids st)"

lemma revoke_spares_closed:
  assumes "ids_ok r" and "a < length (r_leases r)" and "le_once (r_leases r ! a)"
  shows "r_leases (fst (revokeLocked users sources r)) ! a = r_leases r ! a"
  using assms by (simp add: revokeLocked_spec revoke_def hit_def)

lemma enforce_user_spares_closed:
  assumes "enforce_user uid r = Some (r', cs, b)" and "ids_ok r" and "a < length (r_leases r)" and "le_once (r_leases r ! a)"
  shows "r_leases r' ! a = r_leases r ! a"
proof -
  consider "r' = r" | sources where "r' = fst (revokeLocked {||} sources r)"
    using assms(1) by (auto simp: enforce_user_def Let_def split: option.splits if_splits prod.splits) (metis fst_conv)
  then show ?thesis using revoke_spares_closed [OF assms(2-4)] by cases auto
qed

lemma enforce_loop_spares_closed:
  assumes "enforce_loop uids r = Some (r', cs, us)" and "core_inv r" and "a < length (r_leases r)" and "le_once (r_leases r ! a)"
  shows "r_leases r' ! a = r_leases r ! a"
  using assms
proof (induction uids arbitrary: r r' cs us)
  case (Cons uid uids)
  obtain r1 cs1 b cs2 us2 where U: "enforce_user uid r = Some (r1, cs1, b)" "enforce_loop uids r1 = Some (r', cs2, us2)"
    using Cons.prems(1) by (auto split: option.splits)
  have i: "core_inv r1" using reg_inv_enforce_user U(1) Cons.prems(2) by blast
  have "table r1 = table r" using table_body [OF body_enforce_user [OF U(1)]] .
  then have len: "length (r_leases r1) = length (r_leases r)" using length_table Cons.prems(2) i by blast
  have "r_leases r1 ! a = r_leases r ! a"
    using enforce_user_spares_closed [OF U(1)] Cons.prems(2-4) by (simp add: reg_inv_def)
  with Cons.IH [OF U(2) i] Cons.prems(3,4) len show ?case by simp
qed simp

lemma Update_spares_closed:
  assumes "Update s r = Some (r', cs, us)" and "core_inv r" and "a < length (r_leases r)" and "le_once (r_leases r ! a)"
  shows "r_leases r' ! a = r_leases r ! a"
proof -
  let ?r2 = "(installSnapshot s (Some (r_users r)) r)\<lparr>r_leases := map (revoke (update_hit s r)) (r_leases r)\<rparr>"
  have i: "ids_ok r" using assms(2) by (simp add: reg_inv_def)
  obtain uids cs' us' where E: "enforce_loop uids ?r2 = Some (r', cs', us')"
    using assms(1) by (auto simp: Update_unfold [OF i] Let_def enforceConnectorsLocked_def split: option.splits)
  have "r_leases ?r2 ! a = r_leases r ! a" using assms(3,4) by (simp add: revoke_def update_hit_def hit_def)
  moreover have "core_inv ?r2" using reg_inv_install_revoke [OF assms(2), of s] by simp
  ultimately show ?thesis using enforce_loop_spares_closed [OF E, of a] assms(3,4) by simp
qed

text \<open>The operations that take a permission back.\<close>

fun withdraws :: "event \<Rightarrow> bool" where
  "withdraws (UpdateTo s) = True"
| "withdraws (Revoke ids) = True"
| "withdraws CloseAll = True"
| "withdraws e = False"

lemma withdraw_spares_closed:
  assumes "withdraws e" and "core_inv r" and "a < length (r_leases r)" and "le_once (r_leases r ! a)"
  shows "r_leases (effect e r) ! a = r_leases r ! a"
proof (cases e)
  case (UpdateTo s)
  then show ?thesis using Update_spares_closed [OF _ assms(2-4)] by (auto simp: effect_def idle_def split: option.split)
next
  case (Revoke ids)
  with assms revoke_spares_closed show ?thesis by (simp add: effect_def idle_def RevokeUsers_def reg_inv_def)
next
  case CloseAll
  have "ids_ok (r\<lparr>r_closed := True\<rparr>)" using assms(2) by (simp add: reg_inv_def ids_ok_def)
  with CloseAll assms(3,4) revoke_spares_closed [of "r\<lparr>r_closed := True\<rparr>" a] show ?thesis
    by (simp add: effect_def idle_def Close_def)
qed (use assms(1) in simp_all)

lemma callback_fields:
  fixes pl ctx k
  defines "pl' \<equiv> after_func k (end_context ctx pl)"
  assumes "plane_inv pl" and "k < length (pl_sessions pl)" and "cs_ctx (pl_sessions pl ! k) = ctx"
  shows "cs_lease (pl_sessions pl' ! k) = cs_lease (pl_sessions pl ! k)"
    and "terms_of (r_leases (pl_reg pl') ! a) = terms_of (r_leases (pl_reg pl) ! a)"
    and "r_closed (pl_reg pl') = r_closed (pl_reg pl)"
    and "le_once (r_leases (pl_reg pl') ! cs_lease (pl_sessions pl ! k))"
    and "core_inv (pl_reg pl')" and "cs_lease (pl_sessions pl ! k) < length (r_leases (pl_reg pl'))"
proof -
  have F: "pl' = controlled_close k (end_context ctx pl)" by (simp add: pl'_def after_func_def end_context_def assms(4))
  show l: "cs_lease (pl_sessions pl' ! k) = cs_lease (pl_sessions pl ! k)"
      "terms_of (r_leases (pl_reg pl') ! a) = terms_of (r_leases (pl_reg pl) ! a)" "r_closed (pl_reg pl') = r_closed (pl_reg pl)"
    using assms(3) by (simp_all add: F controlled_close_def Let_def end_context_def close_terms(1))
  have e: "plane_inv (end_context ctx pl)" "k < length (pl_sessions (end_context ctx pl))"
    using assms(2,3) by (simp_all add: plane_inv_def end_context_def)
  have T: "lp.tracks (marks (pl_sessions pl')) (pl_reg pl')"
    using after_func_fields(5) [OF e(2) e(1)] by (simp add: pl'_def plane_inv_def)
  then show r: "core_inv (pl_reg pl')" by (rule lp.tracks_ok)
  have k: "k < length (pl_sessions pl')" "cs_once (pl_sessions pl' ! k)"
    using after_func_fields(1,4) [OF e(2)] assms(3,4) by (simp_all add: pl'_def end_context_def)
  with lp.tracks_nth [OF T, of k] l(1)
  show "le_once (r_leases (pl_reg pl') ! cs_lease (pl_sessions pl ! k))" "cs_lease (pl_sessions pl ! k) < length (r_leases (pl_reg pl'))"
    by (simp_all add: open_leases_iff [OF r] granted_def)
qed

text \<open>C38: A retained XUDP session outlives its lease. The lease is closed by the callback when the
  connection that opened the session has ended, while the XUDP manager keeps the session; a new connection
  of the same source takes it over without a new lease. From then on the session is active but not counted, no revocation, snapshot or
  shutdown reaches its lease any more, and \<^verbatim>\<open>Wait\<close> on it lets everything pass when neither the user nor
  the node has a speed limit, and nothing otherwise.\<close>

theorem xudp_outlives_lease:
  assumes "plane_reaches s cfg es pl" and "fmlookup tbl gid = Some x" and "xu_status x = Active" and "xu_session x = Some k"
    and "k < length (pl_sessions pl)" and "cs_ctx (pl_sessions pl ! k) = ctx" and "a = cs_lease (pl_sessions pl ! k)"
    and "\<not> r_closed (pl_reg pl)" and "\<not> le_revoked (r_leases (pl_reg pl) ! a)"
    and "ib_Source i = Some source" and "CanonicalIP source = Some (le_sourceIP (r_leases (pl_reg pl) ! a))"
  shows "\<exists>pl' tbl'. handle_xudp de gid ctx' (Some i) ds True True now'
      (after_func k (end_context ctx pl), fmupd gid (mux_Close now x) tbl) = ((pl', tbl'), XudpDone) \<and>
    (\<exists>x'. fmlookup tbl' gid = Some x' \<and> xu_status x' = Active \<and> xu_session x' = Some k) \<and>
    a \<notin> open_leases (pl_reg pl') \<and> \<not> le_revoked (r_leases (pl_reg pl') ! a) \<and>
    (\<forall>e. withdraws e \<longrightarrow> r_leases (effect e (pl_reg pl')) ! a = r_leases (pl_reg pl') ! a) \<and>
    (\<forall>n w. 0 < n \<longrightarrow> Wait (with_context True waitN) (r_leases (pl_reg pl') ! a) n w =
       Some (if le_userRate (r_leases (pl_reg pl) ! a) = None \<and> le_nodeRate (r_leases (pl_reg pl) ! a) = None then Some w else None))"
proof -
  let ?pl = "after_func k (end_context ctx pl)" and ?y = "(mux_Close now x)\<lparr>xu_status := Active\<rparr>"
  note E = callback_fields [OF plane_reaches_inv [OF assms(1)] assms(5,6)]
  have t: "le_sourceIP (r_leases (pl_reg ?pl) ! a) = le_sourceIP (r_leases (pl_reg pl) ! a)"
      "\<not> le_revoked (r_leases (pl_reg ?pl) ! a)"
      "le_userRate (r_leases (pl_reg ?pl) ! a) = le_userRate (r_leases (pl_reg pl) ! a)"
      "le_nodeRate (r_leases (pl_reg ?pl) ! a) = le_nodeRate (r_leases (pl_reg pl) ! a)"
    using E(2) [of a] assms(9) by (simp_all add: terms_of_def)
  have "Rebind a source (pl_reg ?pl) = (pl_reg ?pl, Inr ())"
    using assms(8,11) t(1,2) E(3) by (simp add: Rebind_def Let_def)
  moreover have "cs_lease (pl_sessions ?pl ! k) = a" using E(1) assms(7) by simp
  ultimately have "controlled_rebind k (Some i) ?pl = (?pl, True)"
    using assms(10) by (simp add: controlled_rebind_def set_reg_def)
  then have "handle_xudp de gid ctx' (Some i) ds True True now' (?pl, fmupd gid (mux_Close now x) tbl)
      = ((?pl, fmupd gid ?y (fmupd gid (mux_Close now x) tbl)), XudpDone)"
    using assms(3,4) by (simp add: handle_xudp_def mux_Close_def xudp_attach_def Let_def)
  moreover have "a \<notin> open_leases (pl_reg ?pl)" using E(4,5) assms(7) by (simp add: open_leases_iff)
  moreover have "\<forall>e. withdraws e \<longrightarrow> r_leases (effect e (pl_reg ?pl)) ! a = r_leases (pl_reg ?pl) ! a"
    using withdraw_spares_closed [OF _ E(5)] E(4,6) assms(7) by blast
  moreover have "xu_session ?y = Some k" using assms(4) by (simp add: mux_Close_def)
  ultimately show ?thesis using t(2-4) by (intro exI [of _ ?pl]) (auto simp: Wait_cancelled)
qed

definition sample_xudp :: "plane_event list" where
  "sample_xudp = [OpenSession 7 ((sample_pending ''0.0.0.8'')\<lparr>p_kind := XUDP\<rparr>)]"

theorem xudp_outlives_lease_witness:
  "\<exists>pl' tbl'. handle_xudp sample_env ''g'' 8 (Some sample_inbound) sample_target True True 5
      (after_func 0 (end_context 7 (sample_plane sample_xudp)),
       fmupd ''g'' (mux_Close 3 \<lparr>xu_status = Active, xu_session = Some 0, xu_expire = 0\<rparr>)
         (fmupd ''g'' \<lparr>xu_status = Active, xu_session = Some 0, xu_expire = 0\<rparr> fmempty)) = ((pl', tbl'), XudpDone) \<and>
    0 \<notin> open_leases (pl_reg pl') \<and> \<not> le_revoked (r_leases (pl_reg pl') ! 0)"
proof -
  let ?x = "\<lparr>xu_status = Active, xu_session = Some 0, xu_expire = 0\<rparr>"
  have "plane_reaches (node_limit 2) (defaults sample_config) sample_xudp (sample_plane sample_xudp)"
    by (rule sample_plane_reaches) code_simp
  moreover have "0 < length (pl_sessions (sample_plane sample_xudp))"
      "cs_ctx (pl_sessions (sample_plane sample_xudp) ! 0) = 7" "0 = cs_lease (pl_sessions (sample_plane sample_xudp) ! 0)"
      "\<not> r_closed (pl_reg (sample_plane sample_xudp))" "\<not> le_revoked (r_leases (pl_reg (sample_plane sample_xudp)) ! 0)"
      "le_sourceIP (r_leases (pl_reg (sample_plane sample_xudp)) ! 0) = ''0.0.0.8''"
    by code_simp+
  moreover have "ib_Source sample_inbound = Some ''0.0.0.8''" by (simp add: sample_inbound_def)
  ultimately show ?thesis
    using xudp_outlives_lease [of _ _ sample_xudp "sample_plane sample_xudp" "fmupd ''g'' ?x fmempty" "''g''" ?x 0 7 0
        sample_inbound "''0.0.0.8''" sample_env 8 sample_target 5 3 "\<lambda>_ w _. Some w"]
    by (fastforce simp: sample_open_parts)
qed

end
