(* ===== verification/Go_Path.thy ===== *)
theory Go_Path
  imports Go_Text
begin

text \<open>
  The lexical path operations of \<^verbatim>\<open>path/filepath\<close> on Unix (\<^verbatim>\<open>Clean\<close>, \<^verbatim>\<open>Join\<close>, \<^verbatim>\<open>Dir\<close>, \<^verbatim>\<open>Base\<close>) and the
  zero padded decimal numbers that make file names sort by time.
\<close>

fun clean_parts :: "bool \<Rightarrow> string list \<Rightarrow> string list \<Rightarrow> string list" where
  "clean_parts rooted [] acc = rev acc"
| "clean_parts rooted (c # cs) acc =
     (if c = [] \<or> c = ''.'' then clean_parts rooted cs acc
      else if c = ''..'' then
        (case acc of
           [] \<Rightarrow> clean_parts rooted cs (if rooted then [] else [''..''])
         | a # as \<Rightarrow> if a = ''..'' then clean_parts rooted cs (''..'' # acc) else clean_parts rooted cs as)
      else clean_parts rooted cs (c # acc))"

definition path_clean :: "string \<Rightarrow> string" where
  "path_clean p =
     (let rooted = has_prefix p ''/''; cs = clean_parts rooted (split_on CHR ''/'' p) []
      in if rooted then CHR ''/'' # join_with ''/'' cs
         else if cs = [] then ''.'' else join_with ''/'' cs)"

definition path_join :: "string \<Rightarrow> string \<Rightarrow> string" where
  "path_join a b = (if a = [] \<and> b = [] then [] else if a = [] then path_clean b
     else if b = [] then path_clean a else path_clean (a @ ''/'' @ b))"

text \<open>The part up to and including the last slash, and what follows it.\<close>

definition path_tail :: "string \<Rightarrow> string" where
  "path_tail p = rev (takeWhile (\<lambda>c. c \<noteq> CHR ''/'') (rev p))"

definition path_head :: "string \<Rightarrow> string" where
  "path_head p = rev (dropWhile (\<lambda>c. c \<noteq> CHR ''/'') (rev p))"

definition path_dir :: "string \<Rightarrow> string" where
  "path_dir p = path_clean (path_head p)"

definition path_base :: "string \<Rightarrow> string" where
  "path_base p =
     (if p = [] then ''.''
      else (let q = rev (dropWhile (\<lambda>c. c = CHR ''/'') (rev p)) in
            if q = [] then ''/'' else path_tail q))"

text \<open>A clean absolute path below the root: its parts are names, none of them special.\<close>

definition plain_name :: "string \<Rightarrow> bool" where
  "plain_name n \<longleftrightarrow> n \<noteq> [] \<and> n \<noteq> ''.'' \<and> n \<noteq> ''..'' \<and> CHR ''/'' \<notin> set n"

definition clean_abs :: "string \<Rightarrow> bool" where
  "clean_abs d \<longleftrightarrow> (\<exists>cs. cs \<noteq> [] \<and> list_all plain_name cs \<and> d = CHR ''/'' # join_with ''/'' cs)"

lemma clean_parts_plain: "list_all plain_name cs \<Longrightarrow> clean_parts b cs acc = rev acc @ cs"
  by (induction cs arbitrary: acc) (auto simp: plain_name_def)

lemma split_on_slash: "split_on c (c # s) = [] # split_on c s"
  by simp

lemma path_clean_abs:
  assumes "cs \<noteq> []" and "list_all plain_name cs"
  shows "path_clean (CHR ''/'' # join_with ''/'' cs) = CHR ''/'' # join_with ''/'' cs"
proof -
  have "split_on CHR ''/'' (join_with ''/'' cs) = cs"
    using assms by (intro split_join) (auto simp: list_all_iff plain_name_def)
  with assms show ?thesis
    by (simp add: path_clean_def has_prefix_def clean_parts_plain Let_def)
qed

lemma join_with_snoc: "cs \<noteq> [] \<Longrightarrow> join_with sep (cs @ [n]) = join_with sep cs @ sep @ n"
  by (induction sep cs rule: join_with.induct) auto

lemma path_join_name:
  assumes "clean_abs d" and "plain_name n"
  shows "path_join d n = d @ ''/'' @ n"
proof -
  obtain cs where cs: "cs \<noteq> []" "list_all plain_name cs" "d = CHR ''/'' # join_with ''/'' cs"
    using assms(1) by (auto simp: clean_abs_def)
  have "path_clean (CHR ''/'' # join_with ''/'' (cs @ [n])) = CHR ''/'' # join_with ''/'' (cs @ [n])"
    using cs assms(2) by (intro path_clean_abs) auto
  then show ?thesis using cs assms(2) by (simp add: path_join_def join_with_snoc plain_name_def)
qed

lemma path_clean_entry:
  assumes "clean_abs d" and "plain_name n"
  shows "path_clean (d @ ''/'' @ n) = d @ ''/'' @ n"
proof -
  have "d \<noteq> []" "n \<noteq> []" using assms by (auto simp: clean_abs_def plain_name_def)
  with path_join_name [OF assms] show ?thesis by (simp add: path_join_def)
qed

lemma path_base_entry:
  assumes "plain_name n"
  shows "path_base (d @ ''/'' @ n) = n"
proof -
  have hd: "rev n \<noteq> []" "hd (rev n) \<noteq> CHR ''/''"
    using assms by (auto simp: plain_name_def hd_rev) (metis last_in_set)
  then have "dropWhile (\<lambda>c. c = CHR ''/'') (rev n @ CHR ''/'' # rev d) = rev n @ CHR ''/'' # rev d"
    by (cases "rev n") simp_all
  moreover have "takeWhile (\<lambda>c. c \<noteq> CHR ''/'') (rev n @ CHR ''/'' # rev d) = rev n"
    using assms by (intro takeWhile_all_stop) (auto simp: plain_name_def)
  ultimately show ?thesis by (simp add: path_base_def path_tail_def Let_def)
qed

lemma path_dir_entry:
  assumes "clean_abs d" and "plain_name n"
  shows "path_dir (d @ ''/'' @ n) = d"
proof -
  have "dropWhile (\<lambda>c. c \<noteq> CHR ''/'') (rev n @ CHR ''/'' # rev d) = CHR ''/'' # rev d"
    using assms(2) by (intro dropWhile_all_stop) (auto simp: plain_name_def)
  then have "path_head (d @ ''/'' @ n) = d @ ''/''" by (simp add: path_head_def)
  moreover have "path_clean (d @ ''/'') = d"
  proof -
    obtain cs where cs: "cs \<noteq> []" "list_all plain_name cs" "d = CHR ''/'' # join_with ''/'' cs"
      using assms(1) by (auto simp: clean_abs_def)
    have "split_on CHR ''/'' (join_with ''/'' (cs @ [[]])) = cs @ [[]]"
      using cs by (intro split_join) (auto simp: list_all_iff plain_name_def)
    then have s: "split_on CHR ''/'' (join_with ''/'' cs @ ''/'') = cs @ [[]]" using cs by (simp add: join_with_snoc)
    have "clean_parts True (cs @ [[]]) acc = rev acc @ cs" for acc
      using cs(2) by (induction cs arbitrary: acc) (auto simp: plain_name_def)
    with s show ?thesis by (simp add: cs(3) path_clean_def has_prefix_def Let_def)
  qed
  ultimately show ?thesis by (simp add: path_dir_def)
qed

subsection \<open>Padded numbers\<close>

text \<open>The format \<^verbatim>\<open>%020d\<close>.\<close>

definition pad20 :: "int \<Rightarrow> string" where
  "pad20 n = (if n < 0 then CHR ''-'' # replicate (19 - length (itoa (- n))) CHR ''0'' @ itoa (- n)
     else replicate (20 - length (itoa n)) CHR ''0'' @ itoa n)"

lemma pad20_to_base:
  assumes "0 \<le> n" and "n < 10 ^ 20"
  shows "pad20 n = map digit_char (to_base 10 20 (nat n))"
proof -
  have lt: "nat n < 10 ^ 20" using assms by (simp add: nat_less_iff)
  have len: "length (digits 10 (nat n)) \<le> 20" by (rule length_digits) (use lt in simp_all)
  let ?ds = "replicate (20 - length (digits 10 (nat n))) 0 @ digits 10 (nat n)"
  have "from_base 10 ?ds = nat n"
  proof -
    have "from_base 10 (replicate k 0 @ ds) = from_base 10 ds" for k ds
      by (induction ds rule: rev_induct) (simp_all flip: append_assoc)
    then show ?thesis by simp
  qed
  moreover have "\<forall>d \<in> set ?ds. d < 10" using digits_less [of 10] by (auto simp: set_replicate_conv_if)
  ultimately have "to_base 10 20 (nat n) = ?ds" using to_from_base [of 10 ?ds 20] len by simp
  moreover have "digit_char 0 = CHR ''0''" by (simp add: digit_char_def)
  ultimately show ?thesis using assms(1) by (simp add: pad20_def itoa_def show_base_def)
qed

end
