(* ===== verification/Outbox.thy ===== *)
theory Outbox
  imports Go_Path Panel_Model
begin

text \<open>
  The durable accounting outbox of \<^verbatim>\<open>internal/accounting/outbox.go\<close>: traffic batches, their
  validation and integrity hash, and the store that publishes each batch as one immutable file
  (create, write, fsync, close, rename, fsync of the directory) and lists, measures and removes
  them.

  The outbox directory is a finite map from names to files. Whatever the operating system may
  refuse is a flag of an environment record, so that every error path of the code is a branch
  of the model. \<^verbatim>\<open>Save\<close> returns the directory states after each system call that changes the
  directory; a crash of the process leaves one of them. SHA-256 and the JSON encoder and decoder
  are the fields of a \<open>batch_lib\<close>; the documented behaviour that properties rely on (a decoder
  reads back what the encoder wrote, digests are bytes) is the predicate \<open>lib_ok\<close>. Loss of data
  that was not synchronized at a power failure is not modelled.
\<close>

subsection \<open>Batches\<close>

record entry =
  e_UserID :: int64
  e_Uplink :: int64
  e_Downlink :: int64

record batch =
  b_Version :: int64
  b_ID :: string
  b_NodeID :: int64
  b_ConfigurationVersion :: uint64
  b_CreatedAt :: int64
  b_TrafficRate :: f64
  b_Entries :: "entry list"
  b_PayloadSHA256 :: string

record batch_lib =
  lib_marshal :: "batch \<Rightarrow> string option"
  lib_decode :: "string \<Rightarrow> (batch \<times> string) option"
  lib_sha256 :: "nat list \<Rightarrow> nat list"

datatype outbox_error =
    CreateOutbox
  | SecureOutbox
  | ReadOutbox
  | StatEntry
  | SizeOverflow
  | RandUnavailable
  | InvalidMetadata
  | InvalidUUID
  | InvalidRate
  | InvalidEntries
  | ZeroEntry
  | HashMismatch
  | MarshalFailed
  | TotalOverflow
  | WrongNode
  | CapacityExceeded
  | CreateBatch
  | WriteBatch
  | SyncBatch
  | CloseBatch
  | PublishBatch
  | PublishedUnsynced outbox_error
  | IncompleteFile string
  | UnexpectedEntry string
  | UnsafeEntry string
  | ReadEntry string outbox_error
  | ForeignEntry string int
  | ReadFileFailed
  | DecodeFailed
  | TrailingJson
  | OutsideOutbox
  | RemoveFailed
  | OpenDir
  | SyncDir

definition SchemaVersion :: int64 where
  "SchemaVersion = 1"

text \<open>\<^verbatim>\<open>newUUID\<close> panics when the source of randomness fails; \<open>RandUnavailable\<close> stands for that panic.\<close>

definition newUUID :: "nat list option \<Rightarrow> outbox_error + string" where
  "newUUID rnd = (case rnd of
     None \<Rightarrow> Inl RandUnavailable
   | Some value \<Rightarrow> Inr (format_uuid (set_version_variant 0x40 value)))"

definition validUUID :: "string \<Rightarrow> bool" where
  "validUUID value \<longleftrightarrow>
     \<not> (length value \<noteq> 36 \<or> value ! 8 \<noteq> CHR ''-'' \<or> value ! 13 \<noteq> CHR ''-'' \<or>
        value ! 18 \<noteq> CHR ''-'' \<or> value ! 23 \<noteq> CHR ''-'') \<and>
     hex_decode (filter (\<lambda>c. c \<noteq> CHR ''-'') value) \<noteq> None"

definition hash :: "batch_lib \<Rightarrow> batch \<Rightarrow> outbox_error + string" where
  "hash lib b = (case lib_marshal lib (b\<lparr>b_PayloadSHA256 := []\<rparr>) of
     None \<Rightarrow> Inl MarshalFailed
   | Some data \<Rightarrow> Inr (hex_encode (lib_sha256 lib (map of_char data))))"

fun check_entries :: "int64 \<Rightarrow> entry list \<Rightarrow> outbox_error option" where
  "check_entries lastID [] = None"
| "check_entries lastID (e # es) =
     (if e_UserID e \<le> lastID \<or> e_Uplink e < 0 \<or> e_Downlink e < 0 \<or>
         e_Uplink e > MaxInt64 - e_Downlink e then Some InvalidEntries
      else if e_Uplink e = 0 \<and> e_Downlink e = 0 then Some ZeroEntry
      else check_entries (e_UserID e) es)"

definition bad_rate :: "f64 \<Rightarrow> bool" where
  "bad_rate r \<longleftrightarrow> r = NaN \<or> r = PInf \<or> r = NInf \<or> f64_le r (Fin 0) \<or> f64_lt (Fin 10000) r"

definition validate :: "batch_lib \<Rightarrow> bool \<Rightarrow> batch \<Rightarrow> outbox_error option" where
  "validate lib checkHash b =
     (if b_Version b \<noteq> SchemaVersion \<or> b_NodeID b \<le> 0 \<or> b_ConfigurationVersion b = 0 \<or>
         b_CreatedAt b \<le> 0 then Some InvalidMetadata
      else if \<not> validUUID (b_ID b) then Some InvalidUUID
      else if bad_rate (b_TrafficRate b) then Some InvalidRate
      else case check_entries 0 (b_Entries b) of
        Some e \<Rightarrow> Some e
      | None \<Rightarrow>
          if checkHash then
            (case hash lib b of
               Inl e \<Rightarrow> Some e
             | Inr expected \<Rightarrow> if expected \<noteq> b_PayloadSHA256 b then Some HashMismatch else None)
          else None)"

definition NewBatch :: "batch_lib \<Rightarrow> nat list option \<Rightarrow> int64 \<Rightarrow> uint64 \<Rightarrow> f64 \<Rightarrow> entry list \<Rightarrow> int64 \<Rightarrow>
    outbox_error + batch" where
  "NewBatch lib rnd nodeID version rate entries now =
     (case newUUID rnd of
        Inl e \<Rightarrow> Inl e
      | Inr uuid \<Rightarrow>
          let b = \<lparr>b_Version = SchemaVersion, b_ID = uuid, b_NodeID = nodeID,
                b_ConfigurationVersion = version, b_CreatedAt = now, b_TrafficRate = rate,
                b_Entries = sort_key e_UserID entries, b_PayloadSHA256 = []\<rparr>
          in case validate lib False b of
               Some e \<Rightarrow> Inl e
             | None \<Rightarrow>
                 (case hash lib b of
                    Inl e \<Rightarrow> Inl e
                  | Inr h \<Rightarrow> Inr (b\<lparr>b_PayloadSHA256 := h\<rparr>)))"

definition Empty :: "batch \<Rightarrow> bool" where
  "Empty b \<longleftrightarrow> length (b_Entries b) = 0"

fun raw_total_loop :: "int64 \<Rightarrow> entry list \<Rightarrow> outbox_error + int64" where
  "raw_total_loop acc [] = Inr acc"
| "raw_total_loop acc (e # es) =
     (if e_Uplink e > wrap64 (MaxInt64 - e_Downlink e) \<or>
         acc > wrap64 (wrap64 (MaxInt64 - e_Uplink e) - e_Downlink e) then Inl TotalOverflow
      else raw_total_loop (wrap64 (acc + wrap64 (e_Uplink e + e_Downlink e))) es)"

definition RawTotal :: "batch \<Rightarrow> outbox_error + int64" where
  "RawTotal b = raw_total_loop 0 (b_Entries b)"

subsection \<open>The store\<close>

datatype os_file =
    Regular string nat  \<comment> \<open>content and mode\<close>
  | Special bool int  \<comment> \<open>directory or not, and the size the system reports\<close>

type_synonym directory = "(string, os_file) fmap"

record store =
  st_dir :: string
  st_nodeID :: int64
  st_maxBytes :: int64

record batch_file =
  bf_Path :: string
  bf_Batch :: batch

text \<open>What the system grants when the outbox is read.\<close>

record reading =
  rd_dir :: bool
  rd_stat :: "string \<Rightarrow> bool"
  rd_file :: "string \<Rightarrow> bool"

fun is_regular :: "os_file \<Rightarrow> bool" where
  "is_regular (Regular _ _) = True"
| "is_regular (Special _ _) = False"

fun is_dir :: "os_file \<Rightarrow> bool" where
  "is_dir (Regular _ _) = False"
| "is_dir (Special b _) = b"

fun file_size :: "os_file \<Rightarrow> int" where
  "file_size (Regular s _) = int (length s)"
| "file_size (Special _ n) = n"

fun chmod_file :: "nat \<Rightarrow> os_file \<Rightarrow> os_file" where
  "chmod_file m (Regular s _) = Regular s m"
| "chmod_file m (Special b n) = Special b n"

text \<open>\<^verbatim>\<open>os.ReadDir\<close> returns the entries sorted by name.\<close>

definition read_dir :: "directory \<Rightarrow> (string \<times> os_file) list" where
  "read_dir d = map (\<lambda>n. (n, the (fmlookup d n))) (sorted_list_of_fset (fmdom d))"

definition json_blank :: "char \<Rightarrow> bool" where
  "json_blank c \<longleftrightarrow> c = CHR '' '' \<or> c = CHR 0x09 \<or> c = CHR 0x0A \<or> c = CHR 0x0D"

fun readBatch :: "batch_lib \<Rightarrow> bool \<Rightarrow> os_file \<Rightarrow> outbox_error + batch" where
  "readBatch lib readable (Special _ _) = Inl ReadFileFailed"
| "readBatch lib readable (Regular data _) =
     (if \<not> readable then Inl ReadFileFailed
      else case lib_decode lib data of
        None \<Rightarrow> Inl DecodeFailed
      | Some (b, rest) \<Rightarrow>
          if \<not> list_all json_blank rest then Inl TrailingJson
          else case validate lib True b of
            Some e \<Rightarrow> Inl e
          | None \<Rightarrow> Inr b)"

definition list_entry :: "batch_lib \<Rightarrow> reading \<Rightarrow> store \<Rightarrow> string \<Rightarrow> os_file \<Rightarrow> outbox_error + batch_file" where
  "list_entry lib rd st name f =
     (if has_suffix name ''.tmp'' then Inl (IncompleteFile name)
      else if is_dir f \<or> \<not> has_suffix name ''.json'' then Inl (UnexpectedEntry name)
      else if \<not> rd_stat rd name \<or> \<not> is_regular f then Inl (UnsafeEntry name)
      else case readBatch lib (rd_file rd name) f of
        Inl e \<Rightarrow> Inl (ReadEntry name e)
      | Inr b \<Rightarrow>
          if b_NodeID b \<noteq> st_nodeID st then Inl (ForeignEntry name (b_NodeID b))
          else Inr \<lparr>bf_Path = path_join (st_dir st) name, bf_Batch = b\<rparr>)"

fun list_loop :: "batch_lib \<Rightarrow> reading \<Rightarrow> store \<Rightarrow> (string \<times> os_file) list \<Rightarrow> outbox_error + batch_file list" where
  "list_loop lib rd st [] = Inr []"
| "list_loop lib rd st ((name, f) # es) =
     (case list_entry lib rd st name f of
        Inl e \<Rightarrow> Inl e
      | Inr bf \<Rightarrow>
          (case list_loop lib rd st es of
             Inl e \<Rightarrow> Inl e
           | Inr bfs \<Rightarrow> Inr (bf # bfs)))"

definition List :: "batch_lib \<Rightarrow> reading \<Rightarrow> store \<Rightarrow> directory \<Rightarrow> outbox_error + batch_file list" where
  "List lib rd st d =
     (if \<not> rd_dir rd then Inl ReadOutbox
      else case list_loop lib rd st (read_dir d) of
        Inl e \<Rightarrow> Inl e
      | Inr bfs \<Rightarrow> Inr (sort_key (\<lambda>bf. path_base (bf_Path bf)) bfs))"

fun size_loop :: "reading \<Rightarrow> int64 \<Rightarrow> (string \<times> os_file) list \<Rightarrow> outbox_error + int64" where
  "size_loop rd acc [] = Inr acc"
| "size_loop rd acc ((name, f) # es) =
     (if \<not> rd_stat rd name then Inl StatEntry
      else if file_size f > MaxInt64 - acc then Inl SizeOverflow
      else size_loop rd (acc + file_size f) es)"

definition Size :: "reading \<Rightarrow> directory \<Rightarrow> outbox_error + int64" where
  "Size rd d = (if \<not> rd_dir rd then Inl ReadOutbox else size_loop rd 0 (read_dir d))"

text \<open>\<^verbatim>\<open>syncDir\<close>: whether the directory opens, and whether it synchronizes.\<close>

definition syncDir :: "bool \<times> bool \<Rightarrow> outbox_error option" where
  "syncDir ok = (if \<not> fst ok then Some OpenDir else if \<not> snd ok then Some SyncDir else None)"

text \<open>\<^verbatim>\<open>Open\<close>: the directory is created when it is missing.\<close>

definition Open :: "batch_lib \<Rightarrow> reading \<Rightarrow> bool \<Rightarrow> bool \<Rightarrow> string \<Rightarrow> int64 \<Rightarrow> int64 \<Rightarrow> directory option \<Rightarrow>
    (outbox_error + store) \<times> directory option" where
  "Open lib rd mkdir_ok chmod_ok stateDir nodeID maxBytes disk =
     (if \<not> mkdir_ok then (Inl CreateOutbox, disk)
      else let d = (case disk of None \<Rightarrow> fmempty | Some d \<Rightarrow> d) in
        if \<not> chmod_ok then (Inl SecureOutbox, Some d)
        else let st = \<lparr>st_dir = path_join stateDir ''outbox'', st_nodeID = nodeID, st_maxBytes = maxBytes\<rparr>
          in case List lib rd st d of
               Inl e \<Rightarrow> (Inl e, Some d)
             | Inr _ \<Rightarrow> (Inr st, Some d))"

subsection \<open>Publishing\<close>

record saving =
  sv_reading :: reading
  sv_nanos :: int64
  sv_create :: bool
  sv_written :: nat  \<comment> \<open>bytes that reached the file\<close>
  sv_write_ok :: bool
  sv_sync :: bool
  sv_close :: bool
  sv_rename :: bool
  sv_chmod :: bool
  sv_syncdir :: "bool \<times> bool"

definition batch_base :: "int64 \<Rightarrow> batch \<Rightarrow> string" where
  "batch_base nanos b = pad20 nanos @ ''-'' @ b_ID b @ ''.json''"

text \<open>The deferred function when the batch was not published: the temporary file is kept, read-only.\<close>

definition keep_temp :: "saving \<Rightarrow> string \<Rightarrow> directory \<Rightarrow> directory list" where
  "keep_temp sv temp d = (case fmlookup d temp of
     None \<Rightarrow> []
   | Some f \<Rightarrow> if sv_chmod sv then [fmupd temp (chmod_file 0x100 f) d] else [])"

text \<open>From the creation of the temporary file on.\<close>

definition publish :: "saving \<Rightarrow> string \<Rightarrow> string \<Rightarrow> string \<Rightarrow> directory \<Rightarrow>
    outbox_error option \<times> directory list" where
  "publish sv final temp data d =
     (if \<not> sv_create sv \<or> fmlookup d temp \<noteq> None then (Some CreateBatch, [])
      else
        let d1 = fmupd temp (Regular [] 0x180) d;
            d2 = fmupd temp (Regular (take (sv_written sv) data) 0x180) d1 in
        if \<not> sv_write_ok sv \<or> sv_written sv \<noteq> length data then
          (Some WriteBatch, [d1, d2] @ keep_temp sv temp d2)
        else if \<not> sv_sync sv then (Some SyncBatch, [d1, d2] @ keep_temp sv temp d2)
        else if \<not> sv_close sv then (Some CloseBatch, [d1, d2] @ keep_temp sv temp d2)
        else if \<not> sv_rename sv then (Some PublishBatch, [d1, d2] @ keep_temp sv temp d2)
        else
          let d3 = fmupd final (the (fmlookup d2 temp)) (fmdrop temp d2) in
          case syncDir (sv_syncdir sv) of
            Some e \<Rightarrow> (Some (PublishedUnsynced e), [d1, d2, d3])
          | None \<Rightarrow> (None, [d1, d2, d3]))"

definition Save :: "batch_lib \<Rightarrow> saving \<Rightarrow> store \<Rightarrow> batch \<Rightarrow> directory \<Rightarrow>
    outbox_error option \<times> directory list" where
  "Save lib sv st b d =
     (if b_NodeID b \<noteq> st_nodeID st then (Some WrongNode, [])
      else case validate lib True b of
        Some e \<Rightarrow> (Some e, [])
      | None \<Rightarrow>
          (case lib_marshal lib b of
             None \<Rightarrow> (Some MarshalFailed, [])
           | Some json \<Rightarrow>
               let data = json @ [CHR 0x0A] in
               case Size (sv_reading sv) d of
                 Inl e \<Rightarrow> (Some e, [])
               | Inr used \<Rightarrow>
                   if int (length data) > wrap64 (st_maxBytes st - used) then (Some CapacityExceeded, [])
                   else
                     let finalPath = path_join (st_dir st) (batch_base (sv_nanos sv) b);
                         tempPath = finalPath @ ''.tmp''
                     in publish sv (path_base finalPath) (path_base tempPath) data d))"

definition saved_dir :: "directory \<Rightarrow> outbox_error option \<times> directory list \<Rightarrow> directory" where
  "saved_dir d r = last (d # snd r)"

definition WasPublished :: "outbox_error option \<Rightarrow> bool" where
  "WasPublished err = (case err of Some (PublishedUnsynced _) \<Rightarrow> True | _ \<Rightarrow> False)"

definition Remove :: "bool \<Rightarrow> bool \<times> bool \<Rightarrow> store \<Rightarrow> string \<Rightarrow> directory \<Rightarrow> outbox_error option \<times> directory" where
  "Remove remove_ok sync_ok st path d =
     (let clean = path_clean path in
      if path_dir clean \<noteq> st_dir st \<or> \<not> has_suffix clean ''.json'' then (Some OutsideOutbox, d)
      else if \<not> remove_ok \<or> fmlookup d (path_base clean) = None then (Some RemoveFailed, d)
      else (syncDir sync_ok, fmdrop (path_base clean) d))"

subsection \<open>Validation\<close>

text \<open>An entry that the validation accepts.\<close>

definition entry_ok :: "entry \<Rightarrow> bool" where
  "entry_ok e \<longleftrightarrow> 0 \<le> e_Uplink e \<and> 0 \<le> e_Downlink e \<and> 0 < e_Uplink e + e_Downlink e \<and>
     e_Uplink e + e_Downlink e \<le> MaxInt64"

lemma check_entries_iff:
  "check_entries k es = None \<longleftrightarrow>
     sorted_wrt (<) (map e_UserID es) \<and> list_all (\<lambda>e. k < e_UserID e) es \<and> list_all entry_ok es"
proof (induction es arbitrary: k)
  case (Cons e es)
  have "list_all (\<lambda>x. k < e_UserID x) es" if "k < e_UserID e" "list_all (\<lambda>x. e_UserID e < e_UserID x) es"
    using that by (auto simp: list_all_iff intro: less_trans)
  with Cons.IH show ?case by (auto simp: entry_ok_def list_all_iff)
qed simp

definition meta_ok :: "batch \<Rightarrow> bool" where
  "meta_ok b \<longleftrightarrow> b_Version b = SchemaVersion \<and> 0 < b_NodeID b \<and> b_ConfigurationVersion b \<noteq> 0 \<and>
     0 < b_CreatedAt b \<and> \<not> bad_rate (b_TrafficRate b)"

definition entries_valid :: "entry list \<Rightarrow> bool" where
  "entries_valid es \<longleftrightarrow> list_all (\<lambda>e. 0 < e_UserID e \<and> entry_ok e) es \<and> sorted_wrt (<) (map e_UserID es)"

lemma validate_iff:
  "validate lib chk b = None \<longleftrightarrow> meta_ok b \<and> validUUID (b_ID b) \<and> entries_valid (b_Entries b) \<and>
     (chk \<longrightarrow> hash lib b = Inr (b_PayloadSHA256 b))"
proof -
  have e: "entries_valid (b_Entries b) \<longleftrightarrow> check_entries 0 (b_Entries b) = None"
    by (auto simp: entries_valid_def check_entries_iff list_all_iff)
  show ?thesis
    unfolding e by (auto simp: validate_def meta_ok_def not_le split: option.splits sum.splits)
qed

lemma bad_rate_iff: "\<not> bad_rate r \<longleftrightarrow> (\<exists>q. r = Fin q \<and> 0 < q \<and> q \<le> 10000)"
  by (cases r) (auto simp: bad_rate_def f64_le_def f64_eq_def)

lemma hash_update [simp]: "hash lib (b\<lparr>b_PayloadSHA256 := h\<rparr>) = hash lib b"
  by (simp add: hash_def)

lemma hex_decode_hexes: "list_all is_hex s \<Longrightarrow> even (length s) \<Longrightarrow> hex_decode s \<noteq> None"
  by (induction s rule: hex_decode.induct) (auto split: option.splits)

lemma hex_decode_chars: "hex_decode s = Some bs \<Longrightarrow> list_all is_hex s"
  by (induction s arbitrary: bs rule: hex_decode.induct) (auto split: if_splits option.splits)

lemma validUUID_chars:
  assumes "validUUID u" and "c \<in> set u"
  shows "is_hex c \<or> c = CHR ''-''"
  using assms hex_decode_chars [of "filter (\<lambda>c. c \<noteq> CHR ''-'') u"]
  by (auto simp: validUUID_def list_all_iff)

lemma hex_dash: "is_hex c \<Longrightarrow> c \<noteq> CHR ''-''"
  by (auto simp: is_hex_def is_digit_def)

lemma filter_dash_hex: "\<forall>b \<in> set bs. b < 256 \<Longrightarrow> filter (\<lambda>c. c \<noteq> CHR ''-'') (hex_encode bs) = hex_encode bs"
  by (rule filter_True) (metis hex_encode_chars hex_dash)

lemma validUUID_format:
  assumes "length bs = 16" and "\<forall>b \<in> set bs. b < 256"
  shows "validUUID (format_uuid bs)"
proof -
  obtain a0 a1 a2 a3 a4 a5 a6 a7 a8 a9 a10 a11 a12 a13 a14 a15
    where bs: "bs = [a0, a1, a2, a3, a4, a5, a6, a7, a8, a9, a10, a11, a12, a13, a14, a15]"
    using assms(1) by (rule list_16)
  have "filter (\<lambda>c. c \<noteq> CHR ''-'') (format_uuid bs) = hex_encode bs"
    using assms(2) by (simp add: format_uuid_def filter_dash_hex bs flip: hex_encode_append)
  moreover have "hex_decode (hex_encode bs) = Some bs" using assms(2) by (rule hex_decode_encode)
  moreover have "length (format_uuid bs) = 36" by (simp add: format_uuid_def bs)
  moreover have "format_uuid bs ! i = CHR ''-''" if "i \<in> {8, 13, 18, 23}" for i
    using that by (auto simp: format_uuid_def bs hex_encode_def hex_byte_def)
  ultimately show ?thesis by (simp add: validUUID_def)
qed

lemma newUUID_valid:
  assumes "newUUID (Some rnd) = Inr u" and "length rnd = 16" and "\<forall>b \<in> set rnd. b < 256"
  shows "validUUID u"
proof -
  have upd: "\<forall>b \<in> set (xs[i := x]). b < 256" if "\<forall>b \<in> set xs. b < 256" "x < 256" for xs :: "nat list" and i x
    using that set_update_subset_insert [of xs i x] by auto
  have "\<forall>b \<in> set (set_version_variant 0x40 rnd). b < 256"
    unfolding set_version_variant_def Let_def
    by (intro upd assms(3) version_nibble(4) version_nibble(6))
  then show ?thesis
    using assms by (auto simp: newUUID_def set_version_variant_def Let_def intro!: validUUID_format)
qed

end
