(* ===== verification/Database.thy ===== *)
theory Database
  imports Config Policy Outbox
begin

text \<open>
  \<^verbatim>\<open>internal/database/mysql.go\<close>: the panel tables the program reads and writes, the connection
  settings, the authorization snapshot with its validation, the traffic ledger (\<^verbatim>\<open>ApplyBatch\<close>)
  and the telemetry report.

  A table is a finite map from its primary key or a list of rows; each SQL text of the source is
  a function on the tables. A transaction works on a copy of the tables, which replaces them only
  at the commit. Every statement may fail, and the answer to a commit may be lost after the commit
  took effect: these outcomes are the fields of a \<open>tx_env\<close>. The rows an \<^verbatim>\<open>UPDATE\<close> affects are the
  rows it changes, since the driver is used without \<^verbatim>\<open>clientFoundRows\<close>. Transactions of other
  clients between the statements of one transaction are not modelled. MD5, SHA-256, the JSON
  encoder and the certificate parser are parameters.
\<close>

subsection \<open>Tables\<close>

record user_row =
  ur_passwd :: string
  ur_node_speedlimit :: f64
  ur_node_connector :: int64
  ur_forbidden_ip :: "string option"
  ur_forbidden_port :: "string option"
  ur_disconnect_ip :: "string option"
  ur_enable :: int
  ur_expire_in :: int
  ur_transfer_enable :: int
  ur_u :: int
  ur_d :: int
  ur_t :: int
  ur_is_admin :: int
  ur_class :: int
  ur_node_group :: int

text \<open>A row of \<^verbatim>\<open>ss_node\<close>, and the columns that \<^verbatim>\<open>vless_reality_node_config\<close> joins to it.\<close>

record node_row =
  nr_name :: string
  nr_sort :: int
  nr_type :: int
  nr_traffic_rate :: f64
  nr_node_class :: int
  nr_node_group :: int
  nr_node_speedlimit :: f64
  nr_node_connector :: int
  nr_node_bandwidth :: int
  nr_node_bandwidth_limit :: int
  nr_node_heartbeat :: int

record reality_row =
  rr_public_host :: string
  rr_public_port :: int
  rr_server_name :: string
  rr_target :: string
  rr_reality_public_key :: string
  rr_short_id :: string
  rr_fingerprint :: string
  rr_flow :: string
  rr_transport :: string
  rr_min_client_version :: string
  rr_config_version :: uint64

record batch_row =
  br_node_id :: int64
  br_payload_sha256 :: "nat list"
  br_created_at :: int64
  br_applied_at :: int

record log_row =
  lr_user_id :: int64
  lr_u :: int64
  lr_d :: int64
  lr_node_id :: int64
  lr_rate :: f64
  lr_traffic :: string
  lr_log_time :: int

record panel =
  p_user :: "(int, user_row) fmap"
  p_ss_node :: "(int, node_row) fmap"
  p_reality :: "(int, reality_row) fmap"
  p_batches :: "(string, batch_row) fmap"
  p_traffic_log :: "log_row list"
  p_alive_ip :: "(int \<times> int \<times> string \<times> int) list"
  p_online_log :: "(int \<times> int \<times> int) list"
  p_node_info :: "(int \<times> f64 \<times> string \<times> int) list"

datatype db_error =
    ErrNodeUnavailable
  | LoadNode
  | LoadUsers
  | ScanUser
  | ReadUsers
  | FinalizeFailed
  | InvalidIdentity
  | BadPolicy policy_error
  | InvalidNode
  | InvalidNodeRate
  | InvalidNodeProtocol
  | InvalidPublicHost
  | InvalidServerName
  | InvalidTarget
  | InvalidTargetPort
  | InvalidRealityKey
  | ShortIdLength
  | ShortIdHex
  | Padding
  | InvalidKey
  | HostnameLength
  | HostnameLabel
  | HostnameCharacter
  | ReadCA
  | NoCertificates
  | RegisterTLS
  | UnsupportedTLS
  | OpenDatabase
  | InvalidBatchHash
  | BeginFailed
  | InsertBatch
  | VerifyDuplicate
  | BatchCollision
  | BilledOverflow
  | UpdateUser
  | RowsUnknown
  | InsertLog
  | RawOverflow
  | UpdateNode
  | NodeDisappeared
  | CommitFailed
  | InsertAlive
  | InsertOnline
  | InsertInfo
  | UpdateHeartbeat

subsection \<open>Connection\<close>

record driver_config =
  dc_Net :: string
  dc_Addr :: string
  dc_User :: string
  dc_Passwd :: string
  dc_DBName :: string
  dc_ParseTime :: bool
  dc_Timeout :: int
  dc_ReadTimeout :: int
  dc_WriteTimeout :: int
  dc_Collation :: string
  dc_TLSConfig :: string

record db_handle =
  dh_config :: driver_config
  dh_MaxOpen :: int64
  dh_MaxIdle :: int64
  dh_MaxLifetime :: int

text \<open>
  The outcomes outside the program: the certificate file, whether it holds certificates, and what the
  registration of the TLS settings reports.
\<close>

datatype register_result = Registered | AlreadyRegistered | RegisterFailed

definition configureTLS :: "(string \<Rightarrow> string option) \<Rightarrow> (string \<Rightarrow> bool) \<Rightarrow> (nat list \<Rightarrow> nat list) \<Rightarrow>
    register_result \<Rightarrow> database_config \<Rightarrow> db_error + string" where
  "configureTLS readFile has_certs sha256 reg cfg =
     (if d_TLSMode cfg = ''disabled'' then Inr ''false''
      else if d_TLSMode cfg = ''required'' then Inr ''true''
      else if d_TLSMode cfg = ''verify_ca'' then
        (case readFile (d_CAFile cfg) of
           None \<Rightarrow> Inl ReadCA
         | Some pem \<Rightarrow>
             if \<not> has_certs pem then Inl NoCertificates
             else
               let nameHash = sha256 (map of_char (d_CAFile cfg @ [CHR 0x00] @ d_ServerName cfg));
                   name = ''vlesshappy-'' @ hex_encode (take 8 nameHash)
               in if reg = RegisterFailed then Inl RegisterTLS else Inr name)
      else Inl UnsupportedTLS)"

definition Open :: "(string \<Rightarrow> string option) \<Rightarrow> (string \<Rightarrow> bool) \<Rightarrow> (nat list \<Rightarrow> nat list) \<Rightarrow>
    register_result \<Rightarrow> bool \<Rightarrow> database_config \<Rightarrow> string \<Rightarrow> db_error + db_handle" where
  "Open readFile has_certs sha256 reg dsn_ok cfg password =
     (case configureTLS readFile has_certs sha256 reg cfg of
        Inl e \<Rightarrow> Inl e
      | Inr tlsName \<Rightarrow>
          if \<not> dsn_ok then Inl OpenDatabase
          else Inr \<lparr>dh_config = \<lparr>dc_Net = ''tcp'', dc_Addr = d_Address cfg, dc_User = d_Username cfg,
              dc_Passwd = password, dc_DBName = d_Name cfg, dc_ParseTime = True,
              dc_Timeout = seconds 15, dc_ReadTimeout = seconds 15, dc_WriteTimeout = seconds 15,
              dc_Collation = ''utf8mb4_unicode_ci'', dc_TLSConfig = tlsName\<rparr>,
            dh_MaxOpen = d_MaxOpen cfg, dh_MaxIdle = d_MaxIdle cfg, dh_MaxLifetime = seconds 300\<rparr>)"

subsection \<open>Validation of the node\<close>

definition is_alnum_dash :: "char \<Rightarrow> bool" where
  "is_alnum_dash r \<longleftrightarrow> (CHR ''a'' \<le> r \<and> r \<le> CHR ''z'') \<or> (CHR ''A'' \<le> r \<and> r \<le> CHR ''Z'') \<or>
     (CHR ''0'' \<le> r \<and> r \<le> CHR ''9'') \<or> r = CHR ''-''"

fun check_labels :: "string list \<Rightarrow> db_error option" where
  "check_labels [] = None"
| "check_labels (l # ls) =
     (if l = [] \<or> length l > 63 \<or> hd l = CHR ''-'' \<or> last l = CHR ''-'' then Some HostnameLabel
      else if \<not> list_all is_alnum_dash l then Some HostnameCharacter
      else check_labels ls)"

definition validateDNSName :: "string \<Rightarrow> db_error option" where
  "validateDNSName v =
     (if v = [] \<or> length v > 253 \<or> has_prefix v ''.'' \<or> has_suffix v ''.'' then Some HostnameLength
      else check_labels (split_on CHR ''.'' v))"

definition validateHost :: "string \<Rightarrow> db_error option" where
  "validateHost v =
     (let w = trim_brackets v in if parse_addr w \<noteq> None then None else validateDNSName w)"

text \<open>\<^verbatim>\<open>base64.RawURLEncoding\<close>: line breaks are skipped, trailing bits are not checked.\<close>

definition base64_val :: "char \<Rightarrow> nat option" where
  "base64_val c =
     (let n = of_char c in
      if 65 \<le> n \<and> n \<le> 90 then Some (n - 65)
      else if 97 \<le> n \<and> n \<le> 122 then Some (n - 71)
      else if 48 \<le> n \<and> n \<le> 57 then Some (n + 4)
      else if c = CHR ''-'' then Some 62 else if c = CHR ''_'' then Some 63 else None)"

fun base64_bytes :: "nat list \<Rightarrow> nat list option" where
  "base64_bytes [] = Some []"
| "base64_bytes [a] = None"
| "base64_bytes [a, b] = Some [a * 4 + b div 16]"
| "base64_bytes [a, b, c] = Some [a * 4 + b div 16, b mod 16 * 16 + c div 4]"
| "base64_bytes (a # b # c # d # r) =
     map_option (\<lambda>bs. [a * 4 + b div 16, b mod 16 * 16 + c div 4, c mod 4 * 64 + d] @ bs) (base64_bytes r)"

definition base64_decode :: "string \<Rightarrow> nat list option" where
  "base64_decode s =
     (let t = filter (\<lambda>c. c \<noteq> CHR 0x0A \<and> c \<noteq> CHR 0x0D) s in
      if list_all (\<lambda>c. base64_val c \<noteq> None) t then base64_bytes (map (the \<circ> base64_val) t) else None)"

definition decodeBase64URL32 :: "string \<Rightarrow> db_error + nat list" where
  "decodeBase64URL32 v =
     (if CHR ''='' \<in> set v then Inl Padding
      else case base64_decode v of
        None \<Rightarrow> Inl InvalidKey
      | Some bs \<Rightarrow> if length bs \<noteq> 32 then Inl InvalidKey else Inr bs)"

definition check_target :: "string \<Rightarrow> db_error option" where
  "check_target t =
     (case SplitHostPort t of
        None \<Rightarrow> Some InvalidTarget
      | Some (host, portText) \<Rightarrow>
          if validateHost host \<noteq> None then Some InvalidTarget
          else (case parse_int64 portText of
                  None \<Rightarrow> Some InvalidTargetPort
                | Some p \<Rightarrow> if p < 1 \<or> p > 65535 then Some InvalidTargetPort else None))"

definition validateNode :: "node \<Rightarrow> db_error option" where
  "validateNode n = first_error
     [check (n_ID n \<le> 0 \<or> n_ConfigurationVersion n = 0 \<or> n_PublicPort n < 1 \<or> n_PublicPort n > 65535) InvalidNode,
      check (bad_rate (n_TrafficRate n)) InvalidNodeRate,
      check (n_Fingerprint n \<noteq> ''chrome'' \<or> n_Flow n \<noteq> ''xtls-rprx-vision'' \<or> n_Transport n \<noteq> ''raw'')
        InvalidNodeProtocol,
      check (validateHost (n_PublicHost n) \<noteq> None) InvalidPublicHost,
      check (validateDNSName (n_ServerName n) \<noteq> None) InvalidServerName,
      check_target (n_Target n),
      check (isl (decodeBase64URL32 (n_RealityPublicKey n))) InvalidRealityKey,
      check (length (n_ShortID n) > 16 \<or> odd (length (n_ShortID n))) ShortIdLength,
      check (hex_decode (n_ShortID n) = None) ShortIdHex]"

subsection \<open>The authorization snapshot\<close>

record load_env =
  le_node :: bool  \<comment> \<open>the node query and its scan succeed\<close>
  le_between :: "panel \<Rightarrow> panel"  \<comment> \<open>what other clients change between the two queries, which share no transaction\<close>
  le_users :: bool
  le_scan :: "int \<Rightarrow> bool"
  le_rows :: bool
  le_now :: int

text \<open>The joined node row with its conditions, and the condition on user rows.\<close>

definition select_node :: "panel \<Rightarrow> int64 \<Rightarrow> node option" where
  "select_node p nodeID =
     (case (fmlookup (p_ss_node p) nodeID, fmlookup (p_reality p) nodeID) of
        (Some n, Some c) \<Rightarrow>
          if nr_sort n = 15 \<and> nr_type n = 1 \<and>
             (nr_node_bandwidth_limit n = 0 \<or> nr_node_bandwidth n < nr_node_bandwidth_limit n) then
            Some \<lparr>n_ID = nodeID, n_Name = nr_name n, n_TrafficRate = nr_traffic_rate n,
              n_Class = nr_node_class n, n_Group = nr_node_group n, n_SpeedLimitMbps = nr_node_speedlimit n,
              n_ConnectorLimit = nr_node_connector n, n_Bandwidth = nr_node_bandwidth n,
              n_BandwidthLimit = nr_node_bandwidth_limit n, n_PublicHost = rr_public_host c,
              n_PublicPort = rr_public_port c, n_ServerName = rr_server_name c, n_Target = rr_target c,
              n_RealityPublicKey = rr_reality_public_key c, n_ShortID = rr_short_id c,
              n_Fingerprint = rr_fingerprint c, n_Flow = rr_flow c, n_Transport = rr_transport c,
              n_MinClientVersion = rr_min_client_version c, n_ConfigurationVersion = rr_config_version c\<rparr>
          else None
      | _ \<Rightarrow> None)"

definition authorized :: "node \<Rightarrow> int \<Rightarrow> user_row \<Rightarrow> bool" where
  "authorized n now r \<longleftrightarrow> ur_enable r = 1 \<and> ur_expire_in r > now \<and> ur_transfer_enable r > ur_u r + ur_d r \<and>
     (ur_is_admin r = 1 \<or> (ur_class r \<ge> n_Class n \<and> (n_Group n = 0 \<or> ur_node_group r = n_Group n)))"

definition select_users :: "panel \<Rightarrow> node \<Rightarrow> int \<Rightarrow> (int64 \<times> user_row) list" where
  "select_users p n now =
     filter (\<lambda>(i, r). authorized n now r)
       (map (\<lambda>i. (i, the (fmlookup (p_user p) i))) (sorted_list_of_fset (fmdom (p_user p))))"

definition coalesce :: "string option \<Rightarrow> string" where
  "coalesce s = (case s of None \<Rightarrow> [] | Some t \<Rightarrow> t)"

definition compileUser :: "(nat list \<Rightarrow> nat list) \<Rightarrow> int64 \<Rightarrow> string \<Rightarrow> f64 \<Rightarrow> int64 \<Rightarrow> string \<Rightarrow> string \<Rightarrow> string \<Rightarrow>
    db_error + user" where
  "compileUser md5 uid password speed connectors forbiddenIP forbiddenPort disconnectIP =
     (if uid \<le> 0 \<or> password = [] \<or> speed = NaN \<or> speed = PInf \<or> speed = NInf \<or> f64_lt speed (Fin 0) \<or>
         f64_lt (Fin 1000000) speed \<or> connectors < 0 \<or> connectors > 1000000 then Inl InvalidIdentity
      else case ParseIPRules forbiddenIP of
        Inl e \<Rightarrow> Inl (BadPolicy e)
      | Inr blocked \<Rightarrow>
          (case ParsePorts forbiddenPort of
             Inl e \<Rightarrow> Inl (BadPolicy e)
           | Inr ports \<Rightarrow>
               (case ParseSourceIPs disconnectIP of
                  Inl e \<Rightarrow> Inl (BadPolicy e)
                | Inr disconnected \<Rightarrow>
                    Inr \<lparr>u_ID = uid, u_UUID = UUIDv3 md5 uid password, u_SpeedLimitMbps = speed,
                      u_ConnectorLimit = connectors, u_ForbiddenIPs = blocked, u_ForbiddenPorts = ports,
                      u_DisconnectIPs = disconnected\<rparr>)))"

definition compile_row :: "(nat list \<Rightarrow> nat list) \<Rightarrow> int64 \<Rightarrow> user_row \<Rightarrow> db_error + user" where
  "compile_row md5 uid r = compileUser md5 uid (ur_passwd r) (ur_node_speedlimit r) (ur_node_connector r)
     (coalesce (ur_forbidden_ip r)) (coalesce (ur_forbidden_port r)) (coalesce (ur_disconnect_ip r))"

text \<open>The loop over the rows; a warning is the isolated user and the reason.\<close>

fun user_loop :: "(nat list \<Rightarrow> nat list) \<Rightarrow> (int \<Rightarrow> bool) \<Rightarrow> (int64 \<times> user_row) list \<Rightarrow>
    (db_error + user list) \<times> (int64 \<times> db_error) list" where
  "user_loop md5 scan_ok [] = (Inr [], [])"
| "user_loop md5 scan_ok ((uid, r) # rows) =
     (if \<not> scan_ok uid then (Inl ScanUser, [])
      else
        let (res, warnings) = user_loop md5 scan_ok rows in
        case compile_row md5 uid r of
          Inl e \<Rightarrow> (res, (uid, e) # warnings)
        | Inr u \<Rightarrow> ((case res of Inl e \<Rightarrow> Inl e | Inr us \<Rightarrow> Inr (u # us)), warnings))"

definition LoadSnapshot :: "(nat list \<Rightarrow> nat list) \<Rightarrow> (node \<times> user list \<Rightarrow> nat list option) \<Rightarrow>
    (nat list \<Rightarrow> nat list) \<Rightarrow> load_env \<Rightarrow> panel \<Rightarrow> int64 \<Rightarrow>
    (db_error + snapshot) \<times> (int64 \<times> db_error) list" where
  "LoadSnapshot md5 marshal sha256 env p nodeID =
     (if \<not> le_node env then (Inl LoadNode, [])
      else case select_node p nodeID of
        None \<Rightarrow> (Inl ErrNodeUnavailable, [])
      | Some n \<Rightarrow>
          (case validateNode n of
             Some e \<Rightarrow> (Inl e, [])
           | None \<Rightarrow>
               if \<not> le_users env then (Inl LoadUsers, [])
               else
                 let (res, warnings) = user_loop md5 (le_scan env) (select_users (le_between env p) n (le_now env)) in
                 case res of
                   Inl e \<Rightarrow> (Inl e, warnings)
                 | Inr us \<Rightarrow>
                     if \<not> le_rows env then (Inl ReadUsers, warnings)
                     else (case Finalize marshal sha256
                             \<lparr>s_Node = n, s_Users = us, s_LoadedAt = le_now env, s_Hash = []\<rparr> of
                             None \<Rightarrow> (Inl FinalizeFailed, warnings)
                           | Some snap \<Rightarrow> (Inr snap, warnings))))"

subsection \<open>The traffic ledger\<close>

datatype commit_result = CommitDone | CommitRejected | CommitUnanswered

record tx_env =
  tx_begin :: bool
  tx_stmt :: "nat \<Rightarrow> bool"
  tx_rows :: "nat \<Rightarrow> bool"
  tx_commit :: commit_result
  tx_now :: int

definition billed :: "int64 \<Rightarrow> f64 \<Rightarrow> db_error + int64" where
  "billed raw rate =
     (let v = f64_mul (f64_of_int raw) rate in
      if v = NaN \<or> v = PInf \<or> v = NInf \<or> f64_lt (f64_of_int MaxInt64) v then Inl BilledOverflow
      else Inr (f64_to_int64 (f64_round v)))"

text \<open>The loop that chooses the unit, and the format \<^verbatim>\<open>%.2f\<close>.\<close>

function unit_loop :: "int64 \<Rightarrow> int64 \<Rightarrow> nat \<Rightarrow> int64 \<times> nat" where
  "unit_loop n divisor exponent =
     (if n \<ge> 1024 \<and> exponent < 5 then unit_loop (n div 1024) (divisor * 1024) (Suc exponent)
      else (divisor, exponent))"
  by pat_completeness auto
termination
  by (relation "measure (\<lambda>(n, d, e). 5 - e)") auto

declare unit_loop.simps [simp del]

definition format_2f :: "f64 \<Rightarrow> string" where
  "format_2f x = (case x of
     NaN \<Rightarrow> ''NaN'' | PInf \<Rightarrow> ''+Inf'' | NInf \<Rightarrow> ''-Inf''
   | Fin q \<Rightarrow>
       let r = round_even (100 * \<bar>q\<bar>); c = r mod 100
       in (if q < 0 then ''-'' else []) @ itoa (r div 100) @ ''.'' @ itoa (c div 10) @ itoa (c mod 10))"

definition humanBytes :: "int64 \<Rightarrow> string" where
  "humanBytes value =
     (if value < 1024 then itoa value @ '' B''
      else let (divisor, exponent) = unit_loop (value div 1024) 1024 0
           in format_2f (f64_div_pos (f64_of_int value) (of_int divisor)) @ '' '' @
              [''KMGTPE'' ! exponent] @ ''iB'')"

text \<open>The statements of the transaction; an \<^verbatim>\<open>UPDATE\<close> returns the number of rows it changed.\<close>

definition update_user :: "int64 \<Rightarrow> int64 \<Rightarrow> int \<Rightarrow> int64 \<Rightarrow> panel \<Rightarrow> nat \<times> panel" where
  "update_user up down now uid p =
     (case fmlookup (p_user p) uid of
        None \<Rightarrow> (0, p)
      | Some r \<Rightarrow>
          let r' = r\<lparr>ur_u := ur_u r + up, ur_d := ur_d r + down, ur_t := now\<rparr>
          in (if r' = r then 0 else 1, p\<lparr>p_user := fmupd uid r' (p_user p)\<rparr>))"

definition insert_log :: "batch \<Rightarrow> entry \<Rightarrow> string \<Rightarrow> int \<Rightarrow> panel \<Rightarrow> panel" where
  "insert_log b e traffic now p =
     p\<lparr>p_traffic_log := p_traffic_log p @
       [\<lparr>lr_user_id = e_UserID e, lr_u = e_Uplink e, lr_d = e_Downlink e, lr_node_id = b_NodeID b,
         lr_rate = b_TrafficRate b, lr_traffic = traffic, lr_log_time = now\<rparr>]\<rparr>"

definition update_bandwidth :: "int64 \<Rightarrow> int64 \<Rightarrow> panel \<Rightarrow> nat \<times> panel" where
  "update_bandwidth raw nodeID p =
     (case fmlookup (p_ss_node p) nodeID of
        None \<Rightarrow> (0, p)
      | Some n \<Rightarrow>
          (if raw = 0 then 0 else 1,
           p\<lparr>p_ss_node := fmupd nodeID (n\<lparr>nr_node_bandwidth := nr_node_bandwidth n + raw\<rparr>) (p_ss_node p)\<rparr>))"

fun apply_entries :: "tx_env \<Rightarrow> batch \<Rightarrow> nat \<Rightarrow> int64 \<Rightarrow> entry list \<Rightarrow> panel \<Rightarrow> db_error + (nat \<times> int64 \<times> panel)" where
  "apply_entries env b k raw [] p = Inr (k, raw, p)"
| "apply_entries env b k raw (e # es) p =
     (case billed (e_Uplink e) (b_TrafficRate b) of
        Inl err \<Rightarrow> Inl err
      | Inr billedUp \<Rightarrow>
          (case billed (e_Downlink e) (b_TrafficRate b) of
             Inl err \<Rightarrow> Inl err
           | Inr billedDown \<Rightarrow>
               if \<not> tx_stmt env k then Inl UpdateUser
               else if \<not> tx_rows env k then Inl RowsUnknown
               else
                 let (updated, p1) = update_user billedUp billedDown (tx_now env) (e_UserID e) p in
                 if updated > 0 \<and> \<not> tx_stmt env (Suc k) then Inl InsertLog
                 else
                   let p2 = (if updated > 0
                             then insert_log b e (humanBytes (wrap64 (billedUp + billedDown))) (tx_now env) p1
                             else p1);
                       k2 = (if updated > 0 then Suc (Suc k) else Suc k) in
                   if e_Uplink e > wrap64 (MaxInt64 - e_Downlink e) \<or>
                      raw > wrap64 (wrap64 (MaxInt64 - e_Uplink e) - e_Downlink e) then Inl RawOverflow
                   else apply_entries env b k2 (wrap64 (raw + wrap64 (e_Uplink e + e_Downlink e))) es p2))"

text \<open>The transaction up to its commit; \<^term>\<open>None\<close> for a batch that was booked before.\<close>

definition apply_tx :: "tx_env \<Rightarrow> batch \<Rightarrow> nat list \<Rightarrow> panel \<Rightarrow> db_error + panel option" where
  "apply_tx env b h p =
     (if \<not> tx_stmt env 0 then Inl InsertBatch
      else case fmlookup (p_batches p) (b_ID b) of
        Some stored \<Rightarrow>
          if \<not> tx_stmt env 1 then Inl VerifyDuplicate
          else if br_node_id stored \<noteq> b_NodeID b \<or> br_payload_sha256 stored \<noteq> h then Inl BatchCollision
          else Inr None
      | None \<Rightarrow>
          let p0 = p\<lparr>p_batches := fmupd (b_ID b) \<lparr>br_node_id = b_NodeID b, br_payload_sha256 = h,
                br_created_at = b_CreatedAt b, br_applied_at = tx_now env\<rparr> (p_batches p)\<rparr>
          in case apply_entries env b 1 0 (b_Entries b) p0 of
               Inl e \<Rightarrow> Inl e
             | Inr (k, raw, p1) \<Rightarrow>
                 if \<not> tx_stmt env k then Inl UpdateNode
                 else
                   let (affected, p2) = update_bandwidth raw (b_NodeID b) p1 in
                   if (if tx_rows env k then affected else 0) \<noteq> 1 then Inl NodeDisappeared
                   else Inr (Some p2))"

definition commit :: "tx_env \<Rightarrow> panel \<Rightarrow> panel \<Rightarrow> db_error option \<times> panel" where
  "commit env p p' = (case tx_commit env of
     CommitDone \<Rightarrow> (None, p')
   | CommitRejected \<Rightarrow> (Some CommitFailed, p)
   | CommitUnanswered \<Rightarrow> (Some CommitFailed, p'))"

definition ApplyBatch :: "tx_env \<Rightarrow> batch \<Rightarrow> panel \<Rightarrow> db_error option \<times> panel" where
  "ApplyBatch env b p =
     (case hex_decode (b_PayloadSHA256 b) of
        None \<Rightarrow> (Some InvalidBatchHash, p)
      | Some h \<Rightarrow>
          if length h \<noteq> 32 then (Some InvalidBatchHash, p)
          else if \<not> tx_begin env then (Some BeginFailed, p)
          else (case apply_tx env b h p of
                  Inl e \<Rightarrow> (Some e, p)
                | Inr None \<Rightarrow> (None, p)
                | Inr (Some p') \<Rightarrow> commit env p p'))"

subsection \<open>Telemetry\<close>

text \<open>\<^verbatim>\<open>Duration.Seconds\<close> of a duration that is not negative.\<close>

definition duration_seconds :: "int \<Rightarrow> f64" where
  "duration_seconds d =
     (case (f64_of_int (d div 10 ^ 9), f64_div_pos (f64_of_int (d mod 10 ^ 9)) (10 ^ 9)) of
        (Fin a, Fin b) \<Rightarrow> rnd64 (a + b)
      | (a, _) \<Rightarrow> a)"

fun insert_ips :: "tx_env \<Rightarrow> int64 \<Rightarrow> int64 \<Rightarrow> nat \<Rightarrow> string list \<Rightarrow> panel \<Rightarrow> db_error + (nat \<times> panel)" where
  "insert_ips env nodeID uid k [] p = Inr (k, p)"
| "insert_ips env nodeID uid k (ip # ips) p =
     (if \<not> tx_stmt env k then Inl InsertAlive
      else insert_ips env nodeID uid (Suc k) ips
             (p\<lparr>p_alive_ip := p_alive_ip p @ [(nodeID, uid, ip, tx_now env)]\<rparr>))"

text \<open>The loop over the map, in the order the runtime chooses.\<close>

fun online_loop :: "tx_env \<Rightarrow> int64 \<Rightarrow> nat \<Rightarrow> int \<Rightarrow> (int64 \<times> string list) list \<Rightarrow> panel \<Rightarrow>
    db_error + (nat \<times> int \<times> panel)" where
  "online_loop env nodeID k users [] p = Inr (k, users, p)"
| "online_loop env nodeID k users ((uid, ips) # online) p =
     (case insert_ips env nodeID uid k ips p of
        Inl e \<Rightarrow> Inl e
      | Inr (k', p') \<Rightarrow> online_loop env nodeID k' (if length ips > 0 then users + 1 else users) online p')"

definition update_heartbeat :: "int \<Rightarrow> int64 \<Rightarrow> panel \<Rightarrow> nat \<times> panel" where
  "update_heartbeat now nodeID p =
     (case fmlookup (p_ss_node p) nodeID of
        None \<Rightarrow> (0, p)
      | Some n \<Rightarrow>
          (if nr_node_heartbeat n = now then 0 else 1,
           p\<lparr>p_ss_node := fmupd nodeID (n\<lparr>nr_node_heartbeat := now\<rparr>) (p_ss_node p)\<rparr>))"

definition telemetry_tx :: "tx_env \<Rightarrow> int64 \<Rightarrow> (int64 \<times> string list) list \<Rightarrow> int \<Rightarrow> string \<Rightarrow> panel \<Rightarrow> db_error + panel" where
  "telemetry_tx env nodeID online uptime load p =
     (case online_loop env nodeID 0 0 online p of
        Inl e \<Rightarrow> Inl e
      | Inr (k, users, p1) \<Rightarrow>
          if \<not> tx_stmt env k then Inl InsertOnline
          else
            let p2 = p1\<lparr>p_online_log := p_online_log p1 @ [(nodeID, users, tx_now env)]\<rparr> in
            if \<not> tx_stmt env (k + 1) then Inl InsertInfo
            else
              let p3 = p2\<lparr>p_node_info := p_node_info p2 @
                    [(nodeID, duration_seconds uptime, take 32 load, tx_now env)]\<rparr> in
              if \<not> tx_stmt env (k + 2) then Inl UpdateHeartbeat
              else
                let (affected, p4) = update_heartbeat (tx_now env) nodeID p3 in
                if (if tx_rows env (k + 2) then affected else 0) \<noteq> 1 then Inl NodeDisappeared
                else Inr p4)"

definition ReportTelemetry :: "tx_env \<Rightarrow> int64 \<Rightarrow> (int64 \<times> string list) list \<Rightarrow> int \<Rightarrow> string \<Rightarrow> panel \<Rightarrow>
    db_error option \<times> panel" where
  "ReportTelemetry env nodeID online uptime load p =
     (if \<not> tx_begin env then (Some BeginFailed, p)
      else case telemetry_tx env nodeID online uptime load p of
        Inl e \<Rightarrow> (Some e, p)
      | Inr p' \<Rightarrow> commit env p p')"

end
