(* ===== verification/Outbox_Log.thy ===== *)
theory Outbox_Log
  imports Outbox
begin

text \<open>
  The outbox directory as a log of batches: what \<^verbatim>\<open>List\<close> shows of a directory, that \<^verbatim>\<open>Save\<close> adds
  one batch or none at every point where the process may stop, and that \<^verbatim>\<open>Remove\<close> takes away
  the named batch and nothing else.
\<close>

subsection \<open>Listing\<close>

text \<open>Names of directory entries, and a system that grants every read.\<close>

definition names_ok :: "directory \<Rightarrow> bool" where
  "names_ok d \<longleftrightarrow> (\<forall>n \<in> fmdom' d. plain_name n)"

definition reads_ok :: "reading \<Rightarrow> bool" where
  "reads_ok rd \<longleftrightarrow> rd_dir rd \<and> (\<forall>n. rd_stat rd n \<and> rd_file rd n)"

definition names :: "directory \<Rightarrow> string list" where
  "names d = sorted_list_of_fset (fmdom d)"

text \<open>The batch a name of the directory holds, when it is a sound entry.\<close>

definition batch_at :: "batch_lib \<Rightarrow> store \<Rightarrow> directory \<Rightarrow> string \<Rightarrow> batch option" where
  "batch_at lib st d n = (case fmlookup d n of
     None \<Rightarrow> None
   | Some f \<Rightarrow>
       if has_suffix n ''.tmp'' \<or> is_dir f \<or> \<not> has_suffix n ''.json'' \<or> \<not> is_regular f then None
       else (case readBatch lib True f of
               Inl _ \<Rightarrow> None
             | Inr b \<Rightarrow> if b_NodeID b = st_nodeID st then Some b else None))"

definition listing :: "batch_lib \<Rightarrow> store \<Rightarrow> directory \<Rightarrow> batch_file list" where
  "listing lib st d =
     map (\<lambda>n. \<lparr>bf_Path = path_join (st_dir st) n, bf_Batch = the (batch_at lib st d n)\<rparr>) (names d)"

definition sound :: "batch_lib \<Rightarrow> store \<Rightarrow> directory \<Rightarrow> bool" where
  "sound lib st d \<longleftrightarrow> (\<forall>n \<in> fmdom' d. batch_at lib st d n \<noteq> None)"

lemma set_names [simp]: "set (names d) = fmdom' d"
  by (simp add: names_def sorted_list_of_fset.rep_eq fmdom'_alt_def)

lemma names_sorted [simp]: "sorted (names d)" "distinct (names d)"
  by (simp_all add: names_def sorted_list_of_fset.rep_eq)

lemma list_entry_at:
  assumes "reads_ok rd" and "fmlookup d n = Some f"
  shows "list_entry lib rd st n f = Inr bf \<longleftrightarrow>
    (\<exists>b. batch_at lib st d n = Some b \<and> bf = \<lparr>bf_Path = path_join (st_dir st) n, bf_Batch = b\<rparr>)"
  using assms by (auto simp: list_entry_def batch_at_def reads_ok_def split: sum.splits)

lemma list_loop_Inr:
  "list_loop lib rd st es = Inr bfs \<longleftrightarrow>
     list_all2 (\<lambda>(n, f) bf. list_entry lib rd st n f = Inr bf) es bfs"
proof (induction es arbitrary: bfs)
  case (Cons e es)
  show ?case by (cases e; cases bfs) (auto simp flip: Cons.IH split: sum.splits)
qed auto

lemma list_loop_read_dir:
  assumes "reads_ok rd"
  shows "list_loop lib rd st (read_dir d) = Inr bfs \<longleftrightarrow> sound lib st d \<and> bfs = listing lib st d"
proof -
  have "list_all2 (\<lambda>(n, f) bf. list_entry lib rd st n f = Inr bf)
      (map (\<lambda>n. (n, the (fmlookup d n))) ns) bfs \<longleftrightarrow>
      (\<forall>n \<in> set ns. batch_at lib st d n \<noteq> None) \<and>
      bfs = map (\<lambda>n. \<lparr>bf_Path = path_join (st_dir st) n, bf_Batch = the (batch_at lib st d n)\<rparr>) ns"
    if "set ns \<subseteq> fmdom' d" for ns
    using that
  proof (induction ns arbitrary: bfs)
    case (Cons n ns)
    then obtain f where f: "fmlookup d n = Some f" by (auto simp: fmlookup_dom'_iff)
    show ?case
      using Cons by (cases bfs) (auto simp: f list_entry_at [OF assms f])
  qed simp
  from this [of "names d"] show ?thesis
    by (simp add: list_loop_Inr read_dir_def names_def [symmetric] sound_def listing_def)
qed

lemma base_listing:
  assumes "clean_abs (st_dir st)" and "names_ok d"
  shows "map (\<lambda>bf. path_base (bf_Path bf)) (listing lib st d) = names d"
proof -
  have "path_base (path_join (st_dir st) n) = n" if "n \<in> fmdom' d" for n
    using that assms path_base_entry path_join_name by (auto simp: names_ok_def)
  then show ?thesis unfolding listing_def map_map comp_def by (intro map_idI) simp
qed

lemma List_iff:
  assumes "clean_abs (st_dir st)" and "names_ok d" and "reads_ok rd"
  shows "List lib rd st d = Inr bfs \<longleftrightarrow> sound lib st d \<and> bfs = listing lib st d"
proof -
  have key: "sort_key (\<lambda>bf. path_base (bf_Path bf)) (listing lib st d) = listing lib st d"
    using base_listing [OF assms(1,2), of lib] by (intro sort_key_id_if_sorted) (metis names_sorted(1))
  have rd: "rd_dir rd" using assms(3) by (simp add: reads_ok_def)
  show ?thesis
  proof (cases "list_loop lib rd st (read_dir d)")
    case (Inl e)
    then have "\<not> sound lib st d" using list_loop_read_dir [OF assms(3), of lib st d "listing lib st d"] by simp
    with Inl rd show ?thesis by (simp add: List_def)
  next
    case (Inr xs)
    then have "sound lib st d" "xs = listing lib st d"
      using list_loop_read_dir [OF assms(3), of lib st d] by blast+
    with Inr rd key show ?thesis by (auto simp: List_def)
  qed
qed

lemma names_upd:
  "n |\<notin>| fmdom d \<Longrightarrow> mset (names (fmupd n f d)) = add_mset n (mset (names d))"
  by (simp add: names_def sorted_list_of_fset.rep_eq sorted_list_of_set_insert_remove)

lemma names_drop:
  "n |\<in>| fmdom d \<Longrightarrow> names (fmdrop n d) = remove1 n (names d)"
  by (simp add: names_def sorted_list_of_fset.rep_eq sorted_list_of_set_remove)

subsection \<open>Publishing\<close>

lemma fmupd_twice [simp]: "fmupd k a (fmupd k b m) = fmupd k a m"
  by (rule fmap_ext) simp

lemma fmdrop_fresh: "fmlookup m k = None \<Longrightarrow> fmdrop k (fmupd k v m) = m"
  by (rule fmap_ext) auto

text \<open>A directory with a temporary file, and one with the complete batch.\<close>

definition has_temp :: "string \<Rightarrow> directory \<Rightarrow> directory \<Rightarrow> bool" where
  "has_temp temp d d' \<longleftrightarrow> (\<exists>s m. d' = fmupd temp (Regular s m) d)"

lemma has_tempI [intro]: "has_temp temp d (fmupd temp (Regular s m) d)"
  by (auto simp: has_temp_def)

lemma keep_temp_has_temp: "d' \<in> set (keep_temp sv temp (fmupd temp (Regular s m) d)) \<Longrightarrow> has_temp temp d d'"
  by (auto simp: keep_temp_def split: if_splits)

lemma last_keep_temp:
  "last (d1 # keep_temp sv temp d1) = d1 \<or> last (d1 # keep_temp sv temp d1) \<in> set (keep_temp sv temp d1)"
  by (auto simp: last_in_set)

lemma publish_cases:
  assumes "publish sv final temp data d = (err, ds)"
  obtains (refused) "ds = []" "err = Some CreateBatch"
  | (kept) e where "err = Some e" "e \<in> {WriteBatch, SyncBatch, CloseBatch, PublishBatch}"
      "\<forall>d' \<in> set ds. has_temp temp d d'" "has_temp temp d (last (d # ds))" "fmlookup d temp = None"
  | (published) d1 d2 where "err = None \<or> WasPublished err" "has_temp temp d d1" "has_temp temp d d2"
      "ds = [d1, d2, fmupd final (Regular data 0x180) d]" "fmlookup d temp = None"
proof -
  let ?d1 = "fmupd temp (Regular [] 0x180) d"
  let ?d2 = "fmupd temp (Regular (take (sv_written sv) data) 0x180) d"
  let ?ds = "[?d1, ?d2] @ keep_temp sv temp ?d2"
  have temps: "\<forall>d' \<in> set ?ds. has_temp temp d d'" using keep_temp_has_temp by auto
  moreover have "has_temp temp d (last (d # ?ds))"
    using temps last_in_set [of ?ds] by (metis append_Cons last_ConsR list.distinct(1))
  ultimately have K: thesis if "fmlookup d temp = None" "err = Some e" "ds = ?ds"
      "e \<in> {WriteBatch, SyncBatch, CloseBatch, PublishBatch}" for e
    using kept that by metis
  consider "\<not> sv_create sv \<or> fmlookup d temp \<noteq> None"
    | e where "fmlookup d temp = None" "err = Some e" "ds = ?ds"
        "e \<in> {WriteBatch, SyncBatch, CloseBatch, PublishBatch}"
    | "fmlookup d temp = None" "sv_written sv = length data" "sv_create sv" "sv_write_ok sv" "sv_sync sv"
        "sv_close sv" "sv_rename sv"
    using assms by (auto simp: publish_def Let_def split: if_splits)
  then show thesis
  proof cases
    case 1
    with assms refused show thesis by (auto simp: publish_def)
  next
    case 2
    with K show thesis by blast
  next
    case 3
    have "ds = [?d1, ?d2, fmupd final (Regular data 0x180) d] \<and> (err = None \<or> WasPublished err)"
      using 3 assms by (auto simp: publish_def Let_def fmdrop_fresh WasPublished_def split: option.splits)
    with published 3(1) show thesis by blast
  qed
qed

subsection \<open>File names\<close>

lemma pad20_chars: "c \<in> set (pad20 n) \<Longrightarrow> is_digit c \<or> c = CHR ''-''"
  using is_digit_digit_char [of 0]
  by (auto simp: pad20_def itoa_def digit_char_def dest: show_10_digits split: if_splits)

lemma batch_base_plain:
  assumes "validUUID (b_ID b)"
  shows "plain_name (batch_base n b)" and "plain_name (batch_base n b @ ''.tmp'')"
proof -
  have "CHR ''/'' \<notin> set (pad20 n)" using pad20_chars [of "CHR ''/''" n] by (auto simp: is_digit_def)
  moreover have "CHR ''/'' \<notin> set (b_ID b)"
    using validUUID_chars [OF assms, of "CHR ''/''"] by (auto simp: is_hex_def is_digit_def)
  ultimately have "CHR ''/'' \<notin> set (batch_base n b)" by (simp add: batch_base_def)
  moreover have "5 \<le> length (batch_base n b)" by (simp add: batch_base_def)
  ultimately show "plain_name (batch_base n b)" and "plain_name (batch_base n b @ ''.tmp'')"
    by (auto simp: plain_name_def)
qed

lemma has_suffix_same_length:
  assumes "length p = length q"
  shows "has_suffix (s @ p) q \<longleftrightarrow> p = q"
  using assms by (auto simp: has_suffix_def)

lemma has_suffix_prepend: "has_suffix s p \<Longrightarrow> has_suffix (t @ s) p"
  by (auto simp: has_suffix_def)

lemma suffix_tmp: "has_suffix (s @ ''.tmp'') ''.tmp''" "\<not> has_suffix (s @ ''.json'') ''.tmp''"
  using has_suffix_same_length [of "''json''" "''.tmp''" "s @ ''.''"] by simp_all

lemma batch_base_suffix: "has_suffix (batch_base n b) ''.json''" "\<not> has_suffix (batch_base n b) ''.tmp''"
  unfolding batch_base_def using suffix_tmp(2) [of "pad20 n @ ''-'' @ b_ID b"]
    has_suffix_append [of "pad20 n @ ''-'' @ b_ID b" "''.json''"] by simp_all

lemma batch_base_paths:
  assumes "clean_abs (st_dir st)" and "validUUID (b_ID b)"
  shows "path_base (path_join (st_dir st) (batch_base n b)) = batch_base n b"
    and "path_base (path_join (st_dir st) (batch_base n b) @ ''.tmp'') = batch_base n b @ ''.tmp''"
proof -
  note P = batch_base_plain [OF assms(2), of n]
  have j: "path_join (st_dir st) (batch_base n b) = st_dir st @ ''/'' @ batch_base n b"
    using assms(1) P(1) by (rule path_join_name)
  show "path_base (path_join (st_dir st) (batch_base n b)) = batch_base n b"
    unfolding j by (rule path_base_entry [OF P(1)])
  show "path_base (path_join (st_dir st) (batch_base n b) @ ''.tmp'') = batch_base n b @ ''.tmp''"
    unfolding j using path_base_entry [OF P(2), of "st_dir st"] by simp
qed

subsection \<open>Saving\<close>

text \<open>
  What the store relies on: the decoder reads a batch back from the line the encoder wrote, and
  leaves the line feed. Integer fields are within the range of their Go types.
\<close>

definition batch_typed :: "batch \<Rightarrow> bool" where
  "batch_typed b \<longleftrightarrow> int64_ok (b_NodeID b) \<and> int64_ok (b_CreatedAt b) \<and>
     list_all (\<lambda>e. int64_ok (e_UserID e)) (b_Entries b)"

definition lib_ok :: "batch_lib \<Rightarrow> bool" where
  "lib_ok lib \<longleftrightarrow>
     (\<forall>b s. batch_typed b \<longrightarrow> validate lib True b = None \<longrightarrow> lib_marshal lib b = Some s \<longrightarrow>
        lib_decode lib (s @ [CHR 0x0A]) = Some (b, [CHR 0x0A])) \<and>
     (\<forall>x. length (lib_sha256 lib x) = 32 \<and> (\<forall>y \<in> set (lib_sha256 lib x). y < 256))"

lemma WasPublished_simps [simp]:
  "WasPublished (Some (PublishedUnsynced e))" "\<not> WasPublished None"
  "\<not> WasPublished (Some WrongNode)" "\<not> WasPublished (Some MarshalFailed)"
  "\<not> WasPublished (Some CapacityExceeded)" "\<not> WasPublished (Some CreateBatch)"
  by (simp_all add: WasPublished_def)

lemma check_entries_unpublished: "\<not> WasPublished (check_entries k es)"
  by (induction k es rule: check_entries.induct) (auto simp: WasPublished_def)

lemma validate_unpublished: "\<not> WasPublished (validate lib chk b)"
  using check_entries_unpublished [of 0 "b_Entries b"]
  by (auto simp: validate_def hash_def WasPublished_def split: option.splits)

lemma size_loop_unpublished: "size_loop rd k es = Inl e \<Longrightarrow> \<not> WasPublished (Some e)"
  by (induction rd k es rule: size_loop.induct) (auto simp: WasPublished_def split: if_splits)

lemma Size_unpublished: "Size rd d = Inl e \<Longrightarrow> \<not> WasPublished (Some e)"
  using size_loop_unpublished by (auto simp: Size_def WasPublished_def split: if_splits)

lemma Save_cases:
  assumes "Save lib sv st b d = (err, ds)" and "clean_abs (st_dir st)"
  obtains (early) e where "ds = []" "err = Some e" "\<not> WasPublished err"
  | (attempt) json used where "validate lib True b = None" "b_NodeID b = st_nodeID st"
      "lib_marshal lib b = Some json" "Size (sv_reading sv) d = Inr used"
      "int (length (json @ [CHR 0x0A])) \<le> wrap64 (st_maxBytes st - used)"
      "publish sv (batch_base (sv_nanos sv) b) (batch_base (sv_nanos sv) b @ ''.tmp'')
         (json @ [CHR 0x0A]) d = (err, ds)"
proof (cases "b_NodeID b = st_nodeID st \<and> validate lib True b = None \<and> lib_marshal lib b \<noteq> None \<and>
    (\<exists>used. Size (sv_reading sv) d = Inr used \<and>
       int (length (the (lib_marshal lib b) @ [CHR 0x0A])) \<le> wrap64 (st_maxBytes st - used))")
  case True
  then have "validUUID (b_ID b)" by (simp add: validate_iff)
  note paths = batch_base_paths [OF assms(2) this, of "sv_nanos sv"]
  from True assms(1) attempt show thesis by (auto simp: Save_def Let_def paths)
next
  case False
  have "ds = [] \<and> err \<noteq> None \<and> \<not> WasPublished err"
    using False assms(1) validate_unpublished [of lib True b] Size_unpublished [of "sv_reading sv" d]
    by (auto simp: Save_def Let_def split: option.splits sum.splits if_splits) metis
  with early show thesis by auto
qed

text \<open>
  The three things a directory may show after an attempt to save: the batches of before, a refusal
  because of the incomplete file, or the batches of before with the new one.
\<close>

definition unchanged :: "batch_lib \<Rightarrow> reading \<Rightarrow> store \<Rightarrow> batch_file list \<Rightarrow> directory \<Rightarrow> bool" where
  "unchanged lib rd st bfs d \<longleftrightarrow> List lib rd st d = Inr bfs"

definition refused :: "batch_lib \<Rightarrow> reading \<Rightarrow> store \<Rightarrow> string \<Rightarrow> directory \<Rightarrow> bool" where
  "refused lib rd st name d \<longleftrightarrow> List lib rd st d = Inl (IncompleteFile (name @ ''.tmp''))"

definition added :: "batch_lib \<Rightarrow> reading \<Rightarrow> store \<Rightarrow> string \<Rightarrow> batch \<Rightarrow> batch_file list \<Rightarrow> directory \<Rightarrow> bool" where
  "added lib rd st name b bfs d \<longleftrightarrow>
     (\<exists>bfs'. List lib rd st d = Inr bfs' \<and>
        mset bfs' = add_mset \<lparr>bf_Path = st_dir st @ ''/'' @ name, bf_Batch = b\<rparr> (mset bfs) \<and>
        sorted (map (\<lambda>bf. path_base (bf_Path bf)) bfs'))"

lemma batch_at_upd: "batch_at lib st (fmupd n f d) m = (if m = n then batch_at lib st (fmupd n f fmempty) n else batch_at lib st d m)"
  by (simp add: batch_at_def)

lemma list_loop_Inl: "list_loop lib rd st es = Inl e \<Longrightarrow> \<exists>(n, f) \<in> set es. list_entry lib rd st n f = Inl e"
  by (induction lib rd st es rule: list_loop.induct) (auto split: sum.splits)

lemma read_dir_mem: "(n, f) \<in> set (read_dir d) \<longleftrightarrow> fmlookup d n = Some f"
proof -
  have "set (read_dir d) = (\<lambda>n. (n, the (fmlookup d n))) ` fmdom' d"
    unfolding read_dir_def names_def [symmetric] by simp
  then show ?thesis by (force simp: fmlookup_dom'_iff)
qed

lemma refused_temp:
  assumes "clean_abs (st_dir st)" and "names_ok d" and "reads_ok rd" and "sound lib st d"
    and "has_temp (name @ ''.tmp'') d d'"
  shows "refused lib rd st name d'"
proof -
  let ?t = "name @ ''.tmp''"
  obtain f where d': "d' = fmupd ?t f d" using assms(5) by (auto simp: has_temp_def)
  have rd: "rd_dir rd" using assms(3) by (simp add: reads_ok_def)
  have "batch_at lib st d' ?t = None" by (simp add: batch_at_def d' suffix_tmp)
  then have "\<not> sound lib st d'" by (auto simp: sound_def d')
  then have "list_loop lib rd st (read_dir d') \<noteq> Inr x" for x
    using list_loop_read_dir [OF assms(3), of lib st d' x] by simp
  then obtain e where e: "list_loop lib rd st (read_dir d') = Inl e"
    by (cases "list_loop lib rd st (read_dir d')") auto
  then obtain n g where ng: "(n, g) \<in> set (read_dir d')" "list_entry lib rd st n g = Inl e"
    using list_loop_Inl by fast
  then have lk: "fmlookup d' n = Some g" by (simp add: read_dir_mem)
  have "n = ?t"
  proof (rule ccontr)
    assume n: "n \<noteq> ?t"
    with lk have lk': "fmlookup d n = Some g" by (simp add: d')
    then have "n \<in> fmdom' d" by (rule fmdom'I)
    with assms(4) obtain b where "batch_at lib st d n = Some b" by (auto simp: sound_def)
    with list_entry_at [OF assms(3) lk', of lib st "\<lparr>bf_Path = path_join (st_dir st) n, bf_Batch = b\<rparr>"] ng(2)
    show False by simp
  qed
  with ng(2) have "e = IncompleteFile ?t" by (simp add: list_entry_def suffix_tmp)
  with e rd show ?thesis by (simp add: refused_def List_def)
qed

lemma added_final:
  assumes "clean_abs (st_dir st)" and "names_ok d" and "reads_ok rd" and "sound lib st d"
    and "lib_ok lib" and "batch_typed b" and "validate lib True b = None" and "b_NodeID b = st_nodeID st"
    and "lib_marshal lib b = Some json" and "fmlookup d (batch_base t b) = None"
  shows "added lib rd st (batch_base t b) b (listing lib st d)
    (fmupd (batch_base t b) (Regular (json @ [CHR 0x0A]) m) d)"
proof -
  let ?n = "batch_base t b" and ?d' = "fmupd (batch_base t b) (Regular (json @ [CHR 0x0A]) m) d"
  have plain: "plain_name ?n" using assms(7) by (intro batch_base_plain) (simp add: validate_iff)
  have dec: "lib_decode lib (json @ [CHR 0x0A]) = Some (b, [CHR 0x0A])"
    using assms(5-7,9) by (simp add: lib_ok_def)
  have at: "batch_at lib st ?d' x = (if x = ?n then Some b else batch_at lib st d x)" for x
    using assms(7,8) batch_base_suffix [of t b]
    by (simp add: batch_at_def dec json_blank_def)
  have names': "names_ok ?d'" using assms(2) plain by (simp add: names_ok_def)
  have "sound lib st ?d'" using assms(4) at by (auto simp: sound_def)
  then have L: "List lib rd st ?d' = Inr (listing lib st ?d')"
    using List_iff [OF assms(1) names' assms(3)] by simp
  have fresh: "?n |\<notin>| fmdom d" using assms(10) by (simp add: fmlookup_dom_iff)
  have "mset (listing lib st ?d') = add_mset \<lparr>bf_Path = path_join (st_dir st) ?n, bf_Batch = b\<rparr>
      (mset (listing lib st d))"
  proof -
    have "image_mset (\<lambda>n. \<lparr>bf_Path = path_join (st_dir st) n, bf_Batch = the (batch_at lib st ?d' n)\<rparr>)
        (mset (names d)) = image_mset (\<lambda>n. \<lparr>bf_Path = path_join (st_dir st) n,
          bf_Batch = the (batch_at lib st d n)\<rparr>) (mset (names d))"
      using fresh by (intro image_mset_cong) (auto simp: at fmdom'_alt_def)
    then show ?thesis by (simp add: listing_def names_upd [OF fresh] at)
  qed
  moreover have "sorted (map (\<lambda>bf. path_base (bf_Path bf)) (listing lib st ?d'))"
    using base_listing [OF assms(1) names'] by simp
  ultimately show ?thesis using L path_join_name [OF assms(1) plain] by (auto simp: added_def)
qed

subsection \<open>A library that keeps the contract\<close>

text \<open>A line of comma separated fields, with a constant digest.\<close>

definition write_entry :: "entry \<Rightarrow> string list" where
  "write_entry e = [itoa (e_UserID e), itoa (e_Uplink e), itoa (e_Downlink e)]"

fun read_entries :: "string list \<Rightarrow> entry list" where
  "read_entries (a # b # c # rest) =
     \<lparr>e_UserID = the (parse_int64 a), e_Uplink = the (parse_int64 b), e_Downlink = the (parse_int64 c)\<rparr>
       # read_entries rest"
| "read_entries _ = []"

definition write_batch :: "batch \<Rightarrow> rat \<Rightarrow> string list" where
  "write_batch b q = [b_ID b, itoa (b_NodeID b), show_base 10 (unat (b_ConfigurationVersion b)),
     itoa (b_CreatedAt b), show_base 10 (nat (fst (quotient_of q))),
     show_base 10 (nat (snd (quotient_of q))), b_PayloadSHA256 b] @ concat (map write_entry (b_Entries b))"

definition read_batch :: "string list \<Rightarrow> batch option" where
  "read_batch ps = (case ps of
     i # n # v # t # x # y # h # es \<Rightarrow>
       Some \<lparr>b_Version = 1, b_ID = i, b_NodeID = the (parse_int64 n),
         b_ConfigurationVersion = of_nat (read_base 10 v), b_CreatedAt = the (parse_int64 t),
         b_TrafficRate = Fin (of_nat (read_base 10 x) / of_nat (read_base 10 y)),
         b_Entries = read_entries es, b_PayloadSHA256 = h\<rparr>
   | _ \<Rightarrow> None)"

definition line_lib :: batch_lib where
  "line_lib = \<lparr>
     lib_marshal = (\<lambda>b. case b_TrafficRate b of
       Fin q \<Rightarrow> Some (join_with [CHR '',''] (write_batch b q)) | _ \<Rightarrow> None),
     lib_decode = (\<lambda>s. map_option (\<lambda>b. (b, dropWhile (\<lambda>c. c \<noteq> CHR 0x0A) s))
       (read_batch (split_on CHR '','' (takeWhile (\<lambda>c. c \<noteq> CHR 0x0A) s)))),
     lib_sha256 = (\<lambda>_. replicate 32 0)\<rparr>"

definition field_text :: "string \<Rightarrow> bool" where
  "field_text s \<longleftrightarrow> CHR '','' \<notin> set s \<and> CHR 0x0A \<notin> set s"

lemma hex_dash_field: "\<forall>c \<in> set s. is_hex c \<or> c = CHR ''-'' \<Longrightarrow> field_text s"
  by (auto simp: field_text_def is_hex_def is_digit_def)

lemma itoa_field: "field_text (itoa n)"
  by (rule hex_dash_field) (auto simp: itoa_def dest!: show_10_digits is_digit_is_hex split: if_splits)

lemma show_field: "field_text (show_base 10 n)"
  by (rule hex_dash_field) (auto dest!: show_10_digits is_digit_is_hex)

lemma read_write_entries:
  "list_all (\<lambda>e. int64_ok (e_UserID e) \<and> entry_ok e) es \<Longrightarrow> read_entries (concat (map write_entry es)) = es"
proof (induction es)
  case (Cons e es)
  then have "int64_ok (e_Uplink e)" "int64_ok (e_Downlink e)" by (auto simp: entry_ok_def)
  with Cons show ?case by (simp add: write_entry_def parse_int64_itoa)
qed simp

lemma join_with_chars: "c \<in> set (join_with sep ps) \<Longrightarrow> c \<in> set sep \<or> (\<exists>p \<in> set ps. c \<in> set p)"
  by (induction sep ps rule: join_with.induct) auto

lemma write_batch_fields:
  assumes "validate line_lib True b = None" and "b_TrafficRate b = Fin q"
  shows "\<forall>p \<in> set (write_batch b q). field_text p"
proof -
  have "validUUID (b_ID b)" using assms(1) by (simp add: validate_iff)
  then have "field_text (b_ID b)" using validUUID_chars by (intro hex_dash_field) blast
  moreover have "b_PayloadSHA256 b = hex_encode (replicate 32 0)"
    using assms by (simp add: validate_iff hash_def line_lib_def)
  then have "field_text (b_PayloadSHA256 b)"
    using hex_encode_chars [of "replicate 32 0"] by (intro hex_dash_field) auto
  ultimately show ?thesis by (auto simp: write_batch_def write_entry_def itoa_field show_field)
qed

lemma line_lib_decode:
  assumes "batch_typed b" and "validate line_lib True b = None" and "lib_marshal line_lib b = Some s"
  shows "lib_decode line_lib (s @ [CHR 0x0A]) = Some (b, [CHR 0x0A])"
proof -
  note v = assms(2) [unfolded validate_iff meta_ok_def bad_rate_iff]
  then obtain q where q: "b_TrafficRate b = Fin q" "0 < q" by auto
  with assms(3) have s: "s = join_with [CHR '',''] (write_batch b q)" by (simp add: line_lib_def)
  note fields = write_batch_fields [OF assms(2) q(1)]
  have "CHR 0x0A \<notin> set s" using fields by (auto simp: s field_text_def dest: join_with_chars)
  then have tw: "takeWhile (\<lambda>c. c \<noteq> CHR 0x0A) (s @ [CHR 0x0A]) = s"
      "dropWhile (\<lambda>c. c \<noteq> CHR 0x0A) (s @ [CHR 0x0A]) = [CHR 0x0A]"
    by (auto intro!: takeWhile_all_stop dropWhile_all_stop)
  have "split_on CHR '','' s = write_batch b q"
    unfolding s using fields by (intro split_join) (auto simp: write_batch_def field_text_def)
  moreover have "read_batch (write_batch b q) = Some b"
  proof -
    obtain x y where xy: "quotient_of q = (x, y)" by fastforce
    then have "q = of_int x / of_int y" and "0 < y" by (simp_all add: quotient_of_div quotient_of_denom_pos)
    then have "0 < x" using q(2) by (simp add: zero_less_divide_iff)
    then have "Fin (of_nat (nat x) / of_nat (nat y)) = b_TrafficRate b"
      using q(1) \<open>q = _\<close> \<open>0 < y\<close> by (simp add: of_nat_nat)
    moreover have "read_entries (concat (map write_entry (b_Entries b))) = b_Entries b"
      using v assms(1) by (intro read_write_entries) (auto simp: batch_typed_def entries_valid_def list_all_iff)
    ultimately show ?thesis
      using v assms(1)
      by (simp add: read_batch_def write_batch_def xy batch_typed_def parse_int64_itoa SchemaVersion_def)
  qed
  ultimately show ?thesis using tw by (simp add: line_lib_def)
qed

lemma line_lib_ok: "lib_ok line_lib"
proof -
  have "\<forall>x. length (lib_sha256 line_lib x) = 32 \<and> (\<forall>y \<in> set (lib_sha256 line_lib x). y < 256)" by (simp add: line_lib_def)
  with line_lib_decode show ?thesis unfolding lib_ok_def by blast
qed

subsection \<open>Size and order\<close>

definition disk_use :: "directory \<Rightarrow> int" where
  "disk_use d = sum_list (map (\<lambda>n. file_size (the (fmlookup d n))) (names d))"

lemma size_loop_Inr: "size_loop rd k es = Inr u \<Longrightarrow> u = k + sum_list (map (file_size \<circ> snd) es)"
  by (induction rd k es rule: size_loop.induct) (auto split: if_splits)

lemma Size_use: "Size rd d = Inr u \<Longrightarrow> u = disk_use d"
  by (auto simp: Size_def disk_use_def read_dir_def names_def comp_def split: if_splits
      dest!: size_loop_Inr)

lemma size_loop_le: "size_loop rd k es = Inr u \<Longrightarrow> k \<le> MaxInt64 \<Longrightarrow> u \<le> MaxInt64"
  by (induction rd k es rule: size_loop.induct) (auto split: if_splits)

lemma Size_le: "Size rd d = Inr u \<Longrightarrow> u \<le> MaxInt64"
  by (auto simp: Size_def MaxInt64_def dest: size_loop_le split: if_splits)

lemma map_remove1_inj:
  "\<forall>y \<in> set xs. f y = f x \<longrightarrow> y = x \<Longrightarrow> map f (remove1 x xs) = remove1 (f x) (map f xs)"
  by (induction xs) auto

lemma size_loop_enough:
  assumes "reads_ok rd" and "\<forall>f \<in> set (map snd es). 0 \<le> file_size f"
    and "k + sum_list (map (file_size \<circ> snd) es) \<le> MaxInt64"
  shows "size_loop rd k es = Inr (k + sum_list (map (file_size \<circ> snd) es))"
  using assms
proof (induction rd k es rule: size_loop.induct)
  case (2 rd k n f es)
  then have "0 \<le> sum_list (map (file_size \<circ> snd) es)" by (intro sum_list_nonneg) auto
  moreover from this 2(4) have "file_size f \<le> MaxInt64 - k" by (simp add: comp_def)
  moreover have "rd_stat rd n" using 2(2) by (simp add: reads_ok_def)
  ultimately show ?case using 2 by (simp add: not_less)
qed simp

lemma sound_regular: "sound lib st d \<Longrightarrow> fmlookup d n = Some f \<Longrightarrow> is_regular f"
  by (auto simp: sound_def batch_at_def dest!: bspec [OF _ fmdom'I] split: if_splits)

lemma file_size_regular: "is_regular f \<Longrightarrow> 0 \<le> file_size f"
  by (cases f) auto

lemma Size_sound:
  assumes "reads_ok rd" and "sound lib st d" and "disk_use d \<le> MaxInt64"
  shows "Size rd d = Inr (disk_use d)"
proof -
  have "\<forall>f \<in> set (map snd (read_dir d)). 0 \<le> file_size f"
    using sound_regular [OF assms(2)] by (auto simp: read_dir_mem file_size_regular)
  moreover have "sum_list (map (file_size \<circ> snd) (read_dir d)) = disk_use d"
    by (simp add: disk_use_def read_dir_def names_def comp_def)
  ultimately show ?thesis
    using size_loop_enough [OF assms(1), of "read_dir d" 0] assms by (simp add: Size_def reads_ok_def)
qed

lemma disk_use_upd:
  assumes "fmlookup d n = None"
  shows "disk_use (fmupd n f d) = file_size f + disk_use d"
proof -
  have fresh: "n |\<notin>| fmdom d" using assms by (simp add: fmlookup_dom_iff)
  have use: "disk_use e = sum_mset (image_mset (\<lambda>n. file_size (the (fmlookup e n))) (mset (names e)))" for e
    by (simp add: disk_use_def sum_mset_sum_list flip: mset_map)
  have "image_mset (\<lambda>x. file_size (the (fmlookup (fmupd n f d) x))) (mset (names d))
      = image_mset (\<lambda>x. file_size (the (fmlookup d x))) (mset (names d))"
    using fresh by (intro image_mset_cong) (auto simp: fmdom'_alt_def)
  then show ?thesis unfolding use names_upd [OF fresh] by simp
qed

lemma disk_use_nonneg: "sound lib st d \<Longrightarrow> 0 \<le> disk_use d"
  unfolding disk_use_def
  by (rule sum_list_nonneg) (auto simp: fmlookup_dom'_iff, metis sound_regular file_size_regular)

text \<open>Padded numbers sort like the numbers.\<close>

lemma to_base_lex:
  assumes "n < m" and "1 < B" and "B \<le> 10" and "m < B ^ k"
  shows "map digit_char (to_base B k n) < map digit_char (to_base B k m)"
  using assms(1,4)
proof (induction k arbitrary: n m)
  case (Suc k)
  let ?f = "\<lambda>n. map digit_char (to_base B k n)"
  show ?case
  proof (cases "n div B < m div B")
    case True
    moreover have "m div B < B ^ k" using Suc.prems(2) by (simp add: less_mult_imp_div_less mult.commute)
    ultimately have "?f (n div B) < ?f (m div B)" by (rule Suc.IH)
    then show ?thesis by (auto simp: list_less_def intro!: lexord_sufI)
  next
    case False
    moreover have "n div B \<le> m div B" using Suc.prems(1) by (simp add: div_le_mono)
    ultimately have eq: "n div B = m div B" by simp
    then have "n mod B < m mod B" using Suc.prems(1) by (metis add_less_cancel_left div_mult_mod_eq)
    moreover have "m mod B < 10" using assms(2,3) by (meson less_le_trans mod_less_divisor less_trans zero_less_one)
    ultimately have "digit_char (n mod B) < digit_char (m mod B)"
      by (simp add: less_char_def of_char_digit_char)
    then show ?thesis by (auto simp: eq list_less_def intro!: lexord_append_leftI)
  qed
qed simp

lemma batch_base_less:
  assumes "0 \<le> t" and "t < u" and "int64_ok u"
  shows "batch_base t b < batch_base u c"
proof -
  have "u < 10 ^ 20" using assms(3) by (simp add: int64_defs)
  then have "nat u < 10 ^ 20" and p: "pad20 t = map digit_char (to_base 10 20 (nat t))"
      "pad20 u = map digit_char (to_base 10 20 (nat u))"
    using assms by (simp_all add: nat_less_iff pad20_to_base)
  then have "pad20 t < pad20 u" unfolding p using assms by (intro to_base_lex) simp_all
  then show ?thesis unfolding batch_base_def list_less_def p by (intro lexord_sufI) simp_all
qed

lemma names_append:
  assumes "\<forall>m \<in> fmdom' d. m < n"
  shows "names (fmupd n f d) = names d @ [n]"
proof -
  have "n \<notin> fset (fmdom d)" using assms by (auto simp: fmdom'_alt_def)
  then have "names (fmupd n f d) = insort n (names d)"
    by (simp add: names_def sorted_list_of_fset.rep_eq)
  also have "\<dots> = names d @ [n]" using assms by (intro sorted_insort_is_snoc) auto
  finally show ?thesis .
qed

subsection \<open>Samples\<close>

definition sample_batch :: batch where
  "sample_batch = \<lparr>b_Version = 1, b_ID = ''00000000-0000-4000-8000-000000000000'', b_NodeID = 7,
     b_ConfigurationVersion = 1, b_CreatedAt = 5, b_TrafficRate = Fin 1,
     b_Entries = [\<lparr>e_UserID = 3, e_Uplink = 10, e_Downlink = 20\<rparr>], b_PayloadSHA256 = replicate 64 CHR ''0''\<rparr>"

definition all_reads :: reading where
  "all_reads = \<lparr>rd_dir = True, rd_stat = (\<lambda>_. True), rd_file = (\<lambda>_. True)\<rparr>"

definition sample_saving :: "bool \<Rightarrow> saving" where
  "sample_saving renamed = \<lparr>sv_reading = all_reads, sv_nanos = 9,
     sv_create = True, sv_written = length (the (lib_marshal line_lib sample_batch)) + 1, sv_write_ok = True,
     sv_sync = True, sv_close = True, sv_rename = renamed, sv_chmod = True, sv_syncdir = (True, False)\<rparr>"

definition sample_store :: store where
  "sample_store = \<lparr>st_dir = ''/s/outbox'', st_nodeID = 7, st_maxBytes = 1048576\<rparr>"

lemma sample_store_clean: "clean_abs (st_dir sample_store)"
  unfolding clean_abs_def by (rule exI [of _ "[''s'', ''outbox'']"]) (simp add: sample_store_def plain_name_def)

lemma all_reads_ok: "reads_ok all_reads"
  by (simp add: reads_ok_def all_reads_def)

lemma sample_batch_uuid: "validUUID (b_ID sample_batch)"
  by code_simp

lemma hex_encode_zeros: "hex_encode (replicate n 0) = replicate (2 * n) CHR ''0''"
  by (induction n) (simp_all add: hex_encode_def hex_byte_def digit_char_def)

lemma sample_batch_valid: "validate line_lib True sample_batch = None"
proof -
  have "validUUID (b_ID sample_batch)" by (rule sample_batch_uuid)
  moreover have "meta_ok sample_batch"
    by (simp add: meta_ok_def sample_batch_def SchemaVersion_def bad_rate_iff)
  moreover have "entries_valid (b_Entries sample_batch)"
    by (simp add: entries_valid_def sample_batch_def entry_ok_def MaxInt64_def)
  moreover have "hash line_lib sample_batch = Inr (b_PayloadSHA256 sample_batch)"
    using hex_encode_zeros [of 32] by (simp add: hash_def line_lib_def sample_batch_def)
  ultimately show ?thesis by (simp add: validate_iff)
qed

lemma sample_batch_typed: "batch_typed sample_batch"
  by (simp add: batch_typed_def sample_batch_def int64_defs)

lemma empty_outbox [simp]: "List lib all_reads st fmempty = Inr []" "names_ok fmempty" "Size all_reads fmempty = Inr 0"
  by (simp_all add: List_def all_reads_def read_dir_def names_ok_def Size_def sorted_list_of_fset.rep_eq)

lemma sample_json:
  obtains json where "lib_marshal line_lib sample_batch = Some json" and "length json < 1000"
proof -
  have "length (the (lib_marshal line_lib sample_batch)) < 1000" by code_simp
  moreover have "lib_marshal line_lib sample_batch \<noteq> None" by (simp add: line_lib_def sample_batch_def)
  ultimately show thesis using that by auto
qed

lemma sample_Save:
  "\<exists>json. lib_marshal line_lib sample_batch = Some json \<and>
     Save line_lib (sample_saving r) sample_store sample_batch fmempty
       = publish (sample_saving r) (batch_base 9 sample_batch) (batch_base 9 sample_batch @ ''.tmp'')
           (json @ [CHR 0x0A]) fmempty"
proof -
  obtain json where j: "lib_marshal line_lib sample_batch = Some json" "length json < 1000"
    by (rule sample_json)
  have "b_NodeID sample_batch = 7" by (simp add: sample_batch_def)
  then have "Save line_lib (sample_saving r) sample_store sample_batch fmempty
      = publish (sample_saving r) (batch_base 9 sample_batch) (batch_base 9 sample_batch @ ''.tmp'')
          (json @ [CHR 0x0A]) fmempty"
    using j sample_batch_valid batch_base_paths [OF sample_store_clean sample_batch_uuid, of 9]
    by (simp add: Save_def Let_def sample_store_def sample_saving_def wrap64_def)
  with j(1) show ?thesis by blast
qed

subsection \<open>Properties\<close>

text \<open>C30: A new batch is accepted exactly if its inputs are sound, and is then complete and valid.
  Given 16 random bytes and an encoder that fails only on a rate that is not finite, \<^verbatim>\<open>NewBatch\<close>
  succeeds if and only if node id, configuration version, time and rate are in range and the entries
  have distinct positive user ids and traffic that fits 64 bits; the batch holds exactly the given
  entries and passes the validation with its hash.\<close>

theorem new_batch_decided:
  assumes "\<forall>b. \<not> bad_rate (b_TrafficRate b) \<longrightarrow> lib_marshal lib b \<noteq> None"
    and "length rnd = 16" and "\<forall>x \<in> set rnd. x < 256"
  shows "((\<exists>b. NewBatch lib (Some rnd) n v r es now = Inr b) \<longleftrightarrow>
      0 < n \<and> v \<noteq> 0 \<and> 0 < now \<and> \<not> bad_rate r \<and> distinct (map e_UserID es) \<and>
      list_all (\<lambda>e. 0 < e_UserID e \<and> entry_ok e) es) \<and>
    (\<forall>b. NewBatch lib (Some rnd) n v r es now = Inr b \<longrightarrow>
       validate lib True b = None \<and> mset (b_Entries b) = mset es \<and> b_NodeID b = n \<and>
       b_ConfigurationVersion b = v \<and> b_TrafficRate b = r \<and> b_CreatedAt b = now)"
proof -
  let ?u = "format_uuid (set_version_variant 0x40 rnd)"
  define b0 where "b0 = \<lparr>b_Version = SchemaVersion, b_ID = ?u, b_NodeID = n,
    b_ConfigurationVersion = v, b_CreatedAt = now, b_TrafficRate = r,
    b_Entries = sort_key e_UserID es, b_PayloadSHA256 = []\<rparr>"
  have uuid: "validUUID ?u" using newUUID_valid [of rnd] assms(2,3) by (simp add: newUUID_def)
  have N: "NewBatch lib (Some rnd) n v r es now = (case validate lib False b0 of
      Some e \<Rightarrow> Inl e | None \<Rightarrow> (case hash lib b0 of Inl e \<Rightarrow> Inl e | Inr h \<Rightarrow> Inr (b0\<lparr>b_PayloadSHA256 := h\<rparr>)))"
    unfolding NewBatch_def newUUID_def b0_def Let_def by simp
  have "sorted_wrt (<) (map e_UserID (sort_key e_UserID es)) \<longleftrightarrow> distinct (map e_UserID es)"
    by (metis mset_eq_imp_distinct_iff mset_map mset_sort sorted_sort_key strict_sorted_iff)
  then have V: "validate lib False b0 = None \<longleftrightarrow> 0 < n \<and> v \<noteq> 0 \<and> 0 < now \<and> \<not> bad_rate r \<and>
      distinct (map e_UserID es) \<and> list_all (\<lambda>e. 0 < e_UserID e \<and> entry_ok e) es"
    using uuid by (auto simp: validate_iff meta_ok_def b0_def entries_valid_def list_all_iff)
  have H: "\<exists>h. hash lib b0 = Inr h" if "validate lib False b0 = None"
  proof -
    have "\<not> bad_rate (b_TrafficRate (b0\<lparr>b_PayloadSHA256 := []\<rparr>))" using that V by (simp add: b0_def)
    with assms(1) show ?thesis by (auto simp: hash_def split: option.splits)
  qed
  show ?thesis
  proof (cases "validate lib False b0")
    case None
    then obtain h where h: "hash lib b0 = Inr h" using H by blast
    have "validate lib True (b0\<lparr>b_PayloadSHA256 := h\<rparr>) = None"
      using None h by (auto simp: validate_iff meta_ok_def)
    then show ?thesis using None h V by (simp add: N) (simp add: b0_def)
  next
    case (Some e)
    then show ?thesis using V by (simp add: N)
  qed
qed

theorem new_batch_decided_witness:
  "\<exists>b. NewBatch line_lib (Some (replicate 16 0)) 7 1 (Fin 1)
         [\<lparr>e_UserID = 5, e_Uplink = 1, e_Downlink = 0\<rparr>, \<lparr>e_UserID = 3, e_Uplink = 0, e_Downlink = 2\<rparr>] 9 = Inr b \<and>
       validate line_lib True b = None"
proof -
  have "\<forall>b. \<not> bad_rate (b_TrafficRate b) \<longrightarrow> lib_marshal line_lib b \<noteq> None"
    by (auto simp: line_lib_def bad_rate_iff)
  from new_batch_decided [OF this, of "replicate 16 0" 7 1 "Fin 1"
      "[\<lparr>e_UserID = 5, e_Uplink = 1, e_Downlink = 0\<rparr>, \<lparr>e_UserID = 3, e_Uplink = 0, e_Downlink = 2\<rparr>]" 9]
  show ?thesis by (auto simp: entry_ok_def MaxInt64_def bad_rate_iff)
qed

text \<open>The total of a valid batch is exact or refused. \<^verbatim>\<open>RawTotal\<close> returns the mathematical sum
  of all uplink and downlink counters when it fits an \<^verbatim>\<open>int64\<close>, and the overflow error when it does
  not; no intermediate result wraps around.\<close>

theorem raw_total_exact:
  assumes "validate lib chk b = None"
  shows "RawTotal b =
    (let s = sum_list (map (\<lambda>e. e_Uplink e + e_Downlink e) (b_Entries b))
     in if s \<le> MaxInt64 then Inr s else Inl TotalOverflow)"
proof -
  have "raw_total_loop k es = (let s = k + sum_list (map (\<lambda>e. e_Uplink e + e_Downlink e) es)
      in if s \<le> MaxInt64 then Inr s else Inl TotalOverflow)"
    if "list_all entry_ok es" "0 \<le> k" "k \<le> MaxInt64" for k es
    using that
  proof (induction es arbitrary: k)
    case (Cons e es)
    then have e: "0 \<le> e_Uplink e" "0 \<le> e_Downlink e" "e_Uplink e + e_Downlink e \<le> MaxInt64"
      by (auto simp: entry_ok_def)
    have w: "wrap64 x = x" if "0 \<le> x" "x \<le> MaxInt64" for x using that by (intro wrap64_id int64_okI)
    have nn: "0 \<le> sum_list (map (\<lambda>e. e_Uplink e + e_Downlink e) es)"
      using Cons.prems(1) by (intro sum_list_nonneg) (auto simp: list_all_iff entry_ok_def)
    show ?case
    proof (cases "k + (e_Uplink e + e_Downlink e) \<le> MaxInt64")
      case True
      then show ?thesis using Cons e by (simp add: w Let_def algebra_simps)
    next
      case False
      then show ?thesis using e nn by (simp add: w Let_def algebra_simps)
    qed
  qed simp
  from this [of "b_Entries b" 0] assms show ?thesis
    by (simp add: RawTotal_def validate_iff entries_valid_def list_all_iff MaxInt64_def)
qed

theorem raw_total_exact_witness: "RawTotal sample_batch = Inr 30"
  using raw_total_exact [OF sample_batch_valid] by (simp add: sample_batch_def MaxInt64_def)

text \<open>C12: A crash during \<^verbatim>\<open>Save\<close> never shows a partial batch. At every point of \<^verbatim>\<open>Save\<close> where the
  process may stop, and whatever system call fails, a later \<^verbatim>\<open>List\<close> shows the batches of before,
  refuses the outbox because of the incomplete file, or shows the batches of before together with
  exactly the new one.\<close>

theorem save_crash_safe:
  assumes "clean_abs (st_dir st)" and "names_ok d" and "reads_ok rd" and "lib_ok lib"
    and "batch_typed b" and "List lib rd st d = Inr bfs" and "Save lib sv st b d = (err, ds)"
    and "fmlookup d (batch_base (sv_nanos sv) b) = None" and "d' \<in> set (d # ds)"
  shows "unchanged lib rd st bfs d' \<or> refused lib rd st (batch_base (sv_nanos sv) b) d' \<or>
    added lib rd st (batch_base (sv_nanos sv) b) b bfs d'"
proof -
  have S: "sound lib st d" "bfs = listing lib st d" using List_iff [OF assms(1-3)] assms(6) by auto
  note T = refused_temp [OF assms(1-3) S(1)]
  from assms(7,1) show ?thesis
  proof (cases rule: Save_cases)
    case early
    with assms(6,9) show ?thesis by (simp add: unchanged_def)
  next
    case (attempt json used)
    note A = added_final [OF assms(1-3) S(1) assms(4,5) attempt(1-3) assms(8)]
    from attempt(6) show ?thesis
    proof (cases rule: publish_cases)
      case refused
      with assms(6,9) show ?thesis by (simp add: unchanged_def)
    next
      case kept
      with assms(6,9) T show ?thesis by (auto simp: unchanged_def)
    next
      case (published d1 d2)
      with assms(6,9) T A S(2) show ?thesis by (auto simp: unchanged_def)
    qed
  qed
qed

theorem save_crash_safe_witness:
  "refused line_lib all_reads sample_store (batch_base 9 sample_batch)
     (fmupd (batch_base 9 sample_batch @ ''.tmp'') (Regular [] 0x180) fmempty)"
proof -
  let ?s = "Save line_lib (sample_saving True) sample_store sample_batch fmempty"
  let ?d = "fmupd (batch_base 9 sample_batch @ ''.tmp'') (Regular [] 0x180) fmempty"
  have n: "sv_nanos (sample_saving True) = 9" by (simp add: sample_saving_def)
  have d: "?d \<in> set (fmempty # snd ?s)"
    using sample_Save [of True] by (auto simp: publish_def Let_def sample_saving_def split: option.splits)
  have "batch_at line_lib sample_store ?d (batch_base 9 sample_batch @ ''.tmp'') = None"
    by (simp add: batch_at_def suffix_tmp)
  then have no: "\<not> sound line_lib sample_store ?d" by (simp add: sound_def)
  have nm: "names_ok ?d" using batch_base_plain(2) [OF sample_batch_uuid] by (simp add: names_ok_def)
  have "List line_lib all_reads sample_store ?d \<noteq> Inr x" for x
    using List_iff [OF sample_store_clean nm all_reads_ok] no by blast
  then show ?thesis
    using save_crash_safe [OF sample_store_clean _ all_reads_ok line_lib_ok sample_batch_typed
        empty_outbox(1) prod.collapse [symmetric, of ?s] _ d] n
    by (auto simp: unchanged_def added_def)
qed

text \<open>C20: The result of \<^verbatim>\<open>Save\<close> tells the truth. Exactly when it reports success or
  \<^verbatim>\<open>WasPublished\<close>, the batch can be listed afterwards, unchanged and beside the earlier ones, and the
  files together respect the byte limit of the store; otherwise the batch is not listed.\<close>

theorem save_result_truthful:
  assumes "clean_abs (st_dir st)" and "names_ok d" and "reads_ok rd" and "lib_ok lib"
    and "batch_typed b" and "List lib rd st d = Inr bfs" and "Save lib sv st b d = (err, ds)"
    and "fmlookup d (batch_base (sv_nanos sv) b) = None"
    and "0 \<le> st_maxBytes st" and "st_maxBytes st \<le> MaxInt64"
  shows "(err = None \<or> WasPublished err) =
      added lib rd st (batch_base (sv_nanos sv) b) b bfs (saved_dir d (err, ds)) \<and>
    (err = None \<or> WasPublished err \<longrightarrow>
      (\<exists>u. Size rd (saved_dir d (err, ds)) = Inr u \<and> u \<le> st_maxBytes st))"
proof -
  let ?n = "batch_base (sv_nanos sv) b" and ?d' = "saved_dir d (err, ds)"
  have S: "sound lib st d" "bfs = listing lib st d" using List_iff [OF assms(1-3)] assms(6) by auto
  have notadd: "\<not> added lib rd st n b bfs d" for n
    using assms(6) by (auto simp: added_def)
  from assms(7,1) show ?thesis
  proof (cases rule: Save_cases)
    case early
    with notadd show ?thesis by (simp add: saved_dir_def)
  next
    case (attempt json used)
    note A = added_final [OF assms(1-3) S(1) assms(4,5) attempt(1-3) assms(8)]
    from attempt(6) show ?thesis
    proof (cases rule: publish_cases)
      case refused
      with notadd show ?thesis by (simp add: saved_dir_def)
    next
      case kept
      then have "refused lib rd st ?n ?d'"
        using refused_temp [OF assms(1-3) S(1)] by (simp add: saved_dir_def)
      then have "\<not> added lib rd st ?n b bfs ?d'" by (simp add: refused_def added_def)
      with kept show ?thesis by (auto simp: WasPublished_def)
    next
      case (published d1 d2)
      then have d': "?d' = fmupd ?n (Regular (json @ [CHR 0x0A]) 0x180) d" by (simp add: saved_dir_def)
      have add: "added lib rd st ?n b bfs ?d'" using A S(2) d' by simp
      have "sound lib st ?d'"
      proof -
        have "names_ok ?d'"
          using assms(2) batch_base_plain [of b] attempt(1) by (simp add: d' names_ok_def validate_iff)
        with add show ?thesis using List_iff [OF assms(1) _ assms(3)] by (auto simp: added_def)
      qed
      moreover have le: "disk_use ?d' \<le> st_maxBytes st"
      proof -
        have u: "used = disk_use d" "used \<le> MaxInt64" "0 \<le> disk_use d"
          using attempt(4) S(1) by (auto dest: Size_use Size_le disk_use_nonneg)
        then have "int64_ok (st_maxBytes st - used)" using assms(9,10) by (simp add: int64_defs)
        then have "wrap64 (st_maxBytes st - used) = st_maxBytes st - disk_use d" using u(1) by (simp add: wrap64_id)
        with attempt(5) show ?thesis using assms(8) by (simp add: d' disk_use_upd)
      qed
      ultimately have "Size rd ?d' = Inr (disk_use ?d')"
        using assms(10) by (intro Size_sound [OF assms(3)]) auto
      with add published le show ?thesis by blast
    qed
  qed
qed

theorem save_result_truthful_witness:
  "WasPublished (fst (Save line_lib (sample_saving True) sample_store sample_batch fmempty)) \<and>
   added line_lib all_reads sample_store (batch_base 9 sample_batch) sample_batch []
     (saved_dir fmempty (Save line_lib (sample_saving True) sample_store sample_batch fmempty))"
proof -
  let ?s = "Save line_lib (sample_saving True) sample_store sample_batch fmempty"
  have w: "WasPublished (fst ?s)"
    using sample_Save [of True] by (auto simp: publish_def Let_def sample_saving_def syncDir_def)
  have n: "sv_nanos (sample_saving True) = 9" by (simp add: sample_saving_def)
  have m: "0 \<le> st_maxBytes sample_store" "st_maxBytes sample_store \<le> MaxInt64"
    by (simp_all add: sample_store_def MaxInt64_def)
  show ?thesis
    using save_result_truthful [OF sample_store_clean _ all_reads_ok line_lib_ok sample_batch_typed
        empty_outbox(1) prod.collapse [symmetric, of ?s] _ m] w n by simp
qed

text \<open>Batches are listed in the order of their creation. When every earlier file was published at
  an earlier time, a published batch is the last one of the listing, after the unchanged earlier
  ones: the zero padded time stamps sort like the times.\<close>

lemma save_appends:
  assumes "clean_abs (st_dir st)" and "names_ok d" and "reads_ok rd" and "lib_ok lib"
    and "batch_typed b" and "List lib rd st d = Inr bfs" and "Save lib sv st b d = (err, ds)"
    and "\<forall>n \<in> fmdom' d. \<exists>t c. n = batch_base t c \<and> 0 \<le> t \<and> t < sv_nanos sv"
    and "int64_ok (sv_nanos sv)" and "err = None \<or> WasPublished err"
  shows "List lib rd st (saved_dir d (err, ds)) =
    Inr (bfs @ [\<lparr>bf_Path = st_dir st @ ''/'' @ batch_base (sv_nanos sv) b, bf_Batch = b\<rparr>])"
proof -
  let ?n = "batch_base (sv_nanos sv) b" and ?d' = "saved_dir d (err, ds)"
  have S: "sound lib st d" "bfs = listing lib st d" using List_iff [OF assms(1-3)] assms(6) by auto
  have less: "\<forall>m \<in> fmdom' d. m < ?n" using assms(8,9) by (metis batch_base_less)
  then have fresh: "fmlookup d ?n = None" by (metis fmdom'_notD less_irrefl)
  from assms(7,1) show ?thesis
  proof (cases rule: Save_cases)
    case early
    with assms(10) show ?thesis by simp
  next
    case (attempt json used)
    have A: "added lib rd st ?n b (listing lib st d) (fmupd ?n (Regular (json @ [CHR 0x0A]) m) d)" for m
      using added_final [OF assms(1-3) S(1) assms(4,5) attempt(1-3) fresh] .
    from attempt(6) show ?thesis
    proof (cases rule: publish_cases)
      case refused
      with assms(10) show ?thesis by simp
    next
      case kept
      with assms(10) show ?thesis by (auto simp: WasPublished_def)
    next
      case (published d1 d2)
      then have d': "?d' = fmupd ?n (Regular (json @ [CHR 0x0A]) 0x180) d" by (simp add: saved_dir_def)
      have plain: "plain_name ?n" using attempt(1) by (intro batch_base_plain) (simp add: validate_iff)
      then have nm: "names_ok ?d'" using assms(2) by (simp add: d' names_ok_def)
      have "List lib rd st ?d' = Inr (listing lib st ?d')"
        using A [of "0x180"] List_iff [OF assms(1) nm assms(3)] by (auto simp: added_def d')
      moreover have "listing lib st ?d' = bfs @ [\<lparr>bf_Path = path_join (st_dir st) ?n,
          bf_Batch = the (batch_at lib st ?d' ?n)\<rparr>]"
      proof -
        have "batch_at lib st ?d' m = batch_at lib st d m" if "m \<in> set (names d)" for m
          using that less by (auto simp: d' batch_at_def)
        then show ?thesis unfolding S(2) listing_def by (simp add: d' names_append [OF less])
      qed
      moreover have "batch_at lib st ?d' ?n = Some b"
        using attempt(1-3) assms(4,5) batch_base_suffix [of "sv_nanos sv" b]
        by (simp add: d' batch_at_def lib_ok_def json_blank_def)
      ultimately show ?thesis using path_join_name [OF assms(1) plain] by simp
    qed
  qed
qed

lemma save_appends_sample:
  "List line_lib all_reads sample_store
     (saved_dir fmempty (Save line_lib (sample_saving True) sample_store sample_batch fmempty)) =
   Inr [\<lparr>bf_Path = ''/s/outbox/'' @ batch_base 9 sample_batch, bf_Batch = sample_batch\<rparr>]"
proof -
  let ?s = "Save line_lib (sample_saving True) sample_store sample_batch fmempty"
  have w: "WasPublished (fst ?s)"
    using sample_Save [of True] by (auto simp: publish_def Let_def sample_saving_def syncDir_def)
  have n: "sv_nanos (sample_saving True) = 9" by (simp add: sample_saving_def)
  show ?thesis
    using save_appends [OF sample_store_clean _ all_reads_ok line_lib_ok sample_batch_typed
        empty_outbox(1) prod.collapse [symmetric, of ?s]] w n
    by (simp add: int64_defs sample_store_def)
qed

text \<open>Removing a listed batch takes away that batch and nothing else: with the path that \<^verbatim>\<open>List\<close>
  returned, \<^verbatim>\<open>Remove\<close> passes its check of the directory, and the listing afterwards is the old one
  without the batch, even when the directory cannot be synchronized.\<close>

theorem remove_exact:
  assumes "clean_abs (st_dir st)" and "names_ok d" and "reads_ok rd"
    and "List lib rd st d = Inr bfs" and "bf \<in> set bfs"
  shows "fst (Remove True sync st (bf_Path bf) d) = syncDir sync \<and>
    List lib rd st (snd (Remove True sync st (bf_Path bf) d)) = Inr (remove1 bf bfs)"
proof -
  have S: "sound lib st d" "bfs = listing lib st d" using List_iff [OF assms(1-3)] assms(4) by auto
  let ?f = "\<lambda>n. \<lparr>bf_Path = path_join (st_dir st) n, bf_Batch = the (batch_at lib st d n)\<rparr>"
  obtain n where n: "n \<in> fmdom' d" "bf = ?f n" using assms(5) by (auto simp: S(2) listing_def)
  have plain: "plain_name n" using n(1) assms(2) by (auto simp: names_ok_def)
  have path: "bf_Path bf = st_dir st @ ''/'' @ n" using n(2) path_join_name [OF assms(1) plain] by simp
  obtain f where f: "fmlookup d n = Some f" using n(1) by (auto simp: fmlookup_dom'_iff)
  have "has_suffix n ''.json''"
    using S(1) n(1) f by (auto simp: sound_def batch_at_def split: if_splits)
  then have suf: "has_suffix (st_dir st @ ''/'' @ n) ''.json''"
    using has_suffix_prepend [of n "''.json''" "st_dir st @ ''/''"] by simp
  have R: "Remove True sync st (bf_Path bf) d = (syncDir sync, fmdrop n d)"
    using suf f by (simp add: Remove_def path path_clean_entry [OF assms(1) plain, simplified]
        path_dir_entry [OF assms(1) plain, simplified] path_base_entry [OF plain, simplified])
  have at: "batch_at lib st (fmdrop n d) m = batch_at lib st d m" if "m \<noteq> n" for m
    using that by (simp add: batch_at_def)
  have nm: "names_ok (fmdrop n d)" using assms(2) by (simp add: names_ok_def)
  have sd: "sound lib st (fmdrop n d)" using S(1) at by (auto simp: sound_def)
  have in_d: "n |\<in>| fmdom d" using f by (rule fmdomI)
  have inj: "m = n" if "m \<in> fmdom' d" "?f m = ?f n" for m
    using that path_join_name [OF assms(1) plain] path_join_name [OF assms(1), of m] assms(2)
    by (auto simp: names_ok_def)
  have "listing lib st (fmdrop n d) = map ?f (remove1 n (names d))"
    unfolding listing_def names_drop [OF in_d]
    by (intro map_cong refl) (auto simp: at distinct_remove1_removeAll)
  also have "\<dots> = remove1 bf bfs"
    unfolding S(2) listing_def n(2) using inj n(1) by (intro map_remove1_inj) auto
  finally show ?thesis using List_iff [OF assms(1) nm assms(3)] sd by (simp add: R)
qed

theorem remove_exact_witness:
  "\<exists>d bf. List line_lib all_reads sample_store d = Inr [bf] \<and>
     List line_lib all_reads sample_store (snd (Remove True (True, True) sample_store (bf_Path bf) d)) = Inr []"
proof -
  obtain json where j: "lib_marshal line_lib sample_batch = Some json" by (rule sample_json)
  let ?d = "fmupd (batch_base 9 sample_batch) (Regular (json @ [CHR 0x0A]) 0) fmempty"
  have "b_NodeID sample_batch = st_nodeID sample_store" by (simp add: sample_batch_def sample_store_def)
  then have "added line_lib all_reads sample_store (batch_base 9 sample_batch) sample_batch [] ?d"
    using added_final [OF sample_store_clean _ all_reads_ok _ line_lib_ok sample_batch_typed sample_batch_valid _ j,
        of fmempty 9 0] by (simp add: names_ok_def sound_def listing_def names_def sorted_list_of_fset.rep_eq)
  then obtain bf where bf: "List line_lib all_reads sample_store ?d = Inr [bf]" by (auto simp: added_def)
  have nm: "names_ok ?d" using batch_base_plain(1) [OF sample_batch_uuid] by (simp add: names_ok_def)
  show ?thesis
    using remove_exact [OF sample_store_clean nm all_reads_ok bf, of bf "(True, True)"] bf by auto
qed

end
