(* ===== verification/Ledger.thy ===== *)
theory Ledger
  imports Database Outbox_Log
begin

text \<open>
  The traffic ledger: what a committed batch does to the tables as one function (\<open>book\<close>), that
  \<^verbatim>\<open>ApplyBatch\<close> does it completely or not at all, that any number of attempts books every batch at
  most once, the accuracy of the billed amount, and the telemetry transaction.
\<close>

subsection \<open>Booking a batch\<close>

definition charge :: "f64 \<Rightarrow> int64 \<Rightarrow> int64" where
  "charge rate raw = (case billed raw rate of Inl _ \<Rightarrow> 0 | Inr v \<Rightarrow> v)"

definition charge_row :: "int \<Rightarrow> f64 \<Rightarrow> entry \<Rightarrow> user_row \<Rightarrow> user_row" where
  "charge_row now rate e r = r\<lparr>ur_u := ur_u r + charge rate (e_Uplink e),
     ur_d := ur_d r + charge rate (e_Downlink e), ur_t := now\<rparr>"

definition charge_user :: "int \<Rightarrow> f64 \<Rightarrow> entry list \<Rightarrow> int \<Rightarrow> user_row \<Rightarrow> user_row" where
  "charge_user now rate es uid r = (case find (\<lambda>e. e_UserID e = uid) es of
     None \<Rightarrow> r | Some e \<Rightarrow> charge_row now rate e r)"

definition changes :: "int \<Rightarrow> f64 \<Rightarrow> (int, user_row) fmap \<Rightarrow> entry \<Rightarrow> bool" where
  "changes now rate users e \<longleftrightarrow> (case fmlookup users (e_UserID e) of
     None \<Rightarrow> False | Some r \<Rightarrow> charge_row now rate e r \<noteq> r)"

definition log_of :: "int \<Rightarrow> batch \<Rightarrow> entry \<Rightarrow> log_row" where
  "log_of now b e = \<lparr>lr_user_id = e_UserID e, lr_u = e_Uplink e, lr_d = e_Downlink e,
     lr_node_id = b_NodeID b, lr_rate = b_TrafficRate b,
     lr_traffic = humanBytes (wrap64 (charge (b_TrafficRate b) (e_Uplink e) +
       charge (b_TrafficRate b) (e_Downlink e))), lr_log_time = now\<rparr>"

definition raw_sum :: "entry list \<Rightarrow> int" where
  "raw_sum es = sum_list (map (\<lambda>e. e_Uplink e + e_Downlink e) es)"

definition add_bandwidth :: "int \<Rightarrow> node_row \<Rightarrow> node_row" where
  "add_bandwidth raw n = n\<lparr>nr_node_bandwidth := nr_node_bandwidth n + raw\<rparr>"

definition book :: "int \<Rightarrow> batch \<Rightarrow> panel \<Rightarrow> panel" where
  "book now b p = p\<lparr>
     p_user := fmmap_keys (charge_user now (b_TrafficRate b) (b_Entries b)) (p_user p),
     p_traffic_log := p_traffic_log p @
       map (log_of now b) (filter (changes now (b_TrafficRate b) (p_user p)) (b_Entries b)),
     p_ss_node := fmmap_keys (\<lambda>i. if i = b_NodeID b then add_bandwidth (raw_sum (b_Entries b)) else id)
       (p_ss_node p),
     p_batches := fmupd (b_ID b) \<lparr>br_node_id = b_NodeID b,
       br_payload_sha256 = the (hex_decode (b_PayloadSHA256 b)), br_created_at = b_CreatedAt b,
       br_applied_at = now\<rparr> (p_batches p)\<rparr>"

lemma raw_sum_Cons [simp]: "raw_sum (e # es) = e_Uplink e + e_Downlink e + raw_sum es"
  by (simp add: raw_sum_def)

lemma raw_sum_nonneg: "list_all entry_ok es \<Longrightarrow> 0 \<le> raw_sum es"
  unfolding raw_sum_def by (rule sum_list_nonneg) (auto simp: list_all_iff entry_ok_def)

lemma raw_sum_pos: "list_all entry_ok es \<Longrightarrow> es \<noteq> [] \<Longrightarrow> 0 < raw_sum es"
  by (cases es) (auto simp: entry_ok_def dest: raw_sum_nonneg)

text \<open>One entry, and the loop.\<close>

definition charge_one :: "int \<Rightarrow> batch \<Rightarrow> entry \<Rightarrow> panel \<Rightarrow> panel" where
  "charge_one now b e p = p\<lparr>
     p_user := fmmap_keys (charge_user now (b_TrafficRate b) [e]) (p_user p),
     p_traffic_log := p_traffic_log p @
       map (log_of now b) (filter (changes now (b_TrafficRate b) (p_user p)) [e])\<rparr>"

lemma fmmap_keys_one:
  "fmmap_keys (charge_user now rate [e]) m = (case fmlookup m (e_UserID e) of
     None \<Rightarrow> m | Some r \<Rightarrow> fmupd (e_UserID e) (charge_row now rate e r) m)"
proof (cases "fmlookup m (e_UserID e)")
  case None
  then have "fmlookup (fmmap_keys (charge_user now rate [e]) m) k = fmlookup m k" for k
    by (cases "fmlookup m k") (auto simp: charge_user_def)
  with None show ?thesis by (auto intro: fmap_ext)
next
  case (Some r)
  then have "fmlookup (fmmap_keys (charge_user now rate [e]) m) k
      = fmlookup (fmupd (e_UserID e) (charge_row now rate e r) m) k" for k
    by (cases "fmlookup m k") (auto simp: charge_user_def)
  with Some show ?thesis by (auto intro: fmap_ext)
qed

lemma apply_entries_Cons:
  assumes "apply_entries env b k raw (e # es) p = Inr res" and "entry_ok e" and "0 \<le> raw" and "raw \<le> MaxInt64"
  shows "\<exists>k'. apply_entries env b k' (raw + e_Uplink e + e_Downlink e) es (charge_one (tx_now env) b e p) = Inr res
    \<and> raw + e_Uplink e + e_Downlink e \<le> MaxInt64"
proof -
  have e: "0 \<le> e_Uplink e" "0 \<le> e_Downlink e" "e_Uplink e + e_Downlink e \<le> MaxInt64"
    using assms(2) by (auto simp: entry_ok_def)
  have w: "wrap64 x = x" if "0 \<le> x" "x \<le> MaxInt64" for x using that by (intro wrap64_id int64_okI)
  obtain u where u: "billed (e_Uplink e) (b_TrafficRate b) = Inr u" using assms(1) by (auto split: sum.splits)
  obtain d where d: "billed (e_Downlink e) (b_TrafficRate b) = Inr d" using assms(1) u by (auto split: sum.splits)
  have c: "charge (b_TrafficRate b) (e_Uplink e) = u" "charge (b_TrafficRate b) (e_Downlink e) = d"
    using u d by (simp_all add: charge_def)
  have sum: "\<not> raw > wrap64 (wrap64 (MaxInt64 - e_Uplink e) - e_Downlink e) \<Longrightarrow>
      raw + e_Uplink e + e_Downlink e \<le> MaxInt64"
    using e assms(3,4) by (simp add: w)
  have ov: "wrap64 (MaxInt64 - e_Downlink e) = MaxInt64 - e_Downlink e"
      "wrap64 (wrap64 (MaxInt64 - e_Uplink e) - e_Downlink e) = MaxInt64 - e_Uplink e - e_Downlink e"
      "wrap64 (e_Uplink e + e_Downlink e) = e_Uplink e + e_Downlink e"
    using e by (simp_all add: w)
  have add: "wrap64 (raw + (e_Uplink e + e_Downlink e)) = raw + e_Uplink e + e_Downlink e"
    if "raw + e_Uplink e + e_Downlink e \<le> MaxInt64"
    using that e assms(3) by (simp add: w)
  show ?thesis
  proof (cases "fmlookup (p_user p) (e_UserID e)")
    case None
    then have "charge_one (tx_now env) b e p = p"
      by (simp add: charge_one_def fmmap_keys_one changes_def)
    moreover have "\<not> raw > MaxInt64 - e_Uplink e - e_Downlink e"
        "apply_entries env b (Suc k) (wrap64 (raw + (e_Uplink e + e_Downlink e))) es p = Inr res"
      using assms(1) by (simp_all add: u d update_user_def None ov split: if_splits)
    ultimately show ?thesis using add by fastforce
  next
    case (Some r)
    define r' where "r' = charge_row (tx_now env) (b_TrafficRate b) e r"
    define p1 where "p1 = p\<lparr>p_user := fmupd (e_UserID e) r' (p_user p)\<rparr>"
    define p2 where "p2 = (if r' = r then p1 else insert_log b e (humanBytes (wrap64 (u + d))) (tx_now env) p1)"
    have upd: "update_user u d (tx_now env) (e_UserID e) p = (if r' = r then 0 else 1, p1)"
      by (simp add: update_user_def Some Let_def r'_def p1_def charge_row_def c)
    have "charge_one (tx_now env) b e p = p2"
      using Some by (simp add: charge_one_def fmmap_keys_one changes_def r'_def p1_def p2_def insert_log_def
          log_of_def c)
    moreover obtain k2 where "\<not> raw > MaxInt64 - e_Uplink e - e_Downlink e"
        "apply_entries env b k2 (wrap64 (raw + (e_Uplink e + e_Downlink e))) es p2 = Inr res"
    proof (cases "r' = r")
      case True
      then show thesis using assms(1) that by (simp add: u d upd ov p2_def split: if_splits)
    next
      case False
      then show thesis using assms(1) that by (simp add: u d upd ov p2_def split: if_splits)
    qed
    ultimately show ?thesis using add by fastforce
  qed
qed

lemma charge_user_Nil: "charge_user now rate [] = (\<lambda>uid r. r)"
  by (intro ext) (simp add: charge_user_def)

lemma charge_user_Cons:
  assumes "\<forall>x \<in> set es. e_UserID x \<noteq> e_UserID e"
  shows "charge_user now rate es uid (charge_user now rate [e] uid r) = charge_user now rate (e # es) uid r"
proof (cases "e_UserID e = uid")
  case True
  then have "find (\<lambda>x. e_UserID x = uid) es = None" using assms unfolding find_None_iff by auto
  with True show ?thesis by (simp add: charge_user_def)
next
  case False
  then show ?thesis by (simp add: charge_user_def)
qed

lemma changes_charge_one:
  assumes "e_UserID x \<noteq> e_UserID e"
  shows "changes now rate (fmmap_keys (charge_user now rate [e]) m) x = changes now rate m x"
  using assms by (auto simp: changes_def charge_user_def split: option.split)

lemma apply_entries_book:
  assumes "apply_entries env b k raw es p = Inr (k', raw', p')"
    and "list_all entry_ok es" and "distinct (map e_UserID es)" and "0 \<le> raw" and "raw \<le> MaxInt64"
  shows "raw' = raw + raw_sum es \<and> raw' \<le> MaxInt64 \<and>
    p' = p\<lparr>p_user := fmmap_keys (charge_user (tx_now env) (b_TrafficRate b) es) (p_user p),
           p_traffic_log := p_traffic_log p @
             map (log_of (tx_now env) b) (filter (changes (tx_now env) (b_TrafficRate b) (p_user p)) es)\<rparr>"
  using assms
proof (induction es arbitrary: k raw p)
  case Nil
  have "fmmap_keys (charge_user (tx_now env) (b_TrafficRate b) []) (p_user p) = p_user p"
    by (rule fmap_ext) (simp add: charge_user_Nil option.map_ident)
  with Nil show ?case by (simp add: raw_sum_def)
next
  case (Cons e es)
  let ?f = "charge_user (tx_now env) (b_TrafficRate b)" and ?p1 = "charge_one (tx_now env) b e p"
  let ?c = "changes (tx_now env) (b_TrafficRate b)"
  obtain k1 where k1: "apply_entries env b k1 (raw + e_Uplink e + e_Downlink e) es ?p1 = Inr (k', raw', p')"
      "raw + e_Uplink e + e_Downlink e \<le> MaxInt64"
    using apply_entries_Cons [OF Cons.prems(1)] Cons.prems by auto
  have "0 \<le> raw + e_Uplink e + e_Downlink e" using Cons.prems(2,4) by (auto simp: entry_ok_def)
  with Cons.IH [OF k1(1)] k1(2) Cons.prems(2,3)
  have IH: "raw' = raw + e_Uplink e + e_Downlink e + raw_sum es" "raw' \<le> MaxInt64"
      "p' = ?p1\<lparr>p_user := fmmap_keys (?f es) (p_user ?p1), p_traffic_log := p_traffic_log ?p1 @
         map (log_of (tx_now env) b) (filter (?c (p_user ?p1)) es)\<rparr>" by auto
  have fresh: "\<forall>x \<in> set es. e_UserID x \<noteq> e_UserID e" using Cons.prems(3) by (simp add: rev_image_eqI) (metis image_eqI)
  have users: "fmmap_keys (?f es) (fmmap_keys (?f [e]) (p_user p)) = fmmap_keys (?f (e # es)) (p_user p)"
    by (rule fmap_ext) (simp add: option.map_comp comp_def charge_user_Cons [OF fresh])
  have logs: "filter (?c (fmmap_keys (?f [e]) (p_user p))) es = filter (?c (p_user p)) es"
    using fresh by (intro filter_cong refl changes_charge_one) simp
  show ?case using IH by (auto simp: charge_one_def users logs)
qed

subsection \<open>The transaction\<close>

lemma hex_decode_len: "hex_decode s = Some bs \<Longrightarrow> 2 * length bs = length s"
  by (induction s arbitrary: bs rule: hex_decode.induct) (auto split: if_splits)

lemma fmmap_keys_node:
  assumes "fmlookup m i = Some n"
  shows "fmmap_keys (\<lambda>j. if j = i then f else id) m = fmupd i (f n) m"
  using assms by (intro fmap_ext) (auto simp: option.map_id0)

lemma apply_tx_book:
  assumes "apply_tx env b h p = Inr (Some p')" and "entries_valid (b_Entries b)"
    and "hex_decode (b_PayloadSHA256 b) = Some h"
  shows "p' = book (tx_now env) b p \<and> fmlookup (p_batches p) (b_ID b) = None"
proof -
  define p0 where "p0 = p\<lparr>p_batches := fmupd (b_ID b) \<lparr>br_node_id = b_NodeID b, br_payload_sha256 = h,
    br_created_at = b_CreatedAt b, br_applied_at = tx_now env\<rparr> (p_batches p)\<rparr>"
  have fresh: "fmlookup (p_batches p) (b_ID b) = None"
    using assms(1) by (auto simp: apply_tx_def split: option.splits if_splits)
  obtain k raw p1 where A: "apply_entries env b 1 0 (b_Entries b) p0 = Inr (k, raw, p1)"
      "snd (update_bandwidth raw (b_NodeID b) p1) = p'" "fst (update_bandwidth raw (b_NodeID b) p1) = 1"
    using assms(1) fresh unfolding apply_tx_def p0_def
    by (auto simp: Let_def split: sum.splits if_splits prod.splits)
  have V: "list_all entry_ok (b_Entries b)" "distinct (map e_UserID (b_Entries b))"
    using assms(2) by (auto simp: entries_valid_def list_all_iff strict_sorted_iff)
  note B = apply_entries_book [OF A(1) V]
  have B': "raw = raw_sum (b_Entries b)"
      "p1 = p0\<lparr>p_user := fmmap_keys (charge_user (tx_now env) (b_TrafficRate b) (b_Entries b)) (p_user p),
         p_traffic_log := p_traffic_log p @ map (log_of (tx_now env) b)
           (filter (changes (tx_now env) (b_TrafficRate b) (p_user p)) (b_Entries b))\<rparr>"
    using B by (simp_all add: MaxInt64_def p0_def)
  obtain n where n: "fmlookup (p_ss_node p1) (b_NodeID b) = Some n"
    using A(3) by (auto simp: update_bandwidth_def split: option.splits)
  then have "p' = p1\<lparr>p_ss_node := fmmap_keys (\<lambda>i. if i = b_NodeID b then add_bandwidth raw else id) (p_ss_node p1)\<rparr>"
    using A(2) by (simp add: update_bandwidth_def fmmap_keys_node [OF n] add_bandwidth_def)
  then have "p' = book (tx_now env) b p"
    unfolding B' p0_def by (simp add: book_def assms(3))
  with fresh show ?thesis by simp
qed

lemma apply_tx_duplicate:
  assumes "apply_tx env b h p = Inr None"
  shows "\<exists>stored. fmlookup (p_batches p) (b_ID b) = Some stored \<and> br_node_id stored = b_NodeID b \<and>
    br_payload_sha256 stored = h"
  using assms unfolding apply_tx_def
  by (cases "fmlookup (p_batches p) (b_ID b)") (auto simp: Let_def split: if_splits sum.splits prod.splits)

text \<open>Every outcome of an attempt.\<close>

lemma ApplyBatch_cases:
  assumes "ApplyBatch env b p = (err, p')" and "entries_valid (b_Entries b)"
  obtains (failed) e where "err = Some e" "p' = p"
  | (duplicate) stored where "err = None" "p' = p" "fmlookup (p_batches p) (b_ID b) = Some stored"
      "br_node_id stored = b_NodeID b" "hex_decode (b_PayloadSHA256 b) = Some (br_payload_sha256 stored)"
  | (booked) "p' = book (tx_now env) b p" "fmlookup (p_batches p) (b_ID b) = None"
      "err = None \<or> err = Some CommitFailed \<and> tx_commit env = CommitUnanswered"
proof -
  show thesis
  proof (cases "hex_decode (b_PayloadSHA256 b)")
    case None
    with assms(1) failed show thesis by (auto simp: ApplyBatch_def)
  next
    case h: (Some h)
    show thesis
    proof (cases "length h \<noteq> 32 \<or> \<not> tx_begin env")
      case True
      with assms(1) h failed show thesis by (auto simp: ApplyBatch_def split: if_splits)
    next
      case False
      with assms(1) h have A: "(case apply_tx env b h p of Inl e \<Rightarrow> (Some e, p)
          | Inr None \<Rightarrow> (None, p) | Inr (Some p') \<Rightarrow> commit env p p') = (err, p')"
        by (simp add: ApplyBatch_def)
      consider e where "apply_tx env b h p = Inl e" | "apply_tx env b h p = Inr None"
        | q where "apply_tx env b h p = Inr (Some q)"
        by (metis sum.exhaust option.exhaust)
      then show thesis
      proof cases
        case 1
        with A failed show thesis by auto
      next
        case 2
        obtain stored where "fmlookup (p_batches p) (b_ID b) = Some stored"
            "br_node_id stored = b_NodeID b" "br_payload_sha256 stored = h"
          using apply_tx_duplicate [OF 2] by blast
        with 2 A h duplicate show thesis by auto
      next
        case 3
        note B = apply_tx_book [OF 3 assms(2) h]
        from 3 A B failed booked show thesis
          by (cases "tx_commit env") (auto simp: commit_def)
      qed
    qed
  qed
qed

subsection \<open>Attempts\<close>

text \<open>A history of attempts with their environments, and the bookings of a list of batches.\<close>

definition attempt :: "db_error option list \<times> panel \<Rightarrow> tx_env \<times> batch \<Rightarrow> db_error option list \<times> panel" where
  "attempt s x = (case ApplyBatch (fst x) (snd x) (snd s) of (err, p) \<Rightarrow> (fst s @ [err], p))"

definition attempts :: "(tx_env \<times> batch) list \<Rightarrow> panel \<Rightarrow> db_error option list \<times> panel" where
  "attempts xs p = foldl attempt ([], p) xs"

definition book_all :: "(int \<times> batch) list \<Rightarrow> panel \<Rightarrow> panel" where
  "book_all bs p = foldl (\<lambda>p x. book (fst x) (snd x) p) p bs"

lemma book_all_snoc [simp]: "book_all (bs @ [x]) p = book (fst x) (snd x) (book_all bs p)"
  by (simp add: book_all_def)

lemma book_all_Nil [simp]: "book_all [] p = p"
  by (simp add: book_all_def)

lemma attempts_snoc: "attempts (xs @ [x]) p = attempt (attempts xs p) x"
  by (simp add: attempts_def)

lemma length_attempts: "length (fst (attempts xs p)) = length xs"
  by (induction xs rule: rev_induct) (auto simp: attempts_def attempt_def split: prod.splits)

lemma book_all_batches:
  "fmlookup (p_batches (book_all bs p)) i = None \<longleftrightarrow>
     fmlookup (p_batches p) i = None \<and> (\<forall>x \<in> set bs. b_ID (snd x) \<noteq> i)"
  by (induction bs rule: rev_induct) (auto simp: book_def)

definition accounted :: "(tx_env \<times> batch) list \<Rightarrow> panel \<Rightarrow> (int \<times> batch) list \<Rightarrow> bool" where
  "accounted xs p bs \<longleftrightarrow> snd (attempts xs p) = book_all bs p \<and> distinct (map (b_ID \<circ> snd) bs) \<and>
     snd ` set bs \<subseteq> snd ` set xs \<and>
     (\<forall>i < length xs. fst (attempts xs p) ! i = None \<longrightarrow> snd (xs ! i) \<in> snd ` set bs)"

lemma accounted_step:
  assumes "accounted xs p bs" and "entries_valid (b_Entries b)" and "fmlookup (p_batches p) (b_ID b) = None"
    and "\<forall>c \<in> snd ` set xs. b_ID c = b_ID b \<longrightarrow> c = b"
  shows "\<exists>bs'. accounted (xs @ [(env, b)]) p bs'"
proof -
  let ?q = "snd (attempts xs p)"
  obtain err p' where A: "ApplyBatch env b ?q = (err, p')" by fastforce
  have step: "attempts (xs @ [(env, b)]) p = (fst (attempts xs p) @ [err], p')"
    by (simp add: attempts_snoc attempt_def A)
  have q: "?q = book_all bs p" using assms(1) by (simp add: accounted_def)
  have old: "accounted (xs @ [(env, b)]) p bs" if "p' = ?q" "err = None \<longrightarrow> b \<in> snd ` set bs"
    using assms(1) that
    by (auto simp: accounted_def step nth_append length_attempts less_Suc_eq)
  from A assms(2) show ?thesis
  proof (cases rule: ApplyBatch_cases)
    case failed
    with old show ?thesis by auto
  next
    case (duplicate stored)
    then obtain x where x: "x \<in> set bs" "b_ID (snd x) = b_ID b"
      using assms(3) book_all_batches [of bs p "b_ID b"] by (auto simp: q)
    then have "snd x \<in> snd ` set xs" using assms(1) by (auto simp: accounted_def)
    with x assms(4) have "b \<in> snd ` set bs" by (metis image_eqI)
    with old duplicate show ?thesis by auto
  next
    case booked
    then have "\<forall>x \<in> set bs. b_ID (snd x) \<noteq> b_ID b" by (simp add: q book_all_batches)
    then have d: "distinct (map (b_ID \<circ> snd) (bs @ [(tx_now env, b)]))"
      using assms(1) by (auto simp: accounted_def)
    have "accounted (xs @ [(env, b)]) p (bs @ [(tx_now env, b)])"
      using assms(1) booked d
      by (auto simp: accounted_def step q nth_append length_attempts less_Suc_eq)
    then show ?thesis ..
  qed
qed

subsection \<open>Progress\<close>

definition no_faults :: "tx_env \<Rightarrow> bool" where
  "no_faults env \<longleftrightarrow> tx_begin env \<and> (\<forall>k. tx_stmt env k \<and> tx_rows env k) \<and> tx_commit env = CommitDone"

definition billable :: "f64 \<Rightarrow> entry \<Rightarrow> bool" where
  "billable rate e \<longleftrightarrow> \<not> isl (billed (e_Uplink e) rate) \<and> \<not> isl (billed (e_Downlink e) rate)"

lemma apply_entries_progress:
  assumes "no_faults env" and "list_all entry_ok es" and "list_all (billable (b_TrafficRate b)) es"
    and "0 \<le> raw" and "raw + raw_sum es \<le> MaxInt64"
  shows "\<not> isl (apply_entries env b k raw es p)"
  using assms(2-)
proof (induction es arbitrary: k raw p)
  case (Cons e es)
  have e: "0 \<le> e_Uplink e" "0 \<le> e_Downlink e" using Cons.prems(1) by (auto simp: entry_ok_def)
  have nn: "0 \<le> raw_sum es" using Cons.prems(1) by (intro raw_sum_nonneg) simp
  obtain u d where ud: "billed (e_Uplink e) (b_TrafficRate b) = Inr u"
      "billed (e_Downlink e) (b_TrafficRate b) = Inr d"
    using Cons.prems(2) unfolding billable_def
    by (cases "billed (e_Uplink e) (b_TrafficRate b)"; cases "billed (e_Downlink e) (b_TrafficRate b)") auto
  have w: "wrap64 x = x" if "0 \<le> x" "x \<le> MaxInt64" for x using that by (intro wrap64_id int64_okI)
  have ov: "wrap64 (MaxInt64 - e_Downlink e) = MaxInt64 - e_Downlink e"
      "wrap64 (wrap64 (MaxInt64 - e_Uplink e) - e_Downlink e) = MaxInt64 - e_Uplink e - e_Downlink e"
      "wrap64 (raw + wrap64 (e_Uplink e + e_Downlink e)) = raw + (e_Uplink e + e_Downlink e)"
    using e nn Cons.prems(3,4) by (simp_all add: w)
  have "\<not> isl (apply_entries env b k' (raw + (e_Uplink e + e_Downlink e)) es p')" for k' p'
    using Cons.prems e nn by (intro Cons.IH) auto
  with e nn Cons.prems(3,4) assms(1) show ?case
    by (cases "update_user u d (tx_now env) (e_UserID e) p") (simp add: ud ov no_faults_def Let_def)
qed simp

lemma ApplyBatch_progress:
  assumes "no_faults env" and "entries_valid (b_Entries b)" and "b_Entries b \<noteq> []"
    and "hex_decode (b_PayloadSHA256 b) = Some h" and "length h = 32"
    and "list_all (billable (b_TrafficRate b)) (b_Entries b)" and "raw_sum (b_Entries b) \<le> MaxInt64"
    and "fmlookup (p_ss_node p) (b_NodeID b) \<noteq> None" and "fmlookup (p_batches p) (b_ID b) = None"
  shows "ApplyBatch env b p = (None, book (tx_now env) b p)"
proof -
  define p0 where "p0 = p\<lparr>p_batches := fmupd (b_ID b) \<lparr>br_node_id = b_NodeID b, br_payload_sha256 = h,
    br_created_at = b_CreatedAt b, br_applied_at = tx_now env\<rparr> (p_batches p)\<rparr>"
  have V: "list_all entry_ok (b_Entries b)" "distinct (map e_UserID (b_Entries b))"
    using assms(2) by (auto simp: entries_valid_def list_all_iff strict_sorted_iff)
  obtain k raw p1 where A: "apply_entries env b 1 0 (b_Entries b) p0 = Inr (k, raw, p1)"
    using apply_entries_progress [OF assms(1) V(1) assms(6), of 0 1 p0] assms(7)
    by (cases "apply_entries env b 1 0 (b_Entries b) p0") auto
  from apply_entries_book [OF A V] have B: "raw = raw_sum (b_Entries b)" "p_ss_node p1 = p_ss_node p"
    by (simp_all add: MaxInt64_def p0_def)
  have "raw \<noteq> 0" using raw_sum_pos [OF V(1) assms(3)] by (simp add: B)
  then obtain p2 where U: "update_bandwidth raw (b_NodeID b) p1 = (1, p2)"
    using assms(8) by (auto simp: update_bandwidth_def B)
  have T: "apply_tx env b h p = Inr (Some p2)"
    using assms(1,9) A U unfolding apply_tx_def p0_def by (simp add: no_faults_def Let_def)
  with apply_tx_book [OF T assms(2,4)] show ?thesis
    using assms(1,4,5) by (simp add: ApplyBatch_def no_faults_def commit_def)
qed

subsection \<open>Telemetry\<close>

lemma insert_ips_ok:
  "no_faults e \<Longrightarrow> \<exists>k' q. insert_ips e i u k ips p = Inr (k', q) \<and> p_ss_node q = p_ss_node p"
  by (induction e i u k ips p rule: insert_ips.induct) (auto simp: no_faults_def)

lemma online_loop_ok:
  assumes "no_faults e"
  shows "\<exists>k' us' q. online_loop e i k us xs p = Inr (k', us', q) \<and> p_ss_node q = p_ss_node p"
proof (induction xs arbitrary: k us p)
  case (Cons x xs)
  obtain u ips where x: "x = (u, ips)" by fastforce
  obtain k' q where "insert_ips e i u k ips p = Inr (k', q)" "p_ss_node q = p_ss_node p"
    using insert_ips_ok [OF assms] by blast
  with Cons.IH [of k' _ q] show ?case by (simp add: x)
qed simp

lemma telemetry_beat:
  assumes "no_faults e" and "fmlookup (p_ss_node q) i = Some m"
  shows "nr_node_heartbeat m = tx_now e \<Longrightarrow> ReportTelemetry e i xs up l q = (Some NodeDisappeared, q)"
    and "nr_node_heartbeat m \<noteq> tx_now e \<Longrightarrow>
      \<exists>m' q'. ReportTelemetry e i xs up l q = (None, q') \<and> fmlookup (p_ss_node q') i = Some m' \<and>
        nr_node_heartbeat m' = tx_now e"
proof -
  obtain k us q1 where L: "online_loop e i 0 0 xs q = Inr (k, us, q1)" "p_ss_node q1 = p_ss_node q"
    using online_loop_ok [OF assms(1)] by blast
  from L assms show "nr_node_heartbeat m = tx_now e \<Longrightarrow> ReportTelemetry e i xs up l q = (Some NodeDisappeared, q)"
    by (simp add: ReportTelemetry_def telemetry_tx_def no_faults_def update_heartbeat_def Let_def)
  from L assms show "nr_node_heartbeat m \<noteq> tx_now e \<Longrightarrow>
      \<exists>m' q'. ReportTelemetry e i xs up l q = (None, q') \<and> fmlookup (p_ss_node q') i = Some m' \<and>
        nr_node_heartbeat m' = tx_now e"
    by (simp add: ReportTelemetry_def telemetry_tx_def no_faults_def update_heartbeat_def commit_def Let_def)
qed

subsection \<open>Accuracy of the billed amount\<close>

lemma max_int64_float: "f64_of_int MaxInt64 = Fin (2 ^ 63)"
  by code_simp

lemma pow2_tiny: "pow2 (-1022) \<le> pow2 (-53)" "pow2 (-53) = 1 / 2 ^ 53"
  by (simp_all add: pow2_def power_int_def field_simps)

lemma product_error:
  fixes n q a b t u :: rat
  assumes "\<bar>a - n\<bar> \<le> (n + t) * u" and "\<bar>b - a * q\<bar> \<le> (a * q + t) * u"
    and "0 \<le> n" and "0 < q" and "q \<le> 10000" and "0 < t" and "t \<le> u" and "u = 1 / 2 ^ 53"
  shows "\<bar>b - n * q\<bar> \<le> (n * q + 1) / 2 ^ 51"
proof -
  define x where "x = n * q"
  have x: "0 \<le> x" using assms(3,4) by (simp add: x_def)
  have "\<bar>a * q - x\<bar> = \<bar>a - n\<bar> * q" using assms(4) by (simp add: x_def abs_mult flip: left_diff_distrib)
  also have "\<dots> \<le> (n + t) * u * q" using assms(1,4) by (intro mult_right_mono) simp_all
  also have "\<dots> = (x + t * q) * u" by (simp add: x_def algebra_simps)
  also have "\<dots> \<le> (x + 1) * u"
  proof -
    have "t * q \<le> u * 10000" using assms(4-7) by (intro mult_mono) simp_all
    also have "\<dots> \<le> 1" using assms(8) by simp
    finally show ?thesis using assms(8) by (intro mult_right_mono) simp_all
  qed
  finally have A: "\<bar>a * q - x\<bar> \<le> (x + 1) * u" .
  have "u \<le> 1" using assms(8) by simp
  then have "(x + 1) * u \<le> (x + 1) * 1" using x by (intro mult_left_mono) simp_all
  with abs_le_D1 [OF A] have "a * q \<le> 2 * x + 1" by simp
  moreover have "t \<le> 1" using assms(7) \<open>u \<le> 1\<close> by simp
  ultimately have "(a * q + t) * u \<le> (2 * x + 2) * u" using assms(8) by (intro mult_right_mono) simp_all
  moreover have "\<bar>b - x\<bar> \<le> \<bar>b - a * q\<bar> + \<bar>a * q - x\<bar>" by simp
  ultimately have "\<bar>b - x\<bar> \<le> (x + 1) * u + (2 * x + 2) * u" using assms(2) A by linarith
  also have "\<dots> = 3 * (x + 1) * u" by (simp add: algebra_simps)
  also have "\<dots> \<le> (x + 1) / 2 ^ 51" using x by (simp add: assms(8) field_simps)
  finally show ?thesis by (simp add: x_def)
qed

lemma billed_near:
  assumes "0 \<le> raw" and "raw \<le> MaxInt64" and "0 < q" and "q \<le> 10000" and "of_int raw * q \<le> 2 ^ 62"
  shows "\<exists>v. billed raw (Fin q) = Inr v \<and> 0 \<le> v \<and>
    \<bar>of_int v - of_int raw * q\<bar> \<le> 1 / 2 + (of_int raw * q + 1) / 2 ^ 51"
proof -
  let ?n = "of_int raw :: rat" and ?t = "pow2 (-1022)" and ?u = "pow2 (-53)"
  have "?n \<le> of_int MaxInt64" using assms(2) by (simp only: of_int_le_iff)
  then have n: "0 \<le> ?n" "?n < 2 ^ 63" using assms(1) by (simp_all add: MaxInt64_def)
  have t: "0 < ?t" "?t \<le> ?u" "?u = 1 / 2 ^ 53" using pow2_tiny by simp_all
  obtain a where a: "f64_of_int raw = Fin a" "0 \<le> a" "\<bar>a - ?n\<bar> \<le> (?n + ?t) * ?u"
  proof -
    have "?n < 2 ^ 1000" using n(2) by (rule less_trans) simp
    with rnd64_near [of ?n] n(1) that show thesis unfolding f64_of_int_def by blast
  qed
  have "a < 2 ^ 64"
  proof -
    have "(?n + ?t) * ?u \<le> (2 ^ 63 + 1) * ?u" using n(2) t by (intro mult_right_mono) simp_all
    also have "\<dots> \<le> 2 ^ 11" by (simp add: t(3))
    finally have "a - ?n \<le> 2 ^ 11" using abs_le_D1 [OF a(3)] by linarith
    moreover have "(2 ^ 63 + 2 ^ 11 :: rat) < 2 ^ 64" by simp
    ultimately show ?thesis using n(2) by linarith
  qed
  then have "a * q \<le> 2 ^ 64 * 10000" using assms(3,4) a(2) by (intro mult_mono) simp_all
  also have "\<dots> < 2 ^ 1000" by simp
  finally obtain b where b: "f64_mul (f64_of_int raw) (Fin q) = Fin b" "0 \<le> b" "\<bar>b - a * q\<bar> \<le> (a * q + ?t) * ?u"
    using rnd64_near [of "a * q"] a assms(3) by auto
  have E: "\<bar>b - ?n * q\<bar> \<le> (?n * q + 1) / 2 ^ 51"
    using product_error [OF a(3) b(3) n(1) assms(3,4) t] .
  have "(?n * q + 1) / 2 ^ 51 \<le> (2 ^ 62 + 1) / 2 ^ 51" using assms(5) by (intro divide_right_mono) simp_all
  also have "\<dots> \<le> 2 ^ 12" by simp
  finally have b62: "b \<le> 2 ^ 62 + 2 ^ 12" using abs_le_D1 [OF E] assms(5) by linarith
  define v where "v = \<lfloor>b + 1 / 2\<rfloor>"
  have fl: "of_int v \<le> b + 1 / 2" "b + 1 / 2 < of_int v + 1"
    using floor_correct [of "b + 1 / 2"] by (simp_all add: v_def)
  have v: "0 \<le> v" "\<bar>of_int v - b\<bar> \<le> 1 / 2"
    using b(2) fl by (simp add: v_def) (rule abs_leI; use fl in linarith)
  have "(of_int v :: rat) \<le> 2 ^ 62 + 2 ^ 12 + 1 / 2" using fl(1) b62 by linarith
  also have "\<dots> \<le> of_int (2 ^ 63 - 1)" by simp
  finally have "v \<le> 2 ^ 63 - 1" unfolding of_int_le_iff .
  then have "v \<le> MaxInt64" by (simp add: MaxInt64_def)
  then have "f64_to_int64 (f64_round (Fin b)) = v"
    using b(2) v(1) by (simp add: v_def trunc_rat_def int64_okI)
  moreover have "\<not> f64_lt (Fin (2 ^ 63)) (Fin b)" using b62 by simp
  ultimately have "billed raw (Fin q) = Inr v" by (simp add: billed_def b(1) max_int64_float Let_def)
  moreover have "\<bar>of_int v - ?n * q\<bar> \<le> \<bar>of_int v - b\<bar> + \<bar>b - ?n * q\<bar>" by simp
  then have "\<bar>of_int v - ?n * q\<bar> \<le> 1 / 2 + (?n * q + 1) / 2 ^ 51" using v(2) E by linarith
  ultimately show ?thesis using v(1) by blast
qed

subsection \<open>Samples\<close>

definition sample_row :: user_row where
  "sample_row = \<lparr>ur_passwd = ''pw'', ur_node_speedlimit = Fin 0, ur_node_connector = 0, ur_forbidden_ip = None,
     ur_forbidden_port = None, ur_disconnect_ip = None, ur_enable = 1, ur_expire_in = 100,
     ur_transfer_enable = 1000, ur_u = 0, ur_d = 0, ur_t = 0, ur_is_admin = 0, ur_class = 0, ur_node_group = 0\<rparr>"

definition sample_ss_node :: node_row where
  "sample_ss_node = \<lparr>nr_name = ''n'', nr_sort = 15, nr_type = 1, nr_traffic_rate = Fin 1, nr_node_class = 0,
     nr_node_group = 0, nr_node_speedlimit = Fin 0, nr_node_connector = 0, nr_node_bandwidth = 0,
     nr_node_bandwidth_limit = 0, nr_node_heartbeat = 0\<rparr>"

definition sample_panel :: panel where
  "sample_panel = \<lparr>p_user = fmupd 3 sample_row fmempty, p_ss_node = fmupd 7 sample_ss_node fmempty,
     p_reality = fmempty, p_batches = fmempty, p_traffic_log = [], p_alive_ip = [], p_online_log = [],
     p_node_info = []\<rparr>"

definition sample_tx :: "commit_result \<Rightarrow> int \<Rightarrow> tx_env" where
  "sample_tx c now = \<lparr>tx_begin = True, tx_stmt = (\<lambda>_. True), tx_rows = (\<lambda>_. True), tx_commit = c, tx_now = now\<rparr>"

lemma sample_batch_facts:
  "b_ID sample_batch \<noteq> []" "b_NodeID sample_batch = 7" "b_TrafficRate sample_batch = Fin 1"
  "b_Entries sample_batch = [\<lparr>e_UserID = 3, e_Uplink = 10, e_Downlink = 20\<rparr>]"
  "hex_decode (b_PayloadSHA256 sample_batch) = Some (replicate 32 0)"
proof -
  show "hex_decode (b_PayloadSHA256 sample_batch) = Some (replicate 32 0)"
    using hex_decode_encode [of "replicate 32 0"] by (simp add: sample_batch_def hex_encode_zeros)
qed (simp_all add: sample_batch_def)

lemma sample_billable: "list_all (billable (b_TrafficRate sample_batch)) (b_Entries sample_batch)"
  using billed_near [of 10 1] billed_near [of 20 1]
  by (auto simp: sample_batch_facts billable_def MaxInt64_def)

subsection \<open>Properties\<close>

text \<open>C19: Booking a batch is all or nothing. Whatever statement fails, and whether or not the answer
  to the commit arrives, \<^verbatim>\<open>ApplyBatch\<close> leaves the tables as they were or books the whole batch: the
  batch row, every user, the traffic log and the node. Success is reported only when the batch is
  recorded with its node and hash, an error after a booking only when the answer to the commit was
  lost, and a recorded batch id with another node or hash is an error that changes nothing.\<close>

theorem apply_all_or_nothing:
  assumes "validate lib chk b = None" and "ApplyBatch env b p = (err, p')"
  shows "(p' = p \<or> p' = book (tx_now env) b p \<and> fmlookup (p_batches p) (b_ID b) = None) \<and>
    (err = None \<longrightarrow> (\<exists>stored. fmlookup (p_batches p') (b_ID b) = Some stored \<and>
       br_node_id stored = b_NodeID b \<and> br_payload_sha256 stored = the (hex_decode (b_PayloadSHA256 b)))) \<and>
    (err \<noteq> None \<and> p' \<noteq> p \<longrightarrow> tx_commit env = CommitUnanswered) \<and>
    (\<forall>stored. fmlookup (p_batches p) (b_ID b) = Some stored \<and>
       (br_node_id stored \<noteq> b_NodeID b \<or> br_payload_sha256 stored \<noteq> the (hex_decode (b_PayloadSHA256 b))) \<longrightarrow>
       err \<noteq> None \<and> p' = p)"
proof -
  have V: "entries_valid (b_Entries b)" using assms(1) by (simp add: validate_iff)
  from assms(2) V show ?thesis
    by (cases rule: ApplyBatch_cases) (auto simp: book_def)
qed

theorem apply_all_or_nothing_witness:
  "snd (ApplyBatch (sample_tx CommitRejected 5) sample_batch sample_panel) = sample_panel \<or>
   snd (ApplyBatch (sample_tx CommitRejected 5) sample_batch sample_panel) = book 5 sample_batch sample_panel"
  using apply_all_or_nothing [OF sample_batch_valid prod.collapse [symmetric],
      of "sample_tx CommitRejected 5" sample_panel] by (auto simp: sample_tx_def)

text \<open>C6: Every batch is booked at most once, and exactly once if any attempt succeeded. Take any
  history of \<^verbatim>\<open>ApplyBatch\<close> calls, with any faults, lost commit answers and repetitions, on valid
  batches whose ids identify them and that the tables do not hold at first. The tables afterwards are
  the initial ones with a list of batches booked, in which no batch occurs twice, every batch was
  attempted, and every batch whose attempt reported success occurs.\<close>

theorem apply_exactly_once:
  assumes "\<forall>x \<in> set xs. validate lib chk (snd x) = None \<and> fmlookup (p_batches p) (b_ID (snd x)) = None"
    and "\<forall>x \<in> set xs. \<forall>y \<in> set xs. b_ID (snd x) = b_ID (snd y) \<longrightarrow> snd x = snd y"
  shows "\<exists>bs. snd (attempts xs p) = book_all bs p \<and> distinct (map (b_ID \<circ> snd) bs) \<and>
    snd ` set bs \<subseteq> snd ` set xs \<and>
    (\<forall>i < length xs. fst (attempts xs p) ! i = None \<longrightarrow> snd (xs ! i) \<in> snd ` set bs)"
proof -
  have "\<exists>bs. accounted xs p bs" using assms
  proof (induction xs rule: rev_induct)
    case Nil
    have "accounted [] p []" by (simp add: accounted_def attempts_def)
    then show ?case ..
  next
    case (snoc x xs)
    then obtain bs where "accounted xs p bs" by auto
    moreover have "entries_valid (b_Entries (snd x))" using snoc.prems(1) by (simp add: validate_iff)
    moreover have "fmlookup (p_batches p) (b_ID (snd x)) = None" using snoc.prems(1) by simp
    moreover have "\<forall>c \<in> snd ` set xs. b_ID c = b_ID (snd x) \<longrightarrow> c = snd x" using snoc.prems(2) by auto
    ultimately show ?case using accounted_step [of xs p bs "snd x" "fst x"] by simp
  qed
  then show ?thesis unfolding accounted_def .
qed

theorem apply_exactly_once_witness:
  "\<exists>bs. snd (attempts [(sample_tx CommitUnanswered 5, sample_batch), (sample_tx CommitDone 6, sample_batch)]
     sample_panel) = book_all bs sample_panel \<and> distinct (map (b_ID \<circ> snd) bs) \<and> length bs \<le> 1"
proof -
  let ?xs = "[(sample_tx CommitUnanswered 5, sample_batch), (sample_tx CommitDone 6, sample_batch)]"
  have p: "p_batches sample_panel = fmempty" by (simp add: sample_panel_def)
  obtain bs where bs: "snd (attempts ?xs sample_panel) = book_all bs sample_panel"
      "distinct (map (b_ID \<circ> snd) bs)" "snd ` set bs \<subseteq> snd ` set ?xs"
    using apply_exactly_once [of ?xs line_lib True sample_panel] sample_batch_valid p by auto
  have "set (map (b_ID \<circ> snd) bs) \<subseteq> {b_ID sample_batch}" using bs(3) by auto
  then have "card (set (map (b_ID \<circ> snd) bs)) \<le> card {b_ID sample_batch}" by (intro card_mono) simp_all
  then have "length bs \<le> 1" using distinct_card [OF bs(2)] by simp
  with bs show ?thesis by blast
qed

text \<open>Without faults a batch is booked. When no statement fails, the node exists, the batch is new
  and not empty, its amounts can be billed and their sum fits 64 bits, \<^verbatim>\<open>ApplyBatch\<close> succeeds and
  books the batch.\<close>

theorem apply_succeeds:
  assumes "no_faults env" and "validate lib chk b = None" and "\<not> Empty b"
    and "hex_decode (b_PayloadSHA256 b) = Some h" and "length h = 32"
    and "list_all (billable (b_TrafficRate b)) (b_Entries b)" and "raw_sum (b_Entries b) \<le> MaxInt64"
    and "fmlookup (p_ss_node p) (b_NodeID b) \<noteq> None" and "fmlookup (p_batches p) (b_ID b) = None"
  shows "ApplyBatch env b p = (None, book (tx_now env) b p)"
  using assms by (intro ApplyBatch_progress) (auto simp: validate_iff Empty_def)

theorem apply_succeeds_witness:
  "ApplyBatch (sample_tx CommitDone 5) sample_batch sample_panel = (None, book 5 sample_batch sample_panel)"
proof -
  have "no_faults (sample_tx CommitDone 5)" "tx_now (sample_tx CommitDone 5) = 5"
    by (simp_all add: no_faults_def sample_tx_def)
  then show ?thesis
    using apply_succeeds [OF _ sample_batch_valid _ sample_batch_facts(5) _ sample_billable,
        of "sample_tx CommitDone 5" sample_panel]
    by (simp add: sample_batch_facts Empty_def raw_sum_def MaxInt64_def sample_panel_def)
qed

text \<open>C31: The billed amount is the product of traffic and rate, up to the rounding of 64 bit floating
  point: for a rate of at most 10000 and a product of at most \<^term>\<open>2 ^ 62 :: int\<close> bytes it never fails, is not negative and differs from the
  exact product by at most one half and one part in \<^term>\<open>2 ^ 51 :: int\<close>.\<close>

theorem billed_accurate:
  assumes "0 \<le> raw" and "raw \<le> MaxInt64" and "0 < q" and "q \<le> 10000" and "of_int raw * q \<le> 2 ^ 62"
  shows "\<exists>v. billed raw (Fin q) = Inr v \<and> 0 \<le> v \<and>
    \<bar>of_int v - of_int raw * q\<bar> \<le> 1 / 2 + (of_int raw * q + 1) / 2 ^ 51"
  using assms by (rule billed_near)

theorem billed_accurate_witness: "\<exists>v. billed 1000 (Fin (3 / 2)) = Inr v \<and> 1499 \<le> v \<and> v \<le> 1501"
proof -
  obtain v where v: "billed 1000 (Fin (3 / 2)) = Inr v" "\<bar>of_int v - 1500 :: rat\<bar> \<le> 1 / 2 + 1501 / 2 ^ 51"
    using billed_accurate [of 1000 "3 / 2"] by (auto simp: MaxInt64_def)
  have "(1 / 2 + 1501 / 2 ^ 51 :: rat) \<le> 1" by simp
  with v(2) have "\<bar>of_int v - 1500 :: rat\<bar> \<le> 1" by linarith
  then have "(of_int \<bar>v - 1500\<bar> :: rat) \<le> of_int 1" by simp
  then have "\<bar>v - 1500\<bar> \<le> 1" by (simp only: of_int_le_iff)
  with v(1) show ?thesis by auto
qed

text \<open>The overflow check of the billed amount lets the first overflowing value pass: the largest
  \<^verbatim>\<open>int64\<close> becomes \<^term>\<open>2 ^ 63 :: int\<close> as a \<^verbatim>\<open>float64\<close>, which is not greater than
  \<^verbatim>\<open>math.MaxInt64\<close> in the same type, and its conversion is the smallest \<^verbatim>\<open>int64\<close>; the user's counter
  would decrease.\<close>

lemma billed_maximum_wraps: "billed MaxInt64 (Fin 1) = Inr MinInt64"
proof -
  have r: "rnd64 (2 ^ 63) = Fin (2 ^ 63)" by code_simp
  have "\<lfloor>(2 ^ 63 :: rat) + 1 / 2\<rfloor> = 2 ^ 63" by (simp add: floor_eq_iff)
  then have "f64_to_int64 (f64_round (Fin (2 ^ 63))) = MinInt64"
    by (simp add: trunc_rat_def int64_ok_def MaxInt64_def)
  with r show ?thesis by (simp add: billed_def max_int64_float Let_def)
qed

text \<open>C35: A second report within the same second is refused. The heartbeat update changes no row when
  the stored time is the current one, so that \<^verbatim>\<open>ReportTelemetry\<close>, which takes no changed row for a
  missing node, reports that the node disappeared and rolls the telemetry back, although no statement
  failed and the node exists.\<close>

theorem telemetry_same_second_fails:
  assumes "no_faults env" and "fmlookup (p_ss_node p) nodeID = Some n"
    and "ReportTelemetry env nodeID online uptime load p = (None, p')" and "no_faults env'"
    and "tx_now env' = tx_now env"
  shows "ReportTelemetry env' nodeID online' uptime' load' p' = (Some NodeDisappeared, p')"
proof -
  have "nr_node_heartbeat n \<noteq> tx_now env"
    using telemetry_beat(1) [OF assms(1,2), of online uptime load] assms(3) by auto
  then obtain m where m: "fmlookup (p_ss_node p') nodeID = Some m" "nr_node_heartbeat m = tx_now env"
    using telemetry_beat(2) [OF assms(1,2), of online uptime load] assms(3) by auto
  show ?thesis
    by (rule telemetry_beat(1) [OF assms(4) m(1)]) (simp add: m(2) assms(5))
qed

theorem telemetry_same_second_fails_witness:
  "\<exists>p'. ReportTelemetry (sample_tx CommitDone 5) 7 [] 60 ''0.1'' sample_panel = (None, p') \<and>
     ReportTelemetry (sample_tx CommitDone 5) 7 [] 60 ''0.1'' p' = (Some NodeDisappeared, p')"
proof -
  have nf: "no_faults (sample_tx CommitDone 5)" by (simp add: no_faults_def sample_tx_def)
  have n: "fmlookup (p_ss_node sample_panel) 7 = Some sample_ss_node" by (simp add: sample_panel_def)
  have "nr_node_heartbeat sample_ss_node \<noteq> tx_now (sample_tx CommitDone 5)"
    by (simp add: sample_ss_node_def sample_tx_def)
  then obtain p' where "ReportTelemetry (sample_tx CommitDone 5) 7 [] 60 ''0.1'' sample_panel = (None, p')"
    using telemetry_beat(2) [OF nf n, of "[]" 60 "''0.1''"] by blast
  with telemetry_same_second_fails [OF nf n this nf refl] show ?thesis by blast
qed

end
