(* ===== verification/Xray_Engine.thy ===== *)
theory Xray_Engine
  imports Database Session_Registry
begin

text \<open>
  The engine of \<^verbatim>\<open>internal/xrayadapter/engine.go\<close>: the configuration it builds for Xray-core, the
  hot update of users with its rollback, and the traffic counters that it drains and restores.

  Of Xray-core the model has what the engine calls: the VLESS user table (\<^verbatim>\<open>MemoryValidator\<close>, whose
  additions fail on a known email and whose removals fail on an unknown one), the named traffic
  counters, and the registration of the session controller. The parser of account ids, X25519 and
  the compilation and start of an instance are parameters. Every method of the engine runs under
  its mutex, so that each is one step; traffic of running sessions adds to counters between steps.
\<close>

subsection \<open>The user table of the inbound\<close>

record member =
  mb_Email :: string
  mb_ID :: "nat list"
  mb_Flow :: string

record validator =
  v_email :: "(string, member) fmap"
  v_users :: "(nat list, member) fmap"

definition ProcessUUID :: "nat list \<Rightarrow> nat list" where
  "ProcessUUID i = (i[6 := 0])[7 := 0]"

definition to_lower :: "string \<Rightarrow> string" where
  "to_lower = map (\<lambda>c. if CHR ''A'' \<le> c \<and> c \<le> CHR ''Z'' then char_of (of_char c + 32 :: nat) else c)"

datatype engine_error =
    KeyPadded
  | KeyLength
  | KeyInvalid
  | KeyMismatch
  | ListenInvalid
  | CompileConfig
  | ControllerRegistered
  | CreateCore
  | StartCore
  | NoStatsManager
  | NoInboundManager
  | GetInbound
  | NoInboundProvider
  | NoUserManager
  | EngineClosed
  | NeedsRestart
  | UserExists string
  | UserNotFound string
  | CompileUser int64
  | RollbackFailed engine_error "engine_error list"
  | NegativeCounter string
  | CloseFailed
  | Joined engine_error engine_error

definition AddUser :: "member \<Rightarrow> validator \<Rightarrow> engine_error option \<times> validator" where
  "AddUser m v =
     (if fmlookup (v_email v) (to_lower (mb_Email m)) \<noteq> None then (Some (UserExists (mb_Email m)), v)
      else (None, \<lparr>v_email = fmupd (to_lower (mb_Email m)) m (v_email v),
                   v_users = fmupd (ProcessUUID (mb_ID m)) m (v_users v)\<rparr>))"

definition RemoveUser :: "string \<Rightarrow> validator \<Rightarrow> engine_error option \<times> validator" where
  "RemoveUser email v =
     (case fmlookup (v_email v) (to_lower email) of
        None \<Rightarrow> (Some (UserNotFound email), v)
      | Some m \<Rightarrow> (None, \<lparr>v_email = fmdrop (to_lower email) (v_email v),
                         v_users = fmdrop (ProcessUUID (mb_ID m)) (v_users v)\<rparr>))"

definition memoryUser :: "(string \<Rightarrow> nat list option) \<Rightarrow> node \<Rightarrow> user \<Rightarrow> engine_error + member" where
  "memoryUser parse n u =
     (case parse (u_UUID u) of
        None \<Rightarrow> Inl (CompileUser (u_ID u))
      | Some i \<Rightarrow> Inr \<lparr>mb_Email = UserEmail (n_ID n) (u_ID u), mb_ID = i, mb_Flow = n_Flow n\<rparr>)"

subsection \<open>The engine\<close>

record engine =
  en_instance :: bool
  en_stats :: "(string, int64) fmap"
  en_users :: validator
  en_sessions :: registry
  en_registered :: bool
  en_snapshot :: snapshot
  en_retired :: "int64 fset"

subsubsection \<open>Configuration\<close>

datatype jvalue = JStr string | JNum int | JBool bool | JArr "jvalue list" | JObj "(string \<times> jvalue) list"

text \<open>\<^verbatim>\<open>base64.RawURLEncoding.EncodeToString\<close>.\<close>

definition base64_char :: "nat \<Rightarrow> char" where
  "base64_char n = char_of (if n < 26 then n + 65 else if n < 52 then n + 71 else if n < 62 then n - 4
     else if n = 62 then 45 else 95)"

fun base64_digits :: "nat list \<Rightarrow> nat list" where
  "base64_digits [] = []"
| "base64_digits [a] = [a div 4, a mod 4 * 16]"
| "base64_digits [a, b] = [a div 4, a mod 4 * 16 + b div 16, b mod 16 * 4]"
| "base64_digits (a # b # c # r) =
     [a div 4, a mod 4 * 16 + b div 16, b mod 16 * 4 + c div 64, c mod 64] @ base64_digits r"

definition base64_encode :: "nat list \<Rightarrow> string" where
  "base64_encode bs = map base64_char (base64_digits bs)"

definition verifyRealityKey :: "(nat list \<Rightarrow> nat list option) \<Rightarrow> string \<Rightarrow> string \<Rightarrow> engine_error + string" where
  "verifyRealityKey x25519 privateKey publicText =
     (let privateText = trim_space privateKey in
      if CHR ''='' \<in> set privateText then Inl KeyPadded
      else case base64_decode privateText of
        None \<Rightarrow> Inl KeyLength
      | Some bytes \<Rightarrow>
          if length bytes \<noteq> 32 then Inl KeyLength
          else case x25519 bytes of
            None \<Rightarrow> Inl KeyInvalid
          | Some public \<Rightarrow>
              if base64_encode public \<noteq> publicText then Inl KeyMismatch else Inr privateText)"

definition client_json :: "node \<Rightarrow> user \<Rightarrow> jvalue" where
  "client_json n u = JObj [(''id'', JStr (u_UUID u)), (''email'', JStr (UserEmail (n_ID n) (u_ID u))),
     (''level'', JNum 0), (''flow'', JStr (n_Flow n))]"

definition reality_json :: "node \<Rightarrow> string \<Rightarrow> jvalue" where
  "reality_json n privateText = JObj ([(''show'', JBool False), (''target'', JStr (n_Target n)), (''xver'', JNum 0),
     (''serverNames'', JArr [JStr (n_ServerName n)]), (''privateKey'', JStr privateText),
     (''shortIds'', JArr [JStr (n_ShortID n)])] @
     (if n_MinClientVersion n \<noteq> [] then [(''minClientVer'', JStr (n_MinClientVersion n))] else []))"

definition inbound_json :: "snapshot \<Rightarrow> string \<Rightarrow> int \<Rightarrow> string \<Rightarrow> jvalue" where
  "inbound_json s host portNum privateText = JObj [(''tag'', JStr ''vless-reality-in''), (''listen'', JStr host),
     (''port'', JNum portNum), (''protocol'', JStr ''vless''),
     (''settings'', JObj [(''clients'', JArr (map (client_json (s_Node s)) (s_Users s))),
        (''decryption'', JStr ''none'')]),
     (''streamSettings'', JObj [(''network'', JStr ''raw''), (''security'', JStr ''reality''),
        (''realitySettings'', reality_json (s_Node s) privateText)])]"

definition config_json :: "jvalue \<Rightarrow> jvalue" where
  "config_json inbound = JObj [(''log'', JObj [(''loglevel'', JStr ''warning'')]), (''stats'', JObj []),
     (''policy'', JObj [(''levels'', JObj [(''0'', JObj [(''statsUserUplink'', JBool True),
        (''statsUserDownlink'', JBool True), (''statsUserOnline'', JBool True)])])]),
     (''inbounds'', JArr [inbound]),
     (''outbounds'', JArr [JObj [(''tag'', JStr ''direct''), (''protocol'', JStr ''freedom'')],
        JObj [(''tag'', JStr ''blocked''), (''protocol'', JStr ''blackhole'')]]),
     (''routing'', JObj [(''domainStrategy'', JStr ''AsIs''), (''rules'', JArr [])])]"

definition BuildConfig :: "(nat list \<Rightarrow> nat list option) \<Rightarrow> snapshot \<Rightarrow> string \<Rightarrow> string \<Rightarrow> engine_error + jvalue" where
  "BuildConfig x25519 s listen privateKey =
     (case verifyRealityKey x25519 privateKey (n_RealityPublicKey (s_Node s)) of
        Inl e \<Rightarrow> Inl e
      | Inr privateText \<Rightarrow>
          (case SplitHostPort listen of
             None \<Rightarrow> Inl ListenInvalid
           | Some (host, portText) \<Rightarrow>
               (case parse_int64 portText of
                  None \<Rightarrow> Inl ListenInvalid
                | Some p \<Rightarrow> Inr (config_json (inbound_json s host p privateText)))))"

subsubsection \<open>Start\<close>

text \<open>
  What happens outside: the compilation of the configuration, the creation and start of the instance
  and its features. A new instance has the configured users and no counters.
\<close>

record inbound_features =
  if_manager :: bool  \<comment> \<open>the instance has an inbound manager\<close>
  if_handler :: bool  \<comment> \<open>the manager knows the tag \<^verbatim>\<open>vless-reality-in\<close>\<close>
  if_provider :: bool  \<comment> \<open>the handler exposes its inbound\<close>
  if_users :: bool  \<comment> \<open>the inbound manages users\<close>

definition inboundUserManager :: "inbound_features \<Rightarrow> engine_error option" where
  "inboundUserManager f =
     (if \<not> if_manager f then Some NoInboundManager
      else if \<not> if_handler f then Some GetInbound
      else if \<not> if_provider f then Some NoInboundProvider
      else if \<not> if_users f then Some NoUserManager
      else None)"

record start_env =
  se_x25519 :: "nat list \<Rightarrow> nat list option"
  se_parse :: "string \<Rightarrow> nat list option"
  se_compile :: bool
  se_create :: bool
  se_start :: bool
  se_stats :: bool
  se_inbound :: inbound_features

fun load_users :: "(string \<Rightarrow> nat list option) \<Rightarrow> node \<Rightarrow> user list \<Rightarrow> validator \<Rightarrow> validator option" where
  "load_users parse n [] v = Some v"
| "load_users parse n (u # us) v =
     (case memoryUser parse n u of
        Inl _ \<Rightarrow> None
      | Inr m \<Rightarrow>
          (case AddUser m v of
             (Some _, _) \<Rightarrow> None
           | (None, v') \<Rightarrow> load_users parse n us v'))"

text \<open>The result, and whether a session controller is registered afterwards.\<close>

definition Start :: "start_env \<Rightarrow> snapshot \<Rightarrow> config \<Rightarrow> string \<Rightarrow> bool \<Rightarrow> (engine_error + engine) \<times> bool" where
  "Start env s cfg privateKey registered =
     (case BuildConfig (se_x25519 env) s (c_Listen cfg) privateKey of
        Inl e \<Rightarrow> (Inl e, registered)
      | Inr json \<Rightarrow>
          if \<not> se_compile env then (Inl CompileConfig, registered)
          else
            let sessions = New s cfg in
            if registered then (Inl ControllerRegistered, registered)
            else if \<not> se_create env then (Inl CreateCore, False)
            else (case load_users (se_parse env) (s_Node s) (s_Users s) \<lparr>v_email = fmempty, v_users = fmempty\<rparr> of
                    None \<Rightarrow> (Inl CreateCore, False)
                  | Some v \<Rightarrow>
                      if \<not> se_start env then (Inl StartCore, False)
                      else if \<not> se_stats env then (Inl NoStatsManager, False)
                      else (case inboundUserManager (se_inbound env) of
                              Some e \<Rightarrow> (Inl e, False)
                            | None \<Rightarrow>
                                (Inr \<lparr>en_instance = True, en_stats = fmempty, en_users = v, en_sessions = sessions,
                                   en_registered = True, en_snapshot = s, en_retired = {||}\<rparr>, True))))"

subsubsection \<open>Update of users\<close>

definition dataPlaneNodeEqual :: "node \<Rightarrow> node \<Rightarrow> bool" where
  "dataPlaneNodeEqual left right \<longleftrightarrow>
     n_ID left = n_ID right \<and> f64_eq (n_TrafficRate left) (n_TrafficRate right) \<and>
     n_ServerName left = n_ServerName right \<and> n_Target left = n_Target right \<and>
     n_RealityPublicKey left = n_RealityPublicKey right \<and> n_ShortID left = n_ShortID right \<and>
     n_Fingerprint left = n_Fingerprint right \<and> n_Flow left = n_Flow right \<and>
     n_Transport left = n_Transport right \<and> n_MinClientVersion left = n_MinClientVersion right"

definition CanApply :: "snapshot \<Rightarrow> engine \<Rightarrow> bool" where
  "CanApply next_s e = dataPlaneNodeEqual (s_Node (en_snapshot e)) (s_Node next_s)"

definition usersByID :: "user list \<Rightarrow> (int64, user) fmap" where
  "usersByID users = foldl (\<lambda>m u. fmupd (u_ID u) u m) fmempty users"

text \<open>The users of the first map that the second does not have with the same UUID, ordered by id.\<close>

definition changed_users :: "(int64, user) fmap \<Rightarrow> (int64, user) fmap \<Rightarrow> user list" where
  "changed_users a b =
     filter (\<lambda>u. case fmlookup b (u_ID u) of None \<Rightarrow> True | Some w \<Rightarrow> u_UUID u \<noteq> u_UUID w)
       (map (\<lambda>i. the (fmlookup a i)) (sorted_list_of_fset (fmdom a)))"

fun remove_loop :: "int64 \<Rightarrow> user list \<Rightarrow> user list \<Rightarrow> validator \<Rightarrow> engine_error option \<times> user list \<times> validator" where
  "remove_loop nodeID [] removed v = (None, removed, v)"
| "remove_loop nodeID (u # us) removed v =
     (case RemoveUser (UserEmail nodeID (u_ID u)) v of
        (Some e, v') \<Rightarrow> (Some e, removed, v')
      | (None, v') \<Rightarrow> remove_loop nodeID us (removed @ [u]) v')"

fun add_loop :: "(string \<Rightarrow> nat list option) \<Rightarrow> node \<Rightarrow> user list \<Rightarrow> user list \<Rightarrow> validator \<Rightarrow>
    engine_error option \<times> user list \<times> validator" where
  "add_loop parse n [] added v = (None, added, v)"
| "add_loop parse n (u # us) added v =
     (case memoryUser parse n u of
        Inl e \<Rightarrow> (Some e, added, v)
      | Inr m \<Rightarrow>
          (case AddUser m v of
             (Some e, v') \<Rightarrow> (Some e, added, v')
           | (None, v') \<Rightarrow> add_loop parse n us (added @ [u]) v'))"

fun rollback_removes :: "int64 \<Rightarrow> user list \<Rightarrow> validator \<Rightarrow> engine_error list \<times> validator" where
  "rollback_removes nodeID [] v = ([], v)"
| "rollback_removes nodeID (u # us) v =
     (case RemoveUser (UserEmail nodeID (u_ID u)) v of
        (err, v') \<Rightarrow> (case rollback_removes nodeID us v' of
           (errs, v'') \<Rightarrow> ((case err of None \<Rightarrow> errs | Some e \<Rightarrow> e # errs), v'')))"

fun rollback_adds :: "(string \<Rightarrow> nat list option) \<Rightarrow> node \<Rightarrow> user list \<Rightarrow> validator \<Rightarrow> engine_error list \<times> validator" where
  "rollback_adds parse n [] v = ([], v)"
| "rollback_adds parse n (u # us) v =
     (case (case memoryUser parse n u of Inl e \<Rightarrow> (Some e, v) | Inr m \<Rightarrow> AddUser m v) of
        (err, v') \<Rightarrow> (case rollback_adds parse n us v' of
           (errs, v'') \<Rightarrow> ((case err of None \<Rightarrow> errs | Some e \<Rightarrow> e # errs), v'')))"

definition rollbackUsers :: "(string \<Rightarrow> nat list option) \<Rightarrow> node \<Rightarrow> user list \<Rightarrow> user list \<Rightarrow> engine_error \<Rightarrow>
    validator \<Rightarrow> engine_error \<times> validator" where
  "rollbackUsers parse n added removed cause v =
     (case rollback_removes (n_ID n) added v of
        (errs, v') \<Rightarrow> (case rollback_adds parse n removed v' of
           (errs', v'') \<Rightarrow> (if errs @ errs' = [] then cause else RollbackFailed cause (errs @ errs'), v'')))"

text \<open>\<^term>\<open>None\<close> is the panic of the session registry.\<close>

definition Apply :: "(string \<Rightarrow> nat list option) \<Rightarrow> snapshot \<Rightarrow> engine \<Rightarrow>
    (engine \<times> nat list \<times> (engine_error + int64 list)) option" where
  "Apply parse next_s e =
     (if \<not> en_instance e then Some (e, [], Inl EngineClosed)
      else if \<not> dataPlaneNodeEqual (s_Node (en_snapshot e)) (s_Node next_s) then Some (e, [], Inl NeedsRestart)
      else
        let n = s_Node (en_snapshot e);
            oldByID = usersByID (s_Users (en_snapshot e));
            newByID = usersByID (s_Users next_s);
            rollback = (\<lambda>added removed cause v. case rollbackUsers parse n added removed cause v of
               (err, v') \<Rightarrow> Some (e\<lparr>en_users := v'\<rparr>, [], Inl err))
        in case remove_loop (n_ID n) (changed_users oldByID newByID) [] (en_users e) of
             (Some err, removed, v) \<Rightarrow> rollback [] removed err v
           | (None, removed, v) \<Rightarrow>
               (case add_loop parse (s_Node next_s) (changed_users newByID oldByID) [] v of
                  (Some err, added, v') \<Rightarrow> rollback added removed err v'
                | (None, added, v') \<Rightarrow>
                    (case Update next_s (en_sessions e) of
                       None \<Rightarrow> None
                     | Some (sessions, callbacks, revoked) \<Rightarrow>
                         Some (e\<lparr>en_users := v', en_sessions := sessions,
                             en_retired := ((en_retired e |\<union>| (fmdom oldByID |-| fmdom newByID)) |-| fmdom newByID),
                             en_snapshot := next_s\<rparr>, callbacks, Inr revoked))))"

subsubsection \<open>Counters\<close>

definition counter_name :: "int64 \<Rightarrow> int64 \<Rightarrow> string \<Rightarrow> string" where
  "counter_name nodeID uid direction =
     ''user>>>'' @ UserEmail nodeID uid @ ''>>>traffic>>>'' @ direction"

definition takeCounter :: "string \<Rightarrow> (string, int64) fmap \<Rightarrow> (engine_error + int64) \<times> (string, int64) fmap" where
  "takeCounter name m =
     (case fmlookup m name of
        None \<Rightarrow> (Inr 0, m)
      | Some v \<Rightarrow>
          let m0 = fmupd name 0 m in
          if v < 0 then (Inl (NegativeCounter name), fmupd name (wrap64 (0 + v)) m0) else (Inr v, m0))"

fun drain_loop :: "int64 \<Rightarrow> int64 list \<Rightarrow> engine \<Rightarrow> (engine_error + entry list) \<times> engine" where
  "drain_loop nodeID [] e = (Inr [], e)"
| "drain_loop nodeID (uid # uids) e =
     (case takeCounter (counter_name nodeID uid ''uplink'') (en_stats e) of
        (Inl err, m) \<Rightarrow> (Inl err, e\<lparr>en_stats := m\<rparr>)
      | (Inr uplink, m) \<Rightarrow>
          (case takeCounter (counter_name nodeID uid ''downlink'') m of
             (Inl err, m') \<Rightarrow> (Inl err, e\<lparr>en_stats := m'\<rparr>)
           | (Inr downlink, m') \<Rightarrow>
               let e1 = e\<lparr>en_stats := m'\<rparr>;
                   e2 = (if \<not> (uplink \<noteq> 0 \<or> downlink \<noteq> 0) \<and> uid |\<in>| en_retired e \<and>
                            \<not> HasUserSessions (en_sessions e) uid
                         then e1\<lparr>en_retired := en_retired e1 |-| {|uid|}\<rparr> else e1);
                   new = (if uplink \<noteq> 0 \<or> downlink \<noteq> 0
                          then [\<lparr>e_UserID = uid, e_Uplink = uplink, e_Downlink = downlink\<rparr>] else [])
               in (case drain_loop nodeID uids e2 of
                     (Inl err, e3) \<Rightarrow> (Inl err, e3)
                   | (Inr entries, e3) \<Rightarrow> (Inr (new @ entries), e3))))"

definition drainable :: "engine \<Rightarrow> int64 fset" where
  "drainable e = fset_of_list (map u_ID (s_Users (en_snapshot e))) |\<union>| en_retired e"

definition drainLocked :: "engine \<Rightarrow> (engine_error + entry list) \<times> engine" where
  "drainLocked e = drain_loop (n_ID (s_Node (en_snapshot e))) (sorted_list_of_fset (drainable e)) e"

definition Drain :: "engine \<Rightarrow> (engine_error + entry list) \<times> engine" where
  "Drain e = drainLocked e"

definition add_counter :: "string \<Rightarrow> int64 \<Rightarrow> (string, int64) fmap \<Rightarrow> (string, int64) fmap" where
  "add_counter name delta m =
     (case fmlookup m name of None \<Rightarrow> m | Some v \<Rightarrow> fmupd name (wrap64 (v + delta)) m)"

definition restore_entry :: "int64 \<Rightarrow> (string, int64) fmap \<Rightarrow> entry \<Rightarrow> (string, int64) fmap" where
  "restore_entry nodeID m x = add_counter (counter_name nodeID (e_UserID x) ''downlink'') (e_Downlink x)
     (add_counter (counter_name nodeID (e_UserID x) ''uplink'') (e_Uplink x) m)"

definition Restore :: "entry list \<Rightarrow> engine \<Rightarrow> engine" where
  "Restore entries e =
     e\<lparr>en_stats := foldl (restore_entry (n_ID (s_Node (en_snapshot e)))) (en_stats e) entries\<rparr>"

text \<open>\<^verbatim>\<open>CloseAndDrain\<close> returns the entries beside the joined errors.\<close>

definition CloseAndDrain :: "bool \<Rightarrow> engine \<Rightarrow> entry list \<times> engine_error option \<times> engine \<times> nat list" where
  "CloseAndDrain close_ok e =
     (if \<not> en_instance e then ([], None, e, [])
      else
        let (sessions, callbacks) = Close (en_sessions e);
            e1 = e\<lparr>en_sessions := sessions, en_instance := False, en_registered := False\<rparr>
        in case drainLocked e1 of
             (Inl err, e2) \<Rightarrow> ([], Some (if close_ok then err else Joined CloseFailed err), e2, callbacks)
           | (Inr entries, e2) \<Rightarrow> (entries, if close_ok then None else Some CloseFailed, e2, callbacks))"

text \<open>The queries of the engine take its mutex and ask the registry.\<close>

definition engine_Online :: "int \<Rightarrow> engine \<Rightarrow> (int64, (string, int) fmap) fmap" where
  "engine_Online now e = Online now (en_sessions e)"

definition SessionMetrics :: "engine \<Rightarrow> metrics" where
  "SessionMetrics e = Metrics (en_sessions e)"

definition engine_Snapshot :: "engine \<Rightarrow> snapshot" where
  "engine_Snapshot e = en_snapshot e"

declare engine_Snapshot_def [simp]

definition FlattenOnline :: "(int64, (string, int) fmap) fmap \<Rightarrow> (int64 \<times> string list) list" where
  "FlattenOnline online =
     map (\<lambda>uid. (uid, sorted_list_of_fset (fmdom (the (fmlookup online uid)))))
       (filter (\<lambda>uid. fmdom (the (fmlookup online uid)) \<noteq> {||}) (sorted_list_of_fset (fmdom online)))"

end
