(* ===== verification/Lifecycle.thy ===== *)
theory Lifecycle
  imports Ledger Xray_Engine "HOL-Library.Signed_Division"
begin

text \<open>
  \<^verbatim>\<open>internal/lifecycle/run.go\<close>: the start of the service, its main loop, the periodic report and
  the refresh of the authorization, the reload of the engine and the shutdown.

  The runtime state holds the state of the components the service drives: the engine, the outbox
  directory, and the tables of the panel behind the database handle. Each operation takes the
  outcomes of the system calls, statements and library calls it makes as a record, and returns the
  new state with its error. \<^term>\<open>None\<close> is a panic, which ends the process. The structured log is a
  list of events.
\<close>

subsection \<open>Data\<close>

datatype run_error =
    OutboxError outbox_error
  | DbError db_error
  | EngineError engine_error
  | PersistTraffic outbox_error
  | PersistBeforeUpdate outbox_error
  | ApplyUpdate engine_error
  | PersistBeforeReload outbox_error
  | PersistRollbackFailed outbox_error engine_error
  | ConfigRollbackFailed engine_error engine_error
  | ConfigRolledBack engine_error
  | OutboxLimit int64
  | SnapshotTooOld
  | RealitySecret secret_error
  | DatabaseSecret secret_error
  | DatabasePing
  | ReplayOutbox run_error
  | StateDirNotDirectory
  | InspectStateDir
  | CreateStateDir
  | SecureStateDir
  | OpenLock
  | StateDirLocked
  | Canceled
  | DeadlineExceeded
  | JoinedErrors "run_error list"

datatype log_event =
    ReplayDeferred run_error
  | TelemetryDeferred db_error
  | SessionsRejected string uint64
  | SessionTotals int64 int64 int64
  | CapacityWarning int64
  | UserIsolated int64 db_error
  | RefreshFailed db_error
  | AuthorizationApplied nat
  | ServiceDraining

record runtimeState =
  rs_cfg :: config
  rs_db :: panel
  rs_store :: store
  rs_dir :: directory
  rs_engine :: engine
  rs_registered :: bool  \<comment> \<open>a session controller is registered in the process\<close>
  rs_privateKey :: string
  rs_started :: int64
  rs_lastAuth :: int64
  rs_lastRejected :: "(string, uint64) fmap"

text \<open>\<^verbatim>\<open>errors.Join\<close> drops the errors that are nil.\<close>

definition join_errors :: "run_error option list \<Rightarrow> run_error option" where
  "join_errors es = (case List.map_filter id es of [] \<Rightarrow> None | xs \<Rightarrow> Some (JoinedErrors xs))"

subsection \<open>Traffic\<close>

record persisting =
  ps_rnd :: "nat list option"
  ps_now :: int64
  ps_saving :: saving

definition persist :: "batch_lib \<Rightarrow> persisting \<Rightarrow> store \<Rightarrow> entry list \<Rightarrow> snapshot \<Rightarrow> directory \<Rightarrow>
    (outbox_error option \<times> directory) option" where
  "persist lib ps st entries s d =
     (if length entries = 0 then Some (None, d)
      else case NewBatch lib (ps_rnd ps) (n_ID (s_Node s)) (n_ConfigurationVersion (s_Node s))
             (n_TrafficRate (s_Node s)) entries (ps_now ps) of
        Inl RandUnavailable \<Rightarrow> None
      | Inl e \<Rightarrow> Some (Some e, d)
      | Inr b \<Rightarrow> (let r = Save lib (ps_saving ps) st b d in Some (fst r, saved_dir d r)))"

record replaying =
  rp_reading :: reading
  rp_tx :: "nat \<Rightarrow> tx_env"
  rp_remove :: "nat \<Rightarrow> bool"
  rp_sync :: "nat \<Rightarrow> bool \<times> bool"

fun replay_loop :: "replaying \<Rightarrow> store \<Rightarrow> nat \<Rightarrow> batch_file list \<Rightarrow> panel \<Rightarrow> directory \<Rightarrow>
    run_error option \<times> panel \<times> directory" where
  "replay_loop rp st k [] p d = (None, p, d)"
| "replay_loop rp st k (f # fs) p d =
     (case ApplyBatch (rp_tx rp k) (bf_Batch f) p of
        (Some e, p') \<Rightarrow> (Some (DbError e), p', d)
      | (None, p') \<Rightarrow>
          (case Remove (rp_remove rp k) (rp_sync rp k) st (bf_Path f) d of
             (Some e, d') \<Rightarrow> (Some (OutboxError e), p', d')
           | (None, d') \<Rightarrow> replay_loop rp st (Suc k) fs p' d'))"

definition replay :: "batch_lib \<Rightarrow> replaying \<Rightarrow> store \<Rightarrow> panel \<Rightarrow> directory \<Rightarrow>
    run_error option \<times> panel \<times> directory" where
  "replay lib rp st p d =
     (case List lib (rp_reading rp) st d of
        Inl e \<Rightarrow> (Some (OutboxError e), p, d)
      | Inr files \<Rightarrow> replay_loop rp st 0 files p d)"

subsection \<open>Report\<close>

text \<open>\<^verbatim>\<open>strings.Fields\<close>.\<close>

primrec space_fields :: "nat \<Rightarrow> string \<Rightarrow> string \<Rightarrow> string list" where
  "space_fields 0 cur s = (if cur = [] then [] else [cur])"
| "space_fields (Suc n) cur s =
     (case s of
        [] \<Rightarrow> if cur = [] then [] else [cur]
      | c # cs \<Rightarrow>
          (case find (has_prefix s) spaces of
             Some w \<Rightarrow> (if cur = [] then [] else [cur]) @ space_fields n [] (drop (length w) s)
           | None \<Rightarrow> space_fields n (cur @ [c]) cs))"

definition systemLoad :: "string option \<Rightarrow> int64 \<Rightarrow> metrics \<Rightarrow> string" where
  "systemLoad loadavg goroutines m =
     (let suffix = '' t='' @ itoa (mt_TCPActive m) @ '' x='' @ itoa (mt_XUDPActive m);
          fs = (case loadavg of None \<Rightarrow> [] | Some data \<Rightarrow> space_fields (Suc (length data)) [] data)
      in if length fs \<ge> 3 then join_with ''/'' (take 3 fs) @ suffix
         else ''g='' @ itoa goroutines @ suffix)"

text \<open>The loop over the map of rejections, in the order of the reasons.\<close>

fun rejected_loop :: "(string \<times> uint64) list \<Rightarrow> (string, uint64) fmap \<Rightarrow> log_event list \<times> (string, uint64) fmap" where
  "rejected_loop [] m = ([], m)"
| "rejected_loop ((reason, n) # rs) m =
     (let previous = (case fmlookup m reason of None \<Rightarrow> 0 | Some v \<Rightarrow> v);
          (evs, m') = rejected_loop rs (fmupd reason n m)
      in ((if n > previous then [SessionsRejected reason (n - previous)] else []) @ evs, m'))"

definition logSessionMetrics :: "metrics \<Rightarrow> (string, uint64) fmap \<Rightarrow> log_event list \<times> (string, uint64) fmap" where
  "logSessionMetrics m last_rejected =
     (let (evs, m') = rejected_loop (map (\<lambda>r. (r, the (fmlookup (mt_Rejected m) r)))
            (sorted_list_of_fset (fmdom (mt_Rejected m)))) last_rejected
      in (evs @ [SessionTotals (mt_TCPActive m) (mt_XUDPActive m) (mt_Handshakes m)], m'))"

record reporting =
  rv_persist :: persisting
  rv_replay :: replaying
  rv_order :: "(int64 \<times> string list) list \<Rightarrow> (int64 \<times> string list) list"  \<comment> \<open>order of the map\<close>
  rv_tx :: tx_env
  rv_now :: int64
  rv_loadavg :: "string option"
  rv_goroutines :: int64
  rv_reading :: reading

text \<open>What follows the replay: session metrics, telemetry, and the size of the outbox.\<close>

definition report_rest :: "reporting \<Rightarrow> runtimeState \<Rightarrow> runtimeState \<times> run_error option \<times> log_event list" where
  "report_rest rv s =
     (let online = rv_order rv (FlattenOnline (engine_Online (rv_now rv) (rs_engine s)));
          m = SessionMetrics (rs_engine s);
          (evs, rejected) = logSessionMetrics m (rs_lastRejected s);
          (terr, p) = ReportTelemetry (rv_tx rv) (c_NodeID (rs_cfg s)) online (rv_now rv - rs_started s)
             (systemLoad (rv_loadavg rv) (rv_goroutines rv) m) (rs_db s);
          s' = s\<lparr>rs_db := p, rs_lastRejected := rejected\<rparr>;
          evs' = evs @ (case terr of None \<Rightarrow> [] | Some e \<Rightarrow> [TelemetryDeferred e]);
          limit = c_OutboxMaxBytes (rs_cfg s)
      in case Size (rv_reading rv) (rs_dir s) of
           Inl e \<Rightarrow> (s', Some (OutboxError e), evs')
         | Inr used \<Rightarrow>
             if used \<ge> limit then (s', Some (OutboxLimit used), evs')
             else if used \<ge> wrap64 (limit * 8) sdiv 10 then (s', None, evs' @ [CapacityWarning used])
             else (s', None, evs'))"

definition report :: "batch_lib \<Rightarrow> reporting \<Rightarrow> runtimeState \<Rightarrow>
    (runtimeState \<times> run_error option \<times> log_event list) option" where
  "report lib rv s =
     (case Drain (rs_engine s) of
        (Inl e, en) \<Rightarrow> Some (s\<lparr>rs_engine := en\<rparr>, Some (EngineError e), [])
      | (Inr entries, en) \<Rightarrow>
          (case persist lib (rv_persist rv) (rs_store s) entries (engine_Snapshot en) (rs_dir s) of
             None \<Rightarrow> None
           | Some (Some e, d) \<Rightarrow>
               let en' = (if WasPublished (Some e) then en else Restore entries en)
               in Some (s\<lparr>rs_engine := en', rs_dir := d\<rparr>, Some (PersistTraffic e), [])
           | Some (None, d) \<Rightarrow>
               (case replay lib (rv_replay rv) (rs_store s) (rs_db s) d of
                  (rerr, p, d') \<Rightarrow>
                    let evs = (case rerr of None \<Rightarrow> [] | Some e \<Rightarrow> [ReplayDeferred e]) in
                    (case report_rest rv (s\<lparr>rs_engine := en, rs_db := p, rs_dir := d'\<rparr>) of
                       (s', err, evs') \<Rightarrow> Some (s', err, evs @ evs')))))"

subsection \<open>Reload\<close>

text \<open>\<open>rl_rollback\<close> is used by the start of the previous configuration, on either path.\<close>

record reloading =
  rl_parse :: "string \<Rightarrow> nat list option"
  rl_persist :: persisting
  rl_close :: bool
  rl_start :: start_env
  rl_rollback :: start_env

definition start_engine :: "start_env \<Rightarrow> snapshot \<Rightarrow> runtimeState \<Rightarrow> (engine_error + engine) \<times> bool" where
  "start_engine env snap s = Start env snap (rs_cfg s) (rs_privateKey s) (rs_registered s)"

text \<open>The update of a running engine.\<close>

definition reload_users :: "batch_lib \<Rightarrow> reloading \<Rightarrow> snapshot \<Rightarrow> runtimeState \<Rightarrow>
    (runtimeState \<times> run_error option \<times> log_event list) option" where
  "reload_users lib rl next_s s =
     (let previous = engine_Snapshot (rs_engine s) in
      case Drain (rs_engine s) of
        (Inl e, en) \<Rightarrow> Some (s\<lparr>rs_engine := en\<rparr>, Some (EngineError e), [])
      | (Inr entries, en) \<Rightarrow>
          (case persist lib (rl_persist rl) (rs_store s) entries previous (rs_dir s) of
             None \<Rightarrow> None
           | Some (Some e, d) \<Rightarrow>
               let en' = (if WasPublished (Some e) then en else Restore entries en)
               in Some (s\<lparr>rs_engine := en', rs_dir := d\<rparr>, Some (PersistBeforeUpdate e), [])
           | Some (None, d) \<Rightarrow>
               (case Apply (rl_parse rl) next_s en of
                  None \<Rightarrow> None
                | Some (en', callbacks, Inl e) \<Rightarrow>
                    Some (s\<lparr>rs_engine := en', rs_dir := d\<rparr>, Some (ApplyUpdate e), [])
                | Some (en', callbacks, Inr revoked) \<Rightarrow>
                    Some (s\<lparr>rs_engine := en', rs_dir := d\<rparr>, None, [AuthorizationApplied (length (s_Users next_s))]))))"

text \<open>The restart with another configuration.\<close>

definition reload_restart :: "batch_lib \<Rightarrow> reloading \<Rightarrow> snapshot \<Rightarrow> runtimeState \<Rightarrow>
    (runtimeState \<times> run_error option \<times> log_event list) option" where
  "reload_restart lib rl next_s s0 =
     (let previous = engine_Snapshot (rs_engine s0) in
      case CloseAndDrain (rl_close rl) (rs_engine s0) of
        (entries, closeErr, en, callbacks) \<Rightarrow>
          let s = s0\<lparr>rs_engine := en, rs_registered := en_registered en\<rparr> in
          case closeErr of
            Some e \<Rightarrow> Some (s, Some (EngineError e), [])
          | None \<Rightarrow>
              (case persist lib (rl_persist rl) (rs_store s) entries previous (rs_dir s) of
                 None \<Rightarrow> None
               | Some (Some e, d) \<Rightarrow>
                   (case start_engine (rl_rollback rl) previous s of
                      (Inl re, r) \<Rightarrow>
                        Some (s\<lparr>rs_dir := d, rs_registered := r\<rparr>, Some (PersistRollbackFailed e re), [])
                    | (Inr rollback, r) \<Rightarrow>
                        let rollback' = (if WasPublished (Some e) then rollback else Restore entries rollback)
                        in Some (s\<lparr>rs_dir := d, rs_engine := rollback', rs_registered := r\<rparr>,
                             Some (PersistBeforeReload e), []))
               | Some (None, d) \<Rightarrow>
                   (case start_engine (rl_start rl) next_s s of
                      (Inr engine, r) \<Rightarrow>
                        Some (s\<lparr>rs_dir := d, rs_engine := engine, rs_registered := r\<rparr>, None,
                          [AuthorizationApplied (length (s_Users next_s))])
                    | (Inl e, r) \<Rightarrow>
                        (case start_engine (rl_rollback rl) previous (s\<lparr>rs_registered := r\<rparr>) of
                           (Inl re, r') \<Rightarrow>
                             Some (s\<lparr>rs_dir := d, rs_registered := r'\<rparr>, Some (ConfigRollbackFailed e re), [])
                         | (Inr rollback, r') \<Rightarrow>
                             Some (s\<lparr>rs_dir := d, rs_engine := rollback, rs_registered := r'\<rparr>,
                               Some (ConfigRolledBack e), [])))))"

definition reload :: "batch_lib \<Rightarrow> reloading \<Rightarrow> snapshot \<Rightarrow> runtimeState \<Rightarrow>
    (runtimeState \<times> run_error option \<times> log_event list) option" where
  "reload lib rl next_s s =
     (if CanApply next_s (rs_engine s) then reload_users lib rl next_s s
      else reload_restart lib rl next_s s)"

text \<open>The functions of the libraries that a load of the snapshot uses.\<close>

record load_lib =
  ll_md5 :: "nat list \<Rightarrow> nat list"
  ll_marshal :: "node \<times> user list \<Rightarrow> nat list option"
  ll_sha256 :: "nat list \<Rightarrow> nat list"

record refreshing =
  rf_load :: load_env
  rf_now :: int64
  rf_reload :: reloading

definition isolated :: "(int64 \<times> db_error) list \<Rightarrow> log_event list" where
  "isolated ws = map (\<lambda>(i, e). UserIsolated i e) ws"

definition refresh :: "batch_lib \<Rightarrow> load_lib \<Rightarrow> refreshing \<Rightarrow> runtimeState \<Rightarrow>
    (runtimeState \<times> run_error option \<times> log_event list) option" where
  "refresh lib ll rf s =
     (case LoadSnapshot (ll_md5 ll) (ll_marshal ll) (ll_sha256 ll) (rf_load rf) (rs_db s) (c_NodeID (rs_cfg s)) of
        (Inl e, warnings) \<Rightarrow>
          if e = ErrNodeUnavailable then Some (s, Some (DbError e), [])
          else if rf_now rf - rs_lastAuth s \<ge> AuthStale (rs_cfg s) then Some (s, Some SnapshotTooOld, [RefreshFailed e])
          else Some (s, None, [RefreshFailed e])
      | (Inr snap, warnings) \<Rightarrow>
          let s' = s\<lparr>rs_lastAuth := rf_now rf\<rparr> in
          if s_Hash snap = s_Hash (engine_Snapshot (rs_engine s')) then Some (s', None, isolated warnings)
          else (case reload lib (rf_reload rf) snap s' of
                  None \<Rightarrow> None
                | Some (s'', err, evs) \<Rightarrow> Some (s'', err, isolated warnings @ evs)))"

subsection \<open>Shutdown\<close>

record stopping =
  sp_close :: bool
  sp_persist :: persisting
  sp_replay :: replaying

definition shutdown :: "batch_lib \<Rightarrow> stopping \<Rightarrow> runtimeState \<Rightarrow>
    (runtimeState \<times> run_error option \<times> log_event list) option" where
  "shutdown lib sp s =
     (case CloseAndDrain (sp_close sp) (rs_engine s) of
        (entries, closeErr, en, callbacks) \<Rightarrow>
          (case persist lib (sp_persist sp) (rs_store s) entries (engine_Snapshot en) (rs_dir s) of
             None \<Rightarrow> None
           | Some (persistErr, d) \<Rightarrow>
               (case replay lib (sp_replay sp) (rs_store s) (rs_db s) d of
                  (replayErr, p, d') \<Rightarrow>
                    Some (s\<lparr>rs_engine := en, rs_registered := en_registered en, rs_db := p, rs_dir := d'\<rparr>,
                      join_errors [map_option EngineError closeErr, map_option OutboxError persistErr, replayErr],
                      [ServiceDraining]))))"

end
