(* ===== verification/Service.thy ===== *)
theory Service
  imports Lifecycle
begin

text \<open>
  \<^verbatim>\<open>internal/lifecycle/run.go\<close>, the process level: the lock of the state directory, the start of
  the service, the validation command and the main loop with its shutdown.

  The select statement of the loop takes its cases in any order: a run is a list of the cases taken.
  Between two of them traffic is counted, sessions change and other clients write to the panel.
\<close>

subsection \<open>The state directory\<close>

datatype path_info = PathMissing | PathDirectory | PathOther | PathError

record locking =
  lk_path :: path_info  \<comment> \<open>what \<^verbatim>\<open>Lstat\<close> reports\<close>
  lk_mkdir :: bool
  lk_chmod :: bool
  lk_open :: bool

text \<open>Whether the lock is held, by this or another process, is part of the state. The directory and the lock
  file that the calls before \<^verbatim>\<open>flock\<close> create, and their modes, are not: the state directory is represented
  by its outbox.\<close>

definition lockStateDir :: "locking \<Rightarrow> bool \<Rightarrow> run_error option \<times> bool" where
  "lockStateDir lk locked =
     (case lk_path lk of
        PathOther \<Rightarrow> (Some StateDirNotDirectory, locked)
      | PathError \<Rightarrow> (Some InspectStateDir, locked)
      | _ \<Rightarrow>
          if \<not> lk_mkdir lk then (Some CreateStateDir, locked)
          else if \<not> lk_chmod lk then (Some SecureStateDir, locked)
          else if \<not> lk_open lk then (Some OpenLock, locked)
          else if locked then (Some StateDirLocked, locked)
          else (None, True))"

text \<open>Closing the file releases the lock even when the explicit unlock fails.\<close>

definition stateLock_Close :: "bool \<Rightarrow> bool" where
  "stateLock_Close locked = False"

definition clear :: "string \<Rightarrow> string" where
  "clear s = map (\<lambda>_. CHR 0x00) s"

subsection \<open>Start and validation\<close>

record host =
  ho_lstat :: "string \<Rightarrow> file_info option"
  ho_readFile :: "string \<Rightarrow> string option"
  ho_euid :: int
  ho_certs :: "string \<Rightarrow> bool"
  ho_register :: register_result
  ho_dsn :: bool
  ho_ping :: bool

record booting =
  bt_lock :: locking
  bt_reading :: reading
  bt_mkdir :: bool
  bt_chmod :: bool
  bt_started :: int64
  bt_lastAuth :: int64
  bt_replay :: replaying
  bt_load :: load_env
  bt_start :: start_env

text \<open>The state outside the process: the lock, the outbox directory and the panel.\<close>

record world =
  w_locked :: bool
  w_disk :: "directory option"
  w_panel :: panel

definition open_secrets :: "host \<Rightarrow> load_lib \<Rightarrow> config \<Rightarrow> run_error + string" where
  "open_secrets h ll cfg =
     (case ReadSecret (ho_lstat h) (ho_readFile h) (ho_euid h) (c_RealityPrivateKeyFile cfg) of
        Inl e \<Rightarrow> Inl (RealitySecret e)
      | Inr privateKey \<Rightarrow>
          (case ReadSecret (ho_lstat h) (ho_readFile h) (ho_euid h) (d_PasswordFile (c_Database cfg)) of
             Inl e \<Rightarrow> Inl (DatabaseSecret e)
           | Inr password \<Rightarrow>
               (case Database.Open (ho_readFile h) (ho_certs h) (ll_sha256 ll) (ho_register h) (ho_dsn h)
                  (c_Database cfg) password of
                  Inl e \<Rightarrow> Inl (DbError e)
                | Inr db \<Rightarrow> Inr privateKey)))"

definition Validate :: "host \<Rightarrow> load_lib \<Rightarrow> load_env \<Rightarrow> (nat list \<Rightarrow> nat list option) \<Rightarrow> config \<Rightarrow> panel \<Rightarrow>
    run_error option" where
  "Validate h ll le x25519 cfg p =
     (case open_secrets h ll cfg of
        Inl e \<Rightarrow> Some e
      | Inr privateKey \<Rightarrow>
          if \<not> ho_ping h then Some DatabasePing
          else (case LoadSnapshot (ll_md5 ll) (ll_marshal ll) (ll_sha256 ll) le p (c_NodeID cfg) of
                  (Inl e, warnings) \<Rightarrow> Some (DbError e)
                | (Inr snap, warnings) \<Rightarrow>
                    (case BuildConfig x25519 snap (c_Listen cfg) privateKey of
                       Inl e \<Rightarrow> Some (EngineError e)
                     | Inr json \<Rightarrow> None)))"

text \<open>From the opened database on: the outbox, the replay, the snapshot and the engine.\<close>

definition boot_components :: "batch_lib \<Rightarrow> load_lib \<Rightarrow> host \<Rightarrow> booting \<Rightarrow> config \<Rightarrow> string \<Rightarrow> world \<Rightarrow>
    (run_error + runtimeState) \<times> world" where
  "boot_components lib ll h bt cfg privateKey w =
     (case Outbox.Open lib (bt_reading bt) (bt_mkdir bt) (bt_chmod bt) (c_StateDir cfg) (c_NodeID cfg)
        (c_OutboxMaxBytes cfg) (w_disk w) of
        (Inl e, disk) \<Rightarrow> (Inl (OutboxError e), w\<lparr>w_disk := disk\<rparr>)
      | (Inr st, disk) \<Rightarrow>
          if \<not> ho_ping h then (Inl DatabasePing, w\<lparr>w_disk := disk\<rparr>)
          else
            (case replay lib (bt_replay bt) st (w_panel w) (the disk) of
               (rerr, p, d) \<Rightarrow>
                 let w' = w\<lparr>w_disk := Some d, w_panel := p\<rparr> in
                 (case rerr of
                    Some e \<Rightarrow> (Inl (ReplayOutbox e), w')
                  | None \<Rightarrow>
                      (case LoadSnapshot (ll_md5 ll) (ll_marshal ll) (ll_sha256 ll) (bt_load bt) p (c_NodeID cfg) of
                         (Inl e, warnings) \<Rightarrow> (Inl (DbError e), w')
                       | (Inr snap, warnings) \<Rightarrow>
                           (case Start (bt_start bt) snap cfg privateKey False of
                              (Inl e, r) \<Rightarrow> (Inl (EngineError e), w')
                            | (Inr en, r) \<Rightarrow>
                                (Inr \<lparr>rs_cfg = cfg, rs_db = p, rs_store = st, rs_dir = d, rs_engine = en,
                                  rs_registered = r, rs_privateKey = privateKey, rs_started = bt_started bt,
                                  rs_lastAuth = bt_lastAuth bt, rs_lastRejected = fmempty\<rparr>, w'))))))"

definition bootstrap :: "batch_lib \<Rightarrow> load_lib \<Rightarrow> host \<Rightarrow> booting \<Rightarrow> config \<Rightarrow> world \<Rightarrow>
    (run_error + runtimeState) \<times> world" where
  "bootstrap lib ll h bt cfg w =
     (case lockStateDir (bt_lock bt) (w_locked w) of
        (Some e, locked) \<Rightarrow> (Inl e, w\<lparr>w_locked := locked\<rparr>)
      | (None, locked) \<Rightarrow>
          let w1 = w\<lparr>w_locked := locked\<rparr>;
              fail = (\<lambda>e w'. (Inl e, w'\<lparr>w_locked := stateLock_Close (w_locked w')\<rparr>)) in
          (case open_secrets h ll cfg of
             Inl e \<Rightarrow> fail e w1
           | Inr privateKey \<Rightarrow>
               (case boot_components lib ll h bt cfg privateKey w1 of
                  (Inl e, w2) \<Rightarrow> fail e w2
                | (Inr s, w2) \<Rightarrow> (Inr s, w2))))"

subsection \<open>Main loop\<close>

datatype select_case =
    CtxDone run_error
  | ReportTick reporting
  | AuthTick refreshing
  | Elsewhere "(string, int64) fmap" panel registry

datatype loop_result =
    Running runtimeState
  | Stopped runtimeState run_error
  | Panicked

definition elsewhere :: "(string, int64) fmap \<Rightarrow> panel \<Rightarrow> registry \<Rightarrow> runtimeState \<Rightarrow> runtimeState" where
  "elsewhere m p r s = s\<lparr>rs_db := p, rs_engine := (rs_engine s)\<lparr>en_stats := m, en_sessions := r\<rparr>\<rparr>"

fun run_step :: "batch_lib \<Rightarrow> load_lib \<Rightarrow> select_case \<Rightarrow> runtimeState \<Rightarrow> (runtimeState \<times> run_error option) option" where
  "run_step lib ll (CtxDone e) s = Some (s, Some e)"
| "run_step lib ll (ReportTick rv) s = map_option (\<lambda>(s', err, evs). (s', err)) (report lib rv s)"
| "run_step lib ll (AuthTick rf) s = map_option (\<lambda>(s', err, evs). (s', err)) (refresh lib ll rf s)"
| "run_step lib ll (Elsewhere m p r) s = Some (elsewhere m p r s, None)"

fun run_loop :: "batch_lib \<Rightarrow> load_lib \<Rightarrow> select_case list \<Rightarrow> runtimeState \<Rightarrow> loop_result" where
  "run_loop lib ll [] s = Running s"
| "run_loop lib ll (c # cs) s =
     (case run_step lib ll c s of
        None \<Rightarrow> Panicked
      | Some (s', Some e) \<Rightarrow> Stopped s' e
      | Some (s', None) \<Rightarrow> run_loop lib ll cs s')"

datatype run_result =
    Serving runtimeState world
  | Returned "run_error option" "runtimeState option" world
  | Aborted

text \<open>\<^verbatim>\<open>time.NewTicker\<close> panics on an interval that is not positive.\<close>

definition Run :: "batch_lib \<Rightarrow> load_lib \<Rightarrow> host \<Rightarrow> booting \<Rightarrow> stopping \<Rightarrow> config \<Rightarrow> select_case list \<Rightarrow> world \<Rightarrow> run_result" where
  "Run lib ll h bt sp cfg cs w =
     (case bootstrap lib ll h bt cfg w of
        (Inl e, w') \<Rightarrow> Returned (Some e) None w'
      | (Inr s, w') \<Rightarrow>
          if AuthRefresh cfg \<le> 0 \<or> ReportEvery cfg \<le> 0 then Aborted
          else
            (case run_loop lib ll cs s of
               Running s' \<Rightarrow> Serving s' w'
             | Panicked \<Rightarrow> Aborted
             | Stopped s' e \<Rightarrow>
                 (case shutdown lib sp s' of
                    None \<Rightarrow> Aborted
                  | Some (s'', shutdownErr, evs) \<Rightarrow>
                      Returned (join_errors [if e = Canceled then None else Some e, shutdownErr]) (Some s'')
                        \<lparr>w_locked = stateLock_Close (w_locked w'), w_disk = Some (rs_dir s''), w_panel = rs_db s''\<rparr>)))"

end
