(* ===== verification/Authorization.thy ===== *)
theory Authorization
  imports Ledger
begin

text \<open>
  The authorization snapshot that \<^verbatim>\<open>LoadSnapshot\<close> builds from the panel tables: which users it
  holds, which it isolates with a warning, and what the validation of the node guarantees.
\<close>

lemma user_loop_Inr:
  "user_loop md5 ok rows = (Inr us, ws) \<Longrightarrow>
     us = List.map_filter (\<lambda>(i, r). case compile_row md5 i r of Inl _ \<Rightarrow> None | Inr u \<Rightarrow> Some u) rows \<and>
     ws = List.map_filter (\<lambda>(i, r). case compile_row md5 i r of Inl e \<Rightarrow> Some (i, e) | Inr _ \<Rightarrow> None) rows"
proof (induction rows arbitrary: us ws)
  case (Cons x rows)
  obtain i r where x: "x = (i, r)" by fastforce
  obtain res w where L: "user_loop md5 ok rows = (res, w)" by fastforce
  from Cons.prems have "ok i" by (auto simp: x split: if_splits)
  with Cons.prems L show ?case
    using Cons.IH by (auto simp: x List.map_filter_simps split: sum.splits)
qed (simp add: List.map_filter_simps)

lemma compile_row_id: "compile_row md5 i r = Inr u \<Longrightarrow> u_ID u = i"
  by (auto simp: compile_row_def compileUser_def split: if_splits sum.splits)

lemma map_filter_ids:
  assumes "\<And>x y. f x = Some y \<Longrightarrow> g y = h x"
  shows "map g (List.map_filter f xs) = map h (filter (\<lambda>x. f x \<noteq> None) xs)"
  by (induction xs) (auto simp: List.map_filter_simps assms split: option.splits)

lemma map_filter_mem: "y \<in> set (List.map_filter f xs) \<longleftrightarrow> (\<exists>x \<in> set xs. f x = Some y)"
  by (induction xs) (auto simp: List.map_filter_simps split: option.splits)

lemma sum_some:
  "(case s of Inl _ \<Rightarrow> None | Inr u \<Rightarrow> Some u) = Some v \<longleftrightarrow> s = Inr v"
  "(case s of Inl e \<Rightarrow> Some (i, e) | Inr _ \<Rightarrow> None) = Some (j, e') \<longleftrightarrow> i = j \<and> s = Inl e'"
  by (auto split: sum.splits)

lemma select_users_mem:
  "(i, r) \<in> set (select_users p n now) \<longleftrightarrow> fmlookup (p_user p) i = Some r \<and> authorized n now r"
proof -
  have "set (sorted_list_of_fset (fmdom (p_user p))) = fmdom' (p_user p)"
    by (simp add: sorted_list_of_fset.rep_eq fmdom'_alt_def)
  then show ?thesis by (force simp: select_users_def fmlookup_dom'_iff)
qed

lemma select_users_ids: "distinct (map fst (select_users p n now))"
proof -
  have "map fst (map (\<lambda>i. (i, the (fmlookup (p_user p) i))) xs) = xs" for xs by (simp add: comp_def)
  then have "distinct (map fst (map (\<lambda>i. (i, the (fmlookup (p_user p) i)))
      (sorted_list_of_fset (fmdom (p_user p)))))"
    by (simp only:) (simp add: sorted_list_of_fset.rep_eq)
  then show ?thesis unfolding select_users_def by (rule distinct_map_filter)
qed

lemma LoadSnapshot_Inr:
  assumes "LoadSnapshot md5 marshal sha256 env p nodeID = (Inr snap, ws)"
  obtains n us where "select_node p nodeID = Some n" "validateNode n = None"
    "user_loop md5 (le_scan env) (select_users (le_between env p) n (le_now env)) = (Inr us, ws)"
    "Finalize marshal sha256 \<lparr>s_Node = n, s_Users = us, s_LoadedAt = le_now env, s_Hash = []\<rparr> = Some snap"
  using assms unfolding LoadSnapshot_def
  by (auto split: if_splits option.splits sum.splits prod.splits)

lemma loaded_ids:
  assumes "user_loop md5 ok (select_users p n now) = (Inr us, ws)"
  shows "distinct (map u_ID us)"
proof -
  have "map u_ID us = map fst (filter (\<lambda>x. (case x of (i, r) \<Rightarrow> case compile_row md5 i r of
      Inl _ \<Rightarrow> None | Inr u \<Rightarrow> Some u) \<noteq> None) (select_users p n now))"
    using conjunct1 [OF user_loop_Inr [OF assms]]
    by (simp only:) (intro map_filter_ids, auto simp: compile_row_id split: sum.splits)
  then show ?thesis using select_users_ids by (simp add: distinct_map_filter)
qed

lemma validateNode_None:
  assumes "validateNode n = None"
  shows "0 < n_ID n \<and> n_ConfigurationVersion n \<noteq> 0 \<and> 1 \<le> n_PublicPort n \<and> n_PublicPort n \<le> 65535 \<and>
    \<not> bad_rate (n_TrafficRate n) \<and> validateHost (n_PublicHost n) = None \<and>
    validateDNSName (n_ServerName n) = None \<and>
    (\<exists>key. decodeBase64URL32 (n_RealityPublicKey n) = Inr key \<and> length key = 32) \<and>
    hex_decode (n_ShortID n) \<noteq> None \<and> length (n_ShortID n) \<le> 16"
proof -
  have "\<exists>key. decodeBase64URL32 (n_RealityPublicKey n) = Inr key \<and> length key = 32"
    if "\<not> isl (decodeBase64URL32 (n_RealityPublicKey n))"
    using that by (auto simp: decodeBase64URL32_def split: option.splits if_splits)
  with assms show ?thesis unfolding validateNode_def first_error_None by auto
qed

subsection \<open>Properties\<close>

text \<open>C16: A loaded snapshot holds exactly the authorized users. When \<^verbatim>\<open>LoadSnapshot\<close> succeeds, the
  snapshot has one user, with its policy compiled, for every row that is enabled, not expired, below
  its traffic limit and of the class and group of the node (or an administrator) and whose settings
  compile, as the table is at the second query, whatever other clients changed since the first, which
  gave the node; each other authorized row is reported by one warning and is not in the snapshot; the
  ids are sorted and unique; and the node passed the validation, so that its port, rate and key are
  usable.\<close>

theorem snapshot_authorizes_exactly:
  assumes "LoadSnapshot md5 marshal sha256 env p nodeID = (Inr snap, ws)"
  shows "(v \<in> set (s_Users snap) \<longleftrightarrow> (\<exists>i r u. fmlookup (p_user (le_between env p)) i = Some r \<and>
      authorized (s_Node snap) (le_now env) r \<and> compile_row md5 i r = Inr u \<and> v = sort_user_lists u)) \<and>
    ((i, e) \<in> set ws \<longleftrightarrow> (\<exists>r. fmlookup (p_user (le_between env p)) i = Some r \<and>
      authorized (s_Node snap) (le_now env) r \<and> compile_row md5 i r = Inl e)) \<and>
    sorted (map u_ID (s_Users snap)) \<and> distinct (map u_ID (s_Users snap)) \<and>
    select_node p nodeID = Some (s_Node snap) \<and> 1 \<le> n_PublicPort (s_Node snap) \<and>
    n_PublicPort (s_Node snap) \<le> 65535 \<and> \<not> bad_rate (n_TrafficRate (s_Node snap)) \<and>
    (\<exists>key. decodeBase64URL32 (n_RealityPublicKey (s_Node snap)) = Inr key \<and> length key = 32)"
proof -
  obtain n us where L: "select_node p nodeID = Some n" "validateNode n = None"
    "user_loop md5 (le_scan env) (select_users (le_between env p) n (le_now env)) = (Inr us, ws)"
    "Finalize marshal sha256 \<lparr>s_Node = n, s_Users = us, s_LoadedAt = le_now env, s_Hash = []\<rparr> = Some snap"
    using LoadSnapshot_Inr [OF assms] .
  have n: "s_Node snap = n" "set (s_Users snap) = sort_user_lists ` set us"
    using Finalize_Some [OF L(4)] by simp_all
  note U = user_loop_Inr [OF L(3)]
  have us: "u \<in> set us \<longleftrightarrow> (\<exists>i r. fmlookup (p_user (le_between env p)) i = Some r \<and> authorized n (le_now env) r \<and>
      compile_row md5 i r = Inr u)" for u
    unfolding conjunct1 [OF U] map_filter_mem by (auto simp: Bex_def select_users_mem sum_some)
  have ws: "(i, e) \<in> set ws \<longleftrightarrow> (\<exists>r. fmlookup (p_user (le_between env p)) i = Some r \<and> authorized n (le_now env) r \<and>
      compile_row md5 i r = Inl e)"
    unfolding conjunct2 [OF U] map_filter_mem by (auto simp: Bex_def select_users_mem sum_some)
  have "distinct (map u_ID us)" using loaded_ids [OF L(3)] .
  with Finalize_sorted [OF L(4)] have "sorted (map u_ID (s_Users snap))" "distinct (map u_ID (s_Users snap))"
    by simp_all
  moreover have "v \<in> set (s_Users snap) \<longleftrightarrow> (\<exists>i r u. fmlookup (p_user (le_between env p)) i = Some r \<and>
      authorized n (le_now env) r \<and> compile_row md5 i r = Inr u \<and> v = sort_user_lists u)"
    unfolding n(2) image_iff us Bex_def by blast
  ultimately show ?thesis using ws L(1) validateNode_None [OF L(2)] unfolding n(1) by blast
qed

definition sample_reality :: reality_row where
  "sample_reality = \<lparr>rr_public_host = ''h.x'', rr_public_port = 443, rr_server_name = ''s.x'', rr_target = ''t.x:443'',
     rr_reality_public_key = replicate 43 CHR ''A'', rr_short_id = ''00'', rr_fingerprint = ''chrome'',
     rr_flow = ''xtls-rprx-vision'', rr_transport = ''raw'', rr_min_client_version = [], rr_config_version = 1\<rparr>"

definition sample_tables :: panel where
  "sample_tables = sample_panel\<lparr>p_reality := fmupd 7 sample_reality fmempty\<rparr>"

definition sample_load :: load_env where
  "sample_load = \<lparr>le_node = True, le_between = id, le_users = True, le_scan = (\<lambda>_. True), le_rows = True, le_now = 5\<rparr>"

lemma sample_target: "check_target ''t.x:443'' = None"
proof -
  have "SplitHostPort ''t.x:443'' = Some (''t.x'', ''443'')" "validateHost ''t.x'' = None" by code_simp+
  moreover have "parse_int64 ''443'' = Some 443"
    by (simp add: parse_int64_def parse_uint_def eval_text int64_defs)
  ultimately show ?thesis by (simp add: check_target_def)
qed

lemma sample_node_valid:
  "\<exists>n. select_node sample_tables 7 = Some n \<and> validateNode n = None \<and> n_Class n = 0 \<and> n_Group n = 0"
proof -
  have "\<not> isl (decodeBase64URL32 (replicate 43 CHR ''A''))" "validateHost ''h.x'' = None"
      "validateDNSName ''s.x'' = None" "hex_decode ''00'' \<noteq> None" by code_simp+
  then show ?thesis
    by (simp add: select_node_def sample_tables_def sample_panel_def sample_ss_node_def sample_reality_def
        validateNode_def first_error_None sample_target bad_rate_iff)
qed

theorem snapshot_authorizes_exactly_witness:
  "\<exists>snap v. v \<in> set (s_Users snap) \<and> u_ID v = 3 \<and>
     fst (LoadSnapshot (\<lambda>_. replicate 16 0) (\<lambda>_. Some []) (\<lambda>_. [1]) sample_load sample_tables 7) = Inr snap"
proof -
  let ?l = "LoadSnapshot (\<lambda>_. replicate 16 0) (\<lambda>_. Some []) (\<lambda>_. [1]) sample_load sample_tables 7"
  obtain n where n: "select_node sample_tables 7 = Some n" "validateNode n = None" "n_Class n = 0" "n_Group n = 0"
    using sample_node_valid by blast
  have r: "fmlookup (p_user sample_tables) 3 = Some sample_row" by (simp add: sample_tables_def sample_panel_def)
  have a: "authorized n 5 sample_row" by (simp add: authorized_def n sample_row_def)
  then have su: "select_users sample_tables n 5 = [(3, sample_row)]"
    by (simp add: select_users_def sample_tables_def sample_panel_def sorted_list_of_fset.rep_eq)
  have "ParseIPRules [] = Inr []" "ParsePorts [] = Inr []" "ParseSourceIPs [] = Inr []" by code_simp+
  then have "\<exists>u. compile_row (\<lambda>_. replicate 16 0) 3 sample_row = Inr u"
    by (simp add: compile_row_def compileUser_def sample_row_def coalesce_def)
  then obtain u where u: "compile_row (\<lambda>_. replicate 16 0) 3 sample_row = Inr u" ..
  have "\<exists>snap. fst ?l = Inr snap"
    by (simp add: LoadSnapshot_def sample_load_def n su u Finalize_def Let_def)
  then obtain snap ws where snap: "?l = (Inr snap, ws)" by (metis prod.collapse)
  have main: "(v \<in> set (s_Users snap) \<longleftrightarrow> (\<exists>i r u. fmlookup (p_user sample_tables) i = Some r \<and>
      authorized (s_Node snap) (le_now sample_load) r \<and> compile_row (\<lambda>_. replicate 16 0) i r = Inr u \<and>
      v = sort_user_lists u)) \<and> select_node sample_tables 7 = Some (s_Node snap)" for v
    using snapshot_authorizes_exactly [OF snap] by (simp add: sample_load_def)
  then have "s_Node snap = n" using n(1) by simp
  then have "sort_user_lists u \<in> set (s_Users snap)"
    using main [of "sort_user_lists u"] a u r by (auto simp: sample_load_def)
  moreover have "u_ID (sort_user_lists u) = 3" using compile_row_id [OF u] by simp
  moreover have "fst ?l = Inr snap" using snap by simp
  ultimately show ?thesis by blast
qed

end
