(* ===== verification/Journal.thy ===== *)
theory Journal
  imports Lifecycle Authorization
begin

text \<open>
  The outbox as a journal of the ledger. A locale states what the replay relies on: a directory
  whose content is a multiset of batches, from which \<^verbatim>\<open>Remove\<close> takes one, and tables in which
  \<^verbatim>\<open>ApplyBatch\<close> enters a batch once. Inside it, every step moves batches from the open part of the
  journal to the books. The interpretation on the outbox and the database gives the behaviour of
  \<^verbatim>\<open>replay\<close>; the outcomes of \<^verbatim>\<open>persist\<close> are the cases of the publication of one batch.
\<close>

subsection \<open>The interface of journal and ledger\<close>

locale journal_ledger =
  fixes content :: "'d \<Rightarrow> 'b multiset"
    and recorded :: "'p \<Rightarrow> 'i \<Rightarrow> bool"
    and ident :: "'b \<Rightarrow> 'i"
    and enter :: "'t \<Rightarrow> 'b \<Rightarrow> 'p \<Rightarrow> 'p"
    and post :: "'e \<Rightarrow> 'b \<Rightarrow> 'p \<Rightarrow> 'x option \<times> 'p"
    and time :: "'e \<Rightarrow> 't"
    and remove :: "'r \<Rightarrow> 'f \<Rightarrow> 'd \<Rightarrow> 'y option \<times> 'd"
    and entry_at :: "'d \<Rightarrow> 'f \<Rightarrow> 'b \<Rightarrow> bool"
    and valid :: "'b \<Rightarrow> bool"
  assumes enter_records: "recorded (enter t b p) i \<longleftrightarrow> i = ident b \<or> recorded p i"
    and post_enters: "valid b \<Longrightarrow> post e b p = (x, p') \<Longrightarrow>
      p' = p \<or> p' = enter (time e) b p \<and> \<not> recorded p (ident b)"
    and post_records: "valid b \<Longrightarrow> post e b p = (None, p') \<Longrightarrow> recorded p' (ident b)"
    and entry_content: "entry_at d f b \<Longrightarrow> b \<in># content d \<and> valid b"
    and remove_content: "entry_at d f b \<Longrightarrow> remove r f d = (y, d') \<Longrightarrow>
      d' = d \<and> y \<noteq> None \<or> content d' = content d - {#b#}"
    and remove_others: "entry_at d f b \<Longrightarrow> remove r f d = (y, d') \<Longrightarrow> entry_at d g c \<Longrightarrow> g \<noteq> f \<Longrightarrow>
      entry_at d' g c"
begin

definition open_in :: "'p \<Rightarrow> 'd \<Rightarrow> 'b multiset" where
  "open_in p d = filter_mset (\<lambda>b. \<not> recorded p (ident b)) (content d)"

definition enter_all :: "('t \<times> 'b) list \<Rightarrow> 'p \<Rightarrow> 'p" where
  "enter_all bs p = foldl (\<lambda>p x. enter (fst x) (snd x) p) p bs"

definition unique :: "'d \<Rightarrow> bool" where
  "unique d \<longleftrightarrow> (\<forall>i. count (image_mset ident (content d)) i \<le> 1)"

definition moves :: "'p \<Rightarrow> 'd \<Rightarrow> ('t \<times> 'b) list \<Rightarrow> 'p \<Rightarrow> 'd \<Rightarrow> bool" where
  "moves p d bs p' d' \<longleftrightarrow> p' = enter_all bs p \<and> content d' \<subseteq># content d \<and>
     open_in p d = open_in p' d' + mset (map snd bs)"

lemma moves_refl [intro]: "moves p d [] p d"
  by (simp add: moves_def enter_all_def)

lemma moves_trans:
  assumes "moves p d bs p' d'" and "moves p' d' cs p'' d''"
  shows "moves p d (bs @ cs) p'' d''"
  using assms by (auto simp: moves_def enter_all_def union_ac intro: subset_mset.order_trans)

lemma moves_unique: "moves p d bs p' d' \<Longrightarrow> unique d \<Longrightarrow> unique d'"
  unfolding moves_def unique_def by (meson image_mset_subseteq_mono mset_subset_eq_count order_trans)

lemma open_after_enter:
  assumes "unique d" and "b \<in># content d" and "\<not> recorded p (ident b)"
  shows "open_in p d = add_mset b (open_in (enter t b p) d)"
proof -
  obtain M where M: "content d = add_mset b M" using assms(2) by (metis multi_member_split)
  with assms(1) have "count (image_mset ident M) (ident b) = 0"
    unfolding unique_def by (metis (no_types) count_add_mset image_mset_add_mset Suc_le_mono One_nat_def le_zero_eq)
  then have "ident b \<notin># image_mset ident M" by (rule count_eq_zero_iff [THEN iffD1])
  then have "\<forall>c \<in># M. ident c \<noteq> ident b" by (metis image_eqI set_image_mset)
  then have "filter_mset (\<lambda>c. \<not> recorded (enter t b p) (ident c)) M = filter_mset (\<lambda>c. \<not> recorded p (ident c)) M"
    by (intro filter_mset_cong) (auto simp: enter_records)
  with assms(3) show ?thesis by (simp add: open_in_def M enter_records)
qed

lemma moves_post:
  assumes "unique d" and "entry_at d f b" and "post e b p = (x, p')"
  shows "\<exists>bs. moves p d bs p' d"
proof -
  have b: "b \<in># content d" "valid b" using entry_content [OF assms(2)] by auto
  from post_enters [OF b(2) assms(3)] show ?thesis
  proof (elim disjE conjE)
    assume "p' = p"
    then show ?thesis by blast
  next
    assume "p' = enter (time e) b p" "\<not> recorded p (ident b)"
    with open_after_enter [OF assms(1) b(1)] have "moves p d [(time e, b)] p' d"
      by (simp add: moves_def enter_all_def)
    then show ?thesis ..
  qed
qed

lemma moves_remove:
  assumes "entry_at d f b" and "recorded p (ident b)" and "remove r f d = (y, d')"
  shows "moves p d [] p d'"
  using remove_content [OF assms(1,3)]
proof (elim disjE conjE)
  assume c: "content d' = content d - {#b#}"
  have "b \<in># content d" using entry_content [OF assms(1)] by simp
  then obtain M where "content d = add_mset b M" by (metis multi_member_split)
  with c assms(2) show ?thesis by (simp add: moves_def enter_all_def open_in_def)
qed blast

end

subsection \<open>Outbox and database\<close>

text \<open>The batches of a directory, whether or not other entries make \<^verbatim>\<open>List\<close> refuse it.\<close>

definition stored :: "batch_lib \<Rightarrow> store \<Rightarrow> directory \<Rightarrow> batch list" where
  "stored lib st d = List.map_filter (batch_at lib st d) (names d)"

definition is_recorded :: "panel \<Rightarrow> string \<Rightarrow> bool" where
  "is_recorded p i \<longleftrightarrow> fmlookup (p_batches p) i \<noteq> None"

text \<open>The batches that are stored and not booked yet.\<close>

definition outstanding :: "batch_lib \<Rightarrow> store \<Rightarrow> panel \<Rightarrow> directory \<Rightarrow> batch list" where
  "outstanding lib st p d = filter (\<lambda>b. \<not> is_recorded p (b_ID b)) (stored lib st d)"

definition file_at :: "batch_lib \<Rightarrow> store \<Rightarrow> directory \<Rightarrow> string \<Rightarrow> batch \<Rightarrow> bool" where
  "file_at lib st d path b \<longleftrightarrow> clean_abs (st_dir st) \<and> names_ok d \<and>
     (\<exists>n. path = path_join (st_dir st) n \<and> n \<in> fmdom' d \<and> batch_at lib st d n = Some b)"

lemma map_filter_remove1:
  assumes "x \<in> set xs" and "f x = Some y"
  shows "mset (List.map_filter f xs) = add_mset y (mset (List.map_filter f (remove1 x xs)))"
  using assms by (induction xs) (auto simp: List.map_filter_simps split: option.splits)

lemma map_filter_eq: "(\<And>x. x \<in> set xs \<Longrightarrow> f x = g x) \<Longrightarrow> List.map_filter f xs = List.map_filter g xs"
  by (induction xs) (auto simp: List.map_filter_simps split: option.splits)

lemma stored_drop:
  assumes "n \<in> fmdom' d" and "batch_at lib st d n = Some b"
  shows "mset (stored lib st d) = add_mset b (mset (stored lib st (fmdrop n d)))"
proof -
  have "n |\<in>| fmdom d" using assms(1) by (simp add: fmdom'_alt_def)
  note nm = names_drop [OF this]
  have "m \<noteq> n" if "m \<in> set (remove1 n (names d))" for m
    using that by (auto simp: distinct_remove1_removeAll)
  then have "List.map_filter (batch_at lib st (fmdrop n d)) (remove1 n (names d))
      = List.map_filter (batch_at lib st d) (remove1 n (names d))"
    by (intro map_filter_eq) (auto simp: batch_at_def)
  with map_filter_remove1 [of n "names d" "batch_at lib st d", OF _ assms(2)] assms(1) show ?thesis
    by (simp add: stored_def nm)
qed

lemma stored_empty [simp]: "stored lib st fmempty = []"
  by (simp add: stored_def names_def sorted_list_of_fset.rep_eq List.map_filter_simps)

lemma stored_valid: "b \<in> set (stored lib st d) \<Longrightarrow> validate lib True b = None"
proof -
  have "validate lib True b = None" if "readBatch lib True f = Inr b" for f
    using that by (cases f) (auto split: if_splits option.splits)
  moreover assume "b \<in> set (stored lib st d)"
  then obtain n where "batch_at lib st d n = Some b" by (auto simp: stored_def map_filter_mem)
  ultimately show ?thesis by (auto simp: batch_at_def split: option.splits if_splits sum.splits)
qed

lemma file_at_stored: "file_at lib st d path b \<Longrightarrow> b \<in> set (stored lib st d)"
  by (auto simp: file_at_def stored_def map_filter_mem)

lemma Remove_entry:
  assumes "clean_abs (st_dir st)" and "plain_name n" and "has_suffix n ''.json''"
    and "Remove ok sync st (path_join (st_dir st) n) d = (err, d')"
  shows "d' = d \<and> err = Some RemoveFailed \<or> d' = fmdrop n d \<and> err = syncDir sync \<and> n \<in> fmdom' d"
proof -
  have path: "path_join (st_dir st) n = st_dir st @ ''/'' @ n" using assms(1,2) by (rule path_join_name)
  have "has_suffix (st_dir st @ ''/'' @ n) ''.json''"
    using has_suffix_prepend [OF assms(3), of "st_dir st @ ''/''"] by simp
  with assms(4) show ?thesis
    by (auto simp: Remove_def Let_def path path_clean_entry [OF assms(1,2), simplified]
        path_dir_entry [OF assms(1,2), simplified] path_base_entry [OF assms(2), simplified]
        fmlookup_dom'_iff split: if_splits)
qed

lemma Remove_exists:
  assumes "clean_abs (st_dir st)" and "plain_name n" and "has_suffix n ''.json''" and "n \<in> fmdom' d"
  shows "Remove True (True, True) st (path_join (st_dir st) n) d = (None, fmdrop n d)"
proof -
  have path: "path_join (st_dir st) n = st_dir st @ ''/'' @ n" using assms(1,2) by (rule path_join_name)
  have "has_suffix (st_dir st @ ''/'' @ n) ''.json''"
    using has_suffix_prepend [OF assms(3), of "st_dir st @ ''/''"] by simp
  with assms(4) show ?thesis
    by (auto simp: Remove_def Let_def syncDir_def path path_clean_entry [OF assms(1,2), simplified]
        path_dir_entry [OF assms(1,2), simplified] path_base_entry [OF assms(2), simplified] fmlookup_dom'_iff)
qed

lemma batch_at_json: "batch_at lib st d n = Some b \<Longrightarrow> has_suffix n ''.json''"
  by (auto simp: batch_at_def split: option.splits if_splits)

lemma file_at_cases:
  assumes "file_at lib st d path b" and "Remove (fst r) (snd r) st path d = (err, d')"
  obtains "d' = d" "err = Some RemoveFailed"
  | n where "path = path_join (st_dir st) n" "n \<in> fmdom' d" "batch_at lib st d n = Some b"
      "d' = fmdrop n d" "err = syncDir (snd r)"
proof -
  obtain n where n: "path = path_join (st_dir st) n" "n \<in> fmdom' d" "batch_at lib st d n = Some b"
      "clean_abs (st_dir st)" "plain_name n"
    using assms(1) by (auto simp: file_at_def names_ok_def)
  from Remove_entry [OF n(4,5) batch_at_json [OF n(3)]] assms(2) n(1) that n show thesis by blast
qed

interpretation ob: journal_ledger "\<lambda>d. mset (stored lib st d)" is_recorded b_ID book ApplyBatch tx_now
  "\<lambda>r path d. Remove (fst r) (snd r) st path d" "file_at lib st" "\<lambda>b. entries_valid (b_Entries b)" for lib st
proof unfold_locales
  show "is_recorded (book t b p) i \<longleftrightarrow> i = b_ID b \<or> is_recorded p i" for t b p i
    by (simp add: is_recorded_def book_def)
  show "p' = p \<or> p' = book (tx_now e) b p \<and> \<not> is_recorded p (b_ID b)"
    if "entries_valid (b_Entries b)" "ApplyBatch e b p = (x, p')" for b e p x p'
    using that(2,1) by (cases rule: ApplyBatch_cases) (simp_all add: is_recorded_def)
  show "is_recorded p' (b_ID b)" if "entries_valid (b_Entries b)" "ApplyBatch e b p = (None, p')" for b e p p'
    using that(2,1) by (cases rule: ApplyBatch_cases) (simp_all add: is_recorded_def book_def)
  show "b \<in># mset (stored lib st d) \<and> entries_valid (b_Entries b)" if "file_at lib st d f b" for d f b
    using file_at_stored [OF that] stored_valid [of b lib st d] by (simp add: validate_iff)
  show "d' = d \<and> y \<noteq> None \<or> mset (stored lib st d') = mset (stored lib st d) - {#b#}"
    if "file_at lib st d f b" "Remove (fst r) (snd r) st f d = (y, d')" for d f b r y d'
    using that by (cases rule: file_at_cases) (simp_all add: stored_drop)
  show "file_at lib st d' g c" if "file_at lib st d f b" "Remove (fst r) (snd r) st f d = (y, d')"
    "file_at lib st d g c" "g \<noteq> f" for d f b r y d' g c
    using that(1,2)
  proof (cases rule: file_at_cases)
    case (2 n)
    with that(3,4) show ?thesis by (auto simp: file_at_def names_ok_def batch_at_def)
  qed (use that(3) in simp)
qed

subsection \<open>Replay\<close>

definition ids_unique :: "batch_lib \<Rightarrow> store \<Rightarrow> directory \<Rightarrow> bool" where
  "ids_unique lib st d \<longleftrightarrow> distinct (map b_ID (stored lib st d))"

lemma distinct_count_le: "distinct xs \<longleftrightarrow> (\<forall>a. count (mset xs) a \<le> 1)"
proof
  assume "distinct xs"
  then show "\<forall>a. count (mset xs) a \<le> 1" by (simp add: distinct_count_atmost_1)
next
  assume le: "\<forall>a. count (mset xs) a \<le> 1"
  have "count (mset xs) a = (if a \<in> set xs then 1 else 0)" for a
  proof (cases "a \<in> set xs")
    case True
    then have "1 \<le> count (mset xs) a" by (simp add: Suc_le_eq)
    with le [rule_format, of a] have "count (mset xs) a = 1" by (rule order_antisym)
    with True show ?thesis by simp
  next
    case False
    then show ?thesis by (simp add: count_eq_zero_iff)
  qed
  then show "distinct xs" by (simp add: distinct_count_atmost_1)
qed

lemma ids_unique_iff: "ids_unique lib st d \<longleftrightarrow> ob.unique lib st d"
  unfolding ids_unique_def ob.unique_def distinct_count_le by simp

lemma replay_loop_moves:
  assumes "replay_loop rp st k fs p d = (err, p', d')" and "ids_unique lib st d"
    and "\<forall>f \<in> set fs. file_at lib st d (bf_Path f) (bf_Batch f)" and "distinct (map bf_Path fs)"
  shows "\<exists>bs. ob.moves lib st p d bs p' d' \<and>
    (err = None \<longrightarrow> mset (stored lib st d) = mset (stored lib st d') + mset (map bf_Batch fs))"
  using assms
proof (induction fs arbitrary: k p d)
  case Nil
  then show ?case by auto
next
  case (Cons f fs)
  have f: "file_at lib st d (bf_Path f) (bf_Batch f)" using Cons.prems(3) by simp
  have u: "ob.unique lib st d" using Cons.prems(2) by (simp add: ids_unique_iff)
  obtain x q where A: "ApplyBatch (rp_tx rp k) (bf_Batch f) p = (x, q)" by fastforce
  obtain bs where bs: "ob.moves lib st p d bs q d" using ob.moves_post [OF u f A] by blast
  show ?case
  proof (cases x)
    case (Some e)
    with Cons.prems(1) A bs show ?thesis by auto
  next
    case None
    with A ob.post_records [of "bf_Batch f"] ob.entry_content [OF f]
    have rec: "is_recorded q (b_ID (bf_Batch f))" by blast
    obtain y d1 where R: "Remove (rp_remove rp k) (rp_sync rp k) st (bf_Path f) d = (y, d1)" by fastforce
    then have R': "Remove (fst (rp_remove rp k, rp_sync rp k)) (snd (rp_remove rp k, rp_sync rp k)) st (bf_Path f) d = (y, d1)"
      by simp
    have m1: "ob.moves lib st q d [] q d1" using ob.moves_remove [OF f rec R'] .
    show ?thesis
    proof (cases y)
      case (Some e)
      with Cons.prems(1) A None R have "p' = q" "d' = d1" "err \<noteq> None" by auto
      with ob.moves_trans [OF bs m1] show ?thesis by auto
    next
      case y: None
      have L: "replay_loop rp st (Suc k) fs q d1 = (err, p', d')" using Cons.prems(1) A None R y by simp
      have "ids_unique lib st d1" using ob.moves_unique [OF m1 u] by (simp add: ids_unique_iff)
      moreover have "\<forall>g \<in> set fs. file_at lib st d1 (bf_Path g) (bf_Batch g)"
      proof
        fix g assume g: "g \<in> set fs"
        have "bf_Path f \<notin> bf_Path ` set fs" using Cons.prems(4) by simp
        with g have "bf_Path g \<noteq> bf_Path f" by (metis image_eqI)
        with g Cons.prems(3) ob.remove_others [OF f R'] show "file_at lib st d1 (bf_Path g) (bf_Batch g)" by simp
      qed
      ultimately obtain cs where cs: "ob.moves lib st q d1 cs p' d'"
          "err = None \<longrightarrow> mset (stored lib st d1) = mset (stored lib st d') + mset (map bf_Batch fs)"
        using Cons.IH [OF L] Cons.prems(4) by auto
      have "mset (stored lib st d1) = mset (stored lib st d) - {#bf_Batch f#}"
        using ob.remove_content [OF f R'] y by blast
      moreover have "bf_Batch f \<in># mset (stored lib st d)" using ob.entry_content [OF f] by blast
      ultimately have "mset (stored lib st d) = add_mset (bf_Batch f) (mset (stored lib st d1))" by simp
      with cs(2) have "err = None \<longrightarrow> mset (stored lib st d) = mset (stored lib st d') + mset (map bf_Batch (f # fs))"
        by simp
      with ob.moves_trans [OF ob.moves_trans [OF bs m1] cs(1)] show ?thesis by blast
    qed
  qed
qed

text \<open>A reading that succeeds saw the whole directory.\<close>

lemma list_entry_all: "list_entry lib rd st n f = Inr bf \<Longrightarrow> list_entry lib all_reads st n f = Inr bf"
  by (cases f) (auto simp: list_entry_def all_reads_def split: if_splits sum.splits option.splits)

lemma List_all: "List lib rd st d = Inr fs \<Longrightarrow> List lib all_reads st d = Inr fs"
proof -
  have "list_loop lib rd st es = Inr bfs \<Longrightarrow> list_loop lib all_reads st es = Inr bfs" for es bfs
    unfolding list_loop_Inr by (erule list_all2_mono) (auto dest: list_entry_all)
  then show "List lib rd st d = Inr fs \<Longrightarrow> List lib all_reads st d = Inr fs"
    by (auto simp: List_def all_reads_def split: if_splits sum.splits)
qed

lemma List_listing:
  assumes "List lib rd st d = Inr fs" and "clean_abs (st_dir st)" and "names_ok d"
  shows "sound lib st d \<and> fs = listing lib st d"
  using List_all [OF assms(1)] List_iff [OF assms(2,3) all_reads_ok] by blast

lemma listing_paths:
  assumes "clean_abs (st_dir st)" and "names_ok d"
  shows "distinct (map bf_Path (listing lib st d))"
proof -
  have "distinct (map path_base (map bf_Path (listing lib st d)))"
    using base_listing [OF assms, of lib] by (simp add: comp_def)
  then show ?thesis unfolding distinct_map by blast
qed

lemma listing_files:
  assumes "clean_abs (st_dir st)" and "names_ok d" and "sound lib st d" and "f \<in> set (listing lib st d)"
  shows "file_at lib st d (bf_Path f) (bf_Batch f)"
  using assms by (auto simp: listing_def file_at_def sound_def)

lemma listing_stored:
  assumes "sound lib st d"
  shows "map bf_Batch (listing lib st d) = stored lib st d"
proof -
  have "map (\<lambda>n. the (batch_at lib st d n)) ns = List.map_filter (batch_at lib st d) ns" if "set ns \<subseteq> fmdom' d" for ns
    using that assms by (induction ns) (auto simp: sound_def List.map_filter_simps)
  then show ?thesis by (simp add: listing_def stored_def comp_def)
qed

definition sub_dir :: "directory \<Rightarrow> directory \<Rightarrow> bool" where
  "sub_dir d' d \<longleftrightarrow> (\<forall>n. fmlookup d' n = None \<or> fmlookup d' n = fmlookup d n)"

lemma sub_dir_Remove: "Remove ok sync st path d = (err, d') \<Longrightarrow> sub_dir d' d"
  by (auto simp: Remove_def Let_def sub_dir_def split: if_splits)

lemma sub_dir_replay: "replay_loop rp st k fs p d = (err, p', d') \<Longrightarrow> sub_dir d' d"
proof (induction fs arbitrary: k p d)
  case (Cons f fs)
  obtain x q where A: "ApplyBatch (rp_tx rp k) (bf_Batch f) p = (x, q)" by fastforce
  obtain y d1 where R: "Remove (rp_remove rp k) (rp_sync rp k) st (bf_Path f) d = (y, d1)" by fastforce
  have s: "sub_dir d1 d" using sub_dir_Remove [OF R] .
  show ?case
  proof (cases "x = None \<and> y = None")
    case True
    with Cons.prems A R have "replay_loop rp st (Suc k) fs q d1 = (err, p', d')" by simp
    from Cons.IH [OF this] s show ?thesis by (auto simp: sub_dir_def) metis
  next
    case False
    with Cons.prems A R s show ?thesis by (auto simp: sub_dir_def split: option.splits)
  qed
qed (simp add: sub_dir_def)

lemma sub_dir_batch:
  assumes "sub_dir d' d" and "n \<in> fmdom' d'"
  shows "batch_at lib st d' n = batch_at lib st d n \<and> n \<in> fmdom' d"
proof -
  obtain x where x: "fmlookup d' n = Some x" using assms(2) by (auto simp: fmlookup_dom'_iff)
  then have "fmlookup d n = Some x" using assms(1) unfolding sub_dir_def by (metis option.distinct(1))
  with x show ?thesis by (simp add: batch_at_def fmdom'I)
qed

lemma sub_dir_names: "sub_dir d' d \<Longrightarrow> names_ok d \<Longrightarrow> names_ok d'"
  using sub_dir_batch by (auto simp: names_ok_def)

lemma enter_all_book [simp]: "ob.enter_all = book_all"
  by (intro ext) (simp add: ob.enter_all_def book_all_def)

lemma open_outstanding: "ob.open_in lib st p d = mset (outstanding lib st p d)"
  by (simp add: ob.open_in_def outstanding_def)

lemma replay_moves:
  assumes "replay lib rp st p d = (err, p', d')" and "clean_abs (st_dir st)" and "names_ok d"
    and "ids_unique lib st d"
  shows "\<exists>bs. ob.moves lib st p d bs p' d' \<and> sub_dir d' d \<and> (err = None \<longrightarrow> d' = fmempty)"
proof (cases "List lib (rp_reading rp) st d")
  case (Inl e)
  with assms(1) show ?thesis by (auto simp: replay_def sub_dir_def)
next
  case (Inr fs)
  then have S: "sound lib st d" "fs = listing lib st d" using List_listing [OF _ assms(2,3)] by blast+
  have L: "replay_loop rp st 0 fs p d = (err, p', d')" using assms(1) Inr by (simp add: replay_def)
  obtain bs where bs: "ob.moves lib st p d bs p' d'"
      "err = None \<longrightarrow> mset (stored lib st d) = mset (stored lib st d') + mset (map bf_Batch fs)"
    using replay_loop_moves [OF L assms(4)] listing_files [OF assms(2,3) S(1)] listing_paths [OF assms(2,3)] S(2)
    by blast
  have sub: "sub_dir d' d" using sub_dir_replay [OF L] .
  have "d' = fmempty" if "err = None"
  proof -
    have "stored lib st d' = []" using bs(2) that listing_stored [OF S(1)] S(2) by simp
    then have "batch_at lib st d' n = None" if "n \<in> fmdom' d'" for n
      using that by (metis empty_iff list.set(1) map_filter_mem not_None_eq set_names stored_def)
    then have "n \<notin> fmdom' d'" for n
      using sub_dir_batch [OF sub, of n] S(1) unfolding sound_def by metis
    then have "fmlookup d' n = fmlookup fmempty n" for n by (metis fmdom'_notD fmempty_lookup)
    then show ?thesis by (rule fmap_ext)
  qed
  with bs(1) sub show ?thesis by blast
qed

subsection \<open>Persist\<close>

lemma mset_map_filter:
  "mset (List.map_filter f xs) = image_mset (the \<circ> f) (filter_mset (\<lambda>x. f x \<noteq> None) (mset xs))"
  by (simp add: List.map_filter_def)

lemma stored_upd:
  assumes "fmlookup d n = None"
  shows "mset (stored lib st (fmupd n f d)) =
    mset (case batch_at lib st (fmupd n f d) n of None \<Rightarrow> [] | Some b \<Rightarrow> [b]) + mset (stored lib st d)"
proof -
  have n: "n |\<notin>| fmdom d" using assms by (simp add: fmlookup_dom_iff)
  let ?f = "batch_at lib st (fmupd n f d)" and ?g = "batch_at lib st d"
  have eq: "?f m = ?g m" if "m \<in># mset (names d)" for m
    using that assms by (auto simp: batch_at_upd [of lib st n f d m] fmlookup_dom'_iff)
  have F: "filter_mset (\<lambda>x. ?f x \<noteq> None) (mset (names d)) = filter_mset (\<lambda>x. ?g x \<noteq> None) (mset (names d))"
    using eq by (intro filter_mset_cong) auto
  have "image_mset (the \<circ> ?f) (filter_mset (\<lambda>x. ?f x \<noteq> None) (mset (names d)))
      = image_mset (the \<circ> ?g) (filter_mset (\<lambda>x. ?g x \<noteq> None) (mset (names d)))"
    unfolding F using eq by (intro image_mset_cong) auto
  then show ?thesis
    by (cases "?f n") (auto simp: stored_def mset_map_filter names_upd [OF n])
qed

text \<open>The new batch of an attempt: its id and its file name are new.\<close>

definition new_id :: "persisting \<Rightarrow> string" where
  "new_id ps = (case ps_rnd ps of None \<Rightarrow> [] | Some rnd \<Rightarrow> format_uuid (set_version_variant 0x40 rnd))"

definition fresh_batch :: "batch_lib \<Rightarrow> persisting \<Rightarrow> store \<Rightarrow> panel \<Rightarrow> directory \<Rightarrow> bool" where
  "fresh_batch lib ps st p d \<longleftrightarrow> int64_ok (ps_now ps) \<and> \<not> is_recorded p (new_id ps) \<and>
     new_id ps \<notin> b_ID ` set (stored lib st d) \<and>
     fmlookup d (pad20 (sv_nanos (ps_saving ps)) @ ''-'' @ new_id ps @ ''.json'') = None"

lemma NewBatch_Inr:
  assumes "NewBatch lib (ps_rnd ps) node v rate entries now = Inr b"
  shows "b_Entries b = sort_key e_UserID entries \<and> b_NodeID b = node \<and> b_CreatedAt b = now \<and> b_ID b = new_id ps"
  using assms by (auto simp: NewBatch_def newUUID_def new_id_def Let_def split: option.splits sum.splits if_splits)

lemma NewBatch_unpublished:
  assumes "NewBatch lib rnd node v rate entries now = Inl e"
  shows "\<not> WasPublished (Some e)"
proof (cases "newUUID rnd")
  case (Inl x)
  with assms show ?thesis by (auto simp: NewBatch_def newUUID_def WasPublished_def split: option.splits)
next
  case (Inr uuid)
  define b where "b = \<lparr>b_Version = SchemaVersion, b_ID = uuid, b_NodeID = node, b_ConfigurationVersion = v,
    b_CreatedAt = now, b_TrafficRate = rate, b_Entries = sort_key e_UserID entries, b_PayloadSHA256 = []\<rparr>"
  have "validate lib False b = Some e \<or> hash lib b = Inl e"
    using assms Inr unfolding NewBatch_def Let_def b_def by (auto split: option.splits sum.splits)
  with validate_unpublished [of lib False b] show ?thesis
    by (auto simp: hash_def split: option.splits)
qed

lemma persist_cases:
  assumes "persist lib ps st entries snap d = Some (err, d')"
    and "lib_ok lib" and "clean_abs (st_dir st)" and "names_ok d" and "fresh_batch lib ps st p d"
    and "int64_ok (n_ID (s_Node snap))" and "\<forall>e \<in> set entries. int64_ok (e_UserID e)"
  obtains (nothing) "entries = []" "err = None" "d' = d"
  | (lost) e where "err = Some e" "\<not> WasPublished err" "mset (stored lib st d') = mset (stored lib st d)" "names_ok d'"
  | (published) b where "err = None \<or> WasPublished err" "b_Entries b = sort_key e_UserID entries"
      "b_ID b = new_id ps" "mset (stored lib st d') = add_mset b (mset (stored lib st d))" "names_ok d'"
proof (cases "entries = []")
  case True
  with assms(1) show thesis by (intro that(1)) (auto simp: persist_def)
next
  case False
  show thesis
  proof (cases "NewBatch lib (ps_rnd ps) (n_ID (s_Node snap)) (n_ConfigurationVersion (s_Node snap))
      (n_TrafficRate (s_Node snap)) entries (ps_now ps)")
    case (Inl e)
    then have "persist lib ps st entries snap d = (if e = RandUnavailable then None else Some (Some e, d))"
      using False by (cases e) (simp_all add: persist_def)
    with assms(1) have "err = Some e" "d' = d" by (auto split: if_splits)
    with NewBatch_unpublished [OF Inl] assms(4) show thesis by (intro that(2)) auto
  next
    case (Inr b)
    note B = NewBatch_Inr [OF Inr]
    obtain ds where S: "Save lib (ps_saving ps) st b d = (err, ds)" "d' = saved_dir d (err, ds)"
      using assms(1) Inr False by (cases "Save lib (ps_saving ps) st b d") (auto simp: persist_def Let_def)
    have typed: "batch_typed b"
      using B assms(5-7) by (auto simp: batch_typed_def list_all_iff fresh_batch_def)
    have free: "fmlookup d (batch_base (sv_nanos (ps_saving ps)) b) = None"
      using assms(5) B by (simp add: fresh_batch_def batch_base_def)
    from S(1) assms(3) show thesis
    proof (cases rule: Save_cases)
      case early
      with S(2) assms(4) lost show thesis by (auto simp: saved_dir_def)
    next
      case (attempt json used)
      have uuid: "validUUID (b_ID b)" using attempt(1) by (simp add: validate_iff)
      note plain = batch_base_plain [OF uuid, of "sv_nanos (ps_saving ps)"]
      from attempt(6) show thesis
      proof (cases rule: publish_cases)
        case refused
        with S(2) assms(4) lost show thesis by (auto simp: saved_dir_def)
      next
        case (kept e)
        let ?t = "batch_base (sv_nanos (ps_saving ps)) b @ ''.tmp''"
        obtain f where d': "d' = fmupd ?t f d" using kept(4) S(2) by (auto simp: saved_dir_def has_temp_def)
        have "batch_at lib st d' ?t = None" by (simp add: batch_at_def d' suffix_tmp)
        then have "mset (stored lib st d') = mset (stored lib st d)"
          using stored_upd [OF kept(5), of lib st f] by (simp add: d')
        moreover have "names_ok d'" using assms(4) plain(2) by (simp add: d' names_ok_def)
        moreover have "\<not> WasPublished err" using kept(1,2) by (auto simp: WasPublished_def)
        ultimately show thesis using lost kept(1) by blast
      next
        case (published d1 d2)
        let ?n = "batch_base (sv_nanos (ps_saving ps)) b"
        have d': "d' = fmupd ?n (Regular (json @ [CHR 0x0A]) 0x180) d" using published(4) S(2) by (simp add: saved_dir_def)
        have "lib_decode lib (json @ [CHR 0x0A]) = Some (b, [CHR 0x0A])"
          using assms(2) typed attempt(1,3) by (simp add: lib_ok_def)
        then have "batch_at lib st d' ?n = Some b"
          using attempt(1,2) batch_base_suffix [of "sv_nanos (ps_saving ps)" b]
          by (simp add: batch_at_def d' json_blank_def)
        then have "mset (stored lib st d') = add_mset b (mset (stored lib st d))"
          using stored_upd [OF free, of lib st "Regular (json @ [CHR 0x0A]) 0x180"] by (simp add: d')
        moreover have "names_ok d'" using assms(4) plain(1) by (simp add: d' names_ok_def)
        ultimately show thesis
          using that(3) published(1) B by blast
      qed
    qed
  qed
qed

end
