(* ===== verification/Engine_Users.thy ===== *)
theory Engine_Users
  imports Xray_Engine Session_Invariant
begin

text \<open>
  The hot update of users: the user table of the inbound represents the users of the installed
  snapshot, \<^verbatim>\<open>Apply\<close> moves it to the next snapshot or back, and no user with traffic to report is
  forgotten.
\<close>

subsection \<open>The user table as a map from ids to UUIDs\<close>

definition uuids :: "user list \<Rightarrow> (int64, string) fmap" where
  "uuids us = fmmap u_UUID (usersByID us)"

definition member_for :: "(string \<Rightarrow> nat list option) \<Rightarrow> node \<Rightarrow> int64 \<Rightarrow> string \<Rightarrow> member" where
  "member_for parse n i w = \<lparr>mb_Email = UserEmail (n_ID n) i, mb_ID = the (parse w), mb_Flow = n_Flow n\<rparr>"

definition key_for :: "(string \<Rightarrow> nat list option) \<Rightarrow> string \<Rightarrow> nat list" where
  "key_for parse w = ProcessUUID (the (parse w))"

definition represents :: "(string \<Rightarrow> nat list option) \<Rightarrow> node \<Rightarrow> (int64, string) fmap \<Rightarrow> validator \<Rightarrow> bool" where
  "represents parse n cur v \<longleftrightarrow>
     (\<forall>i w. fmlookup cur i = Some w \<longrightarrow> int64_ok i \<and> parse w \<noteq> None) \<and>
     (\<forall>x m. fmlookup (v_email v) x = Some m \<longleftrightarrow>
        (\<exists>i w. fmlookup cur i = Some w \<and> x = UserEmail (n_ID n) i \<and> m = member_for parse n i w)) \<and>
     (\<forall>k m. fmlookup (v_users v) k = Some m \<longleftrightarrow>
        (\<exists>i w. fmlookup cur i = Some w \<and> k = key_for parse w \<and> m = member_for parse n i w))"

text \<open>Accounts of different users differ in the bytes that Xray compares.\<close>

definition keys_distinct :: "(string \<Rightarrow> nat list option) \<Rightarrow> (int64 \<times> string) set \<Rightarrow> bool" where
  "keys_distinct parse S \<longleftrightarrow> (\<forall>(i, w) \<in> S. \<forall>(j, x) \<in> S. i \<noteq> j \<longrightarrow> key_for parse w \<noteq> key_for parse x)"

definition fmgraph :: "('a, 'b) fmap \<Rightarrow> ('a \<times> 'b) set" where
  "fmgraph m = {(k, v). fmlookup m k = Some v}"

lemma fmgraph_iff [simp]: "(k, v) \<in> fmgraph m \<longleftrightarrow> fmlookup m k = Some v"
  by (simp add: fmgraph_def)

lemma keys_distinctD:
  "keys_distinct parse S \<Longrightarrow> (i, w) \<in> S \<Longrightarrow> (j, x) \<in> S \<Longrightarrow> i \<noteq> j \<Longrightarrow> key_for parse w \<noteq> key_for parse x"
  by (fastforce simp: keys_distinct_def)

lemma lower_email [simp]: "to_lower (UserEmail n i) = UserEmail n i"
proof -
  have d: "\<not> (CHR ''A'' \<le> c \<and> c \<le> CHR ''Z'')" if "is_digit c \<or> c = CHR ''-''" for c
    using that by (auto simp: is_digit_def less_eq_char_def)
  have "\<forall>c \<in> set (itoa k). is_digit c \<or> c = CHR ''-''" for k
    by (auto simp: itoa_def dest: show_10_digits split: if_splits)
  then have "to_lower (itoa k) = itoa k" for k
    unfolding to_lower_def by (intro map_idI) (metis d)
  moreover have "to_lower (x @ y) = to_lower x @ to_lower y" for x y by (simp add: to_lower_def)
  moreover have "to_lower ''sspanel-node-'' = ''sspanel-node-''" "to_lower ''-user-'' = ''-user-''" by code_simp+
  ultimately show ?thesis by (simp add: UserEmail_def del: append_Cons append_Nil)
qed

lemma represents_unique:
  assumes "represents parse n cur v" and "represents parse n cur v'"
  shows "v = v'"
proof -
  have "fmlookup (v_email v) x = fmlookup (v_email v') x" for x
    using assms unfolding represents_def by (metis not_Some_eq)
  moreover have "fmlookup (v_users v) x = fmlookup (v_users v') x" for x
    using assms unfolding represents_def by (metis not_Some_eq)
  ultimately show ?thesis by (cases v; cases v') (auto intro!: fmap_ext)
qed

lemma RemoveUser_represents:
  assumes "represents parse n cur v" and "fmlookup cur i = Some w" and "keys_distinct parse (fmgraph cur)"
  shows "\<exists>v'. RemoveUser (UserEmail (n_ID n) i) v = (None, v') \<and> represents parse n (fmdrop i cur) v'"
proof -
  have i: "int64_ok i" using assms(1,2) by (simp add: represents_def)
  have inj: "UserEmail (n_ID n) i = UserEmail (n_ID n) j \<longleftrightarrow> i = j" if "fmlookup cur j = Some x" for j x
    using that assms(1) i UserEmail_inj by (auto simp: represents_def)
  have key: "key_for parse w \<noteq> key_for parse x" if "fmlookup cur j = Some x" "j \<noteq> i" for j x
    using that assms(2,3) by (fastforce simp: keys_distinct_def)
  have "fmlookup (v_email v) (UserEmail (n_ID n) i) = Some (member_for parse n i w)"
    using assms(1,2) by (auto simp: represents_def)
  then have R: "RemoveUser (UserEmail (n_ID n) i) v = (None, \<lparr>v_email = fmdrop (UserEmail (n_ID n) i) (v_email v),
      v_users = fmdrop (key_for parse w) (v_users v)\<rparr>)"
    by (simp add: RemoveUser_def member_for_def key_for_def)
  have "represents parse n (fmdrop i cur) \<lparr>v_email = fmdrop (UserEmail (n_ID n) i) (v_email v),
      v_users = fmdrop (key_for parse w) (v_users v)\<rparr>"
    unfolding represents_def
  proof (intro conjI allI)
    fix j x show "fmlookup (fmdrop i cur) j = Some x \<longrightarrow> int64_ok j \<and> parse x \<noteq> None"
      using assms(1) by (simp add: represents_def)
  next
    fix x m
    show "fmlookup (v_email \<lparr>v_email = fmdrop (UserEmail (n_ID n) i) (v_email v),
        v_users = fmdrop (key_for parse w) (v_users v)\<rparr>) x = Some m \<longleftrightarrow>
        (\<exists>j y. fmlookup (fmdrop i cur) j = Some y \<and> x = UserEmail (n_ID n) j \<and> m = member_for parse n j y)"
      using assms(1) inj by (auto simp: represents_def)
  next
    fix k m
    show "fmlookup (v_users \<lparr>v_email = fmdrop (UserEmail (n_ID n) i) (v_email v),
        v_users = fmdrop (key_for parse w) (v_users v)\<rparr>) k = Some m \<longleftrightarrow>
        (\<exists>j y. fmlookup (fmdrop i cur) j = Some y \<and> k = key_for parse y \<and> m = member_for parse n j y)"
      using assms(1,2) key by (auto simp: represents_def)
  qed
  with R show ?thesis by blast
qed

lemma AddUser_represents:
  assumes "represents parse n cur v" and "fmlookup cur i = None" and "int64_ok i" and "parse w \<noteq> None"
    and "keys_distinct parse (fmgraph (fmupd i w cur))"
  shows "\<exists>v'. AddUser (member_for parse n i w) v = (None, v') \<and> represents parse n (fmupd i w cur) v'"
proof -
  have inj: "UserEmail (n_ID n) i \<noteq> UserEmail (n_ID n) j" if "fmlookup cur j = Some x" for j x
  proof
    assume eq: "UserEmail (n_ID n) i = UserEmail (n_ID n) j"
    have "int64_ok j" using that assms(1) by (simp add: represents_def)
    from UserEmail_inj [OF assms(3) this eq] that assms(2) show False by simp
  qed
  have key: "key_for parse w \<noteq> key_for parse x" if "fmlookup cur j = Some x" for j x
  proof -
    have "j \<noteq> i" using that assms(2) by auto
    then have "(i, w) \<in> fmgraph (fmupd i w cur)" "(j, x) \<in> fmgraph (fmupd i w cur)" using that by auto
    from keys_distinctD [OF assms(5) this] \<open>j \<noteq> i\<close> show ?thesis by simp
  qed
  have E: "fmlookup (v_email v) x = Some m \<longleftrightarrow>
      (\<exists>i w. fmlookup cur i = Some w \<and> x = UserEmail (n_ID n) i \<and> m = member_for parse n i w)" for x m
    using assms(1) by (simp add: represents_def)
  have U: "fmlookup (v_users v) k = Some m \<longleftrightarrow>
      (\<exists>i w. fmlookup cur i = Some w \<and> k = key_for parse w \<and> m = member_for parse n i w)" for k m
    using assms(1) by (simp add: represents_def)
  have L: "fmlookup (fmupd i w cur) j = Some y \<longleftrightarrow> j = i \<and> y = w \<or> fmlookup cur j = Some y" for j y
    using assms(2) by auto
  let ?v = "\<lparr>v_email = fmupd (UserEmail (n_ID n) i) (member_for parse n i w) (v_email v),
       v_users = fmupd (key_for parse w) (member_for parse n i w) (v_users v)\<rparr>"
  have "fmlookup (v_email v) (UserEmail (n_ID n) i) \<noteq> Some m" for m
    using inj unfolding E by blast
  then have "fmlookup (v_email v) (UserEmail (n_ID n) i) = None" by (metis not_Some_eq)
  then have R: "AddUser (member_for parse n i w) v = (None, ?v)"
    by (simp add: AddUser_def member_for_def key_for_def)
  have em: "fmlookup (v_email ?v) x = Some m \<longleftrightarrow>
      (\<exists>j y. fmlookup (fmupd i w cur) j = Some y \<and> x = UserEmail (n_ID n) j \<and> m = member_for parse n j y)" for x m
  proof (cases "x = UserEmail (n_ID n) i")
    case True
    then show ?thesis unfolding L by (auto dest: inj)
  next
    case False
    then show ?thesis unfolding L by (auto simp: E)
  qed
  have us: "fmlookup (v_users ?v) k = Some m \<longleftrightarrow>
      (\<exists>j y. fmlookup (fmupd i w cur) j = Some y \<and> k = key_for parse y \<and> m = member_for parse n j y)" for k m
  proof (cases "k = key_for parse w")
    case True
    then show ?thesis unfolding L by (auto dest: key)
  next
    case False
    then show ?thesis unfolding L by (auto simp: U)
  qed
  have ty: "int64_ok j \<and> parse x \<noteq> None" if "fmlookup (fmupd i w cur) j = Some x" for j x
  proof -
    have "int64_ok j \<and> parse x \<noteq> None" if "fmlookup cur j = Some x"
      using that assms(1) unfolding represents_def by blast
    with that assms(3,4) show ?thesis unfolding L by blast
  qed
  have "represents parse n (fmupd i w cur) ?v"
    unfolding represents_def by (intro conjI allI em us impI ty)
  with R show ?thesis by blast
qed

subsection \<open>The loops\<close>

definition without :: "user list \<Rightarrow> (int64, string) fmap \<Rightarrow> (int64, string) fmap" where
  "without us cur = fmdrop_set (u_ID ` set us) cur"

definition with_users :: "user list \<Rightarrow> (int64, string) fmap \<Rightarrow> (int64, string) fmap" where
  "with_users us cur = cur ++\<^sub>f fmap_of_list (map (\<lambda>u. (u_ID u, u_UUID u)) us)"

lemma without_simps [simp]: "without [] cur = cur" "without (u # us) cur = without us (fmdrop (u_ID u) cur)"
  by (auto simp: without_def intro!: fmap_ext)

lemma with_users_Nil [simp]: "with_users [] cur = cur"
  by (simp add: with_users_def)

lemma with_users_lookup:
  "fmlookup (with_users us cur) i = (case map_of (map (\<lambda>u. (u_ID u, u_UUID u)) us) i of
     None \<Rightarrow> fmlookup cur i | Some w \<Rightarrow> Some w)"
proof -
  let ?m = "fmap_of_list (map (\<lambda>u. (u_ID u, u_UUID u)) us)"
  have "i |\<in>| fmdom ?m \<longleftrightarrow> map_of (map (\<lambda>u. (u_ID u, u_UUID u)) us) i \<noteq> None"
    by (simp only: fmlookup_dom_iff fmlookup_of_list) auto
  then show ?thesis
    unfolding with_users_def fmlookup_add fmlookup_of_list by (auto split: option.split)
qed

lemma with_users_Cons:
  assumes "u_ID u \<notin> u_ID ` set us"
  shows "with_users (u # us) cur = with_users us (fmupd (u_ID u) (u_UUID u) cur)"
  using assms by (intro fmap_ext) (auto simp: with_users_lookup map_of_eq_None_iff image_iff split: option.split
      dest: map_of_SomeD)

lemma keys_distinct_mono: "keys_distinct parse S \<Longrightarrow> T \<subseteq> S \<Longrightarrow> keys_distinct parse T"
  unfolding keys_distinct_def by blast

lemma remove_loop_represents:
  assumes "represents parse n cur v" and "keys_distinct parse (fmgraph cur)" and "distinct (map u_ID us)"
    and "\<forall>u \<in> set us. fmlookup cur (u_ID u) = Some (u_UUID u)"
  shows "\<exists>v'. remove_loop (n_ID n) us done v = (None, done @ us, v') \<and> represents parse n (without us cur) v'"
  using assms
proof (induction us arbitrary: cur v "done")
  case (Cons u us)
  obtain v1 where v1: "RemoveUser (UserEmail (n_ID n) (u_ID u)) v = (None, v1)"
      "represents parse n (fmdrop (u_ID u) cur) v1"
    using RemoveUser_represents [OF Cons.prems(1) _ Cons.prems(2), of "u_ID u" "u_UUID u"] Cons.prems(4) by auto
  have "keys_distinct parse (fmgraph (fmdrop (u_ID u) cur))"
    by (rule keys_distinct_mono [OF Cons.prems(2)]) (auto simp: fmgraph_def split: if_splits)
  moreover have "\<forall>w \<in> set us. fmlookup (fmdrop (u_ID u) cur) (u_ID w) = Some (u_UUID w)"
    using Cons.prems(3,4) by (auto simp: image_iff)
  ultimately show ?case
    using Cons.IH [OF v1(2), of "done @ [u]"] Cons.prems(3) v1(1) by auto
qed simp

lemma rollback_removes_represents:
  assumes "represents parse n cur v" and "keys_distinct parse (fmgraph cur)" and "distinct (map u_ID us)"
    and "\<forall>u \<in> set us. fmlookup cur (u_ID u) = Some (u_UUID u)"
  shows "\<exists>v'. rollback_removes (n_ID n) us v = ([], v') \<and> represents parse n (without us cur) v'"
  using assms
proof (induction us arbitrary: cur v)
  case (Cons u us)
  obtain v1 where v1: "RemoveUser (UserEmail (n_ID n) (u_ID u)) v = (None, v1)"
      "represents parse n (fmdrop (u_ID u) cur) v1"
    using RemoveUser_represents [OF Cons.prems(1) _ Cons.prems(2), of "u_ID u" "u_UUID u"] Cons.prems(4) by auto
  have "keys_distinct parse (fmgraph (fmdrop (u_ID u) cur))"
    by (rule keys_distinct_mono [OF Cons.prems(2)]) (auto simp: fmgraph_def split: if_splits)
  moreover have "\<forall>w \<in> set us. fmlookup (fmdrop (u_ID u) cur) (u_ID w) = Some (u_UUID w)"
    using Cons.prems(3,4) by (auto simp: image_iff)
  ultimately show ?case
    using Cons.IH [OF v1(2)] Cons.prems(3) v1(1) by auto
qed simp

definition parses :: "(string \<Rightarrow> nat list option) \<Rightarrow> user \<Rightarrow> bool" where
  "parses parse u \<longleftrightarrow> parse (u_UUID u) \<noteq> None"

lemma memoryUser_parses: "parses parse u \<Longrightarrow> memoryUser parse n u = Inr (member_for parse n (u_ID u) (u_UUID u))"
  by (auto simp: parses_def memoryUser_def member_for_def)

text \<open>Adding stops at the first user whose id does not parse.\<close>

lemma add_loop_represents:
  assumes "represents parse n cur v" and "keys_distinct parse (fmgraph (with_users us cur))"
    and "distinct (map u_ID us)" and "\<forall>u \<in> set us. fmlookup cur (u_ID u) = None \<and> int64_ok (u_ID u)"
  shows "\<exists>err v'. add_loop parse n us done v = (err, done @ takeWhile (parses parse) us, v') \<and>
    represents parse n (with_users (takeWhile (parses parse) us) cur) v' \<and>
    (err = None \<longleftrightarrow> list_all (parses parse) us)"
  using assms
proof (induction us arbitrary: cur v "done")
  case (Cons u us)
  have fresh: "u_ID u \<notin> u_ID ` set us" using Cons.prems(3) by simp
  show ?case
  proof (cases "parses parse u")
    case True
    let ?cur = "fmupd (u_ID u) (u_UUID u) cur"
    have w: "with_users (u # us) cur = with_users us ?cur" by (rule with_users_Cons [OF fresh])
    have k: "keys_distinct parse (fmgraph ?cur)"
    proof (rule keys_distinct_mono [OF Cons.prems(2)])
      have "fmlookup (with_users us ?cur) i = Some y" if "fmlookup ?cur i = Some y" for i y
      proof -
        have "i \<notin> u_ID ` set us" using that Cons.prems(3,4) fresh by (auto split: if_splits)
        then have "map_of (map (\<lambda>u. (u_ID u, u_UUID u)) us) i = None" by (auto simp: map_of_eq_None_iff)
        with that show ?thesis by (simp add: with_users_lookup)
      qed
      then show "fmgraph ?cur \<subseteq> fmgraph (with_users (u # us) cur)" unfolding w by auto
    qed
    obtain v1 where v1: "AddUser (member_for parse n (u_ID u) (u_UUID u)) v = (None, v1)" "represents parse n ?cur v1"
      using AddUser_represents [OF Cons.prems(1) _ _ _ k] Cons.prems(4) True by (auto simp: parses_def)
    have "\<forall>w \<in> set us. fmlookup ?cur (u_ID w) = None \<and> int64_ok (u_ID w)"
      using Cons.prems(4) fresh by (auto simp: image_iff)
    then obtain err v' where "add_loop parse n us (done @ [u]) v1 = (err, (done @ [u]) @ takeWhile (parses parse) us, v')"
        "represents parse n (with_users (takeWhile (parses parse) us) ?cur) v'" "err = None \<longleftrightarrow> list_all (parses parse) us"
      using Cons.IH [OF v1(2), of "done @ [u]"] Cons.prems(2,3) w by auto
    moreover have "with_users (takeWhile (parses parse) (u # us)) cur = with_users (takeWhile (parses parse) us) ?cur"
      using fresh set_takeWhileD True by (simp, intro with_users_Cons) fastforce
    ultimately show ?thesis using True v1(1) by (simp add: memoryUser_parses)
  next
    case False
    with Cons.prems(1) show ?thesis by (simp add: memoryUser_def parses_def)
  qed
qed simp

lemma rollback_adds_represents:
  assumes "represents parse n cur v" and "keys_distinct parse (fmgraph (with_users us cur))"
    and "distinct (map u_ID us)"
    and "\<forall>u \<in> set us. fmlookup cur (u_ID u) = None \<and> int64_ok (u_ID u) \<and> parses parse u"
  shows "\<exists>v'. rollback_adds parse n us v = ([], v') \<and> represents parse n (with_users us cur) v'"
proof -
  have "add_loop parse n us done v = (None, done', v') \<Longrightarrow> rollback_adds parse n us v = ([], v')" for "done" done' v v'
    by (induction us arbitrary: v "done") (auto split: sum.splits prod.splits option.splits)
  moreover have t: "takeWhile (parses parse) us = us" using assms(4) by (simp add: takeWhile_eq_all_conv)
  moreover obtain err v' where "add_loop parse n us [] v = (err, [] @ takeWhile (parses parse) us, v')"
      "represents parse n (with_users (takeWhile (parses parse) us) cur) v'" "err = None \<longleftrightarrow> list_all (parses parse) us"
    using add_loop_represents [OF assms(1-3), of "[]"] assms(4) by blast
  ultimately show ?thesis using assms(4) unfolding t by (auto simp: list_all_iff)
qed

subsection \<open>The difference of two snapshots\<close>

lemma usersByID_key: "fmlookup (usersByID us) i = Some u \<Longrightarrow> u \<in> set us \<and> u_ID u = i"
proof (induction us rule: rev_induct)
  case (snoc x us)
  then show ?case by (auto simp: usersByID_def split: if_splits)
qed (simp add: usersByID_def)

lemma usersByID_distinct:
  assumes "distinct (map u_ID us)" and "u \<in> set us"
  shows "fmlookup (usersByID us) (u_ID u) = Some u"
  using assms
proof (induction us rule: rev_induct)
  case (snoc x us)
  then show ?case by (cases "u = x") (auto simp: usersByID_def)
qed simp

lemma usersByID_dom: "fmdom (usersByID us) = fset_of_list (map u_ID us)"
  by (induction us rule: rev_induct) (auto simp: usersByID_def)

lemma changed_users_mem:
  "u \<in> set (changed_users (usersByID us) b) \<longleftrightarrow> fmlookup (usersByID us) (u_ID u) = Some u \<and>
     (case fmlookup b (u_ID u) of None \<Rightarrow> True | Some w \<Rightarrow> u_UUID u \<noteq> u_UUID w)"
proof -
  have "set (map (\<lambda>i. the (fmlookup (usersByID us) i)) (sorted_list_of_fset (fmdom (usersByID us))))
      = {u. fmlookup (usersByID us) (u_ID u) = Some u}"
  proof (intro set_eqI iffI)
    fix u assume "u \<in> set (map (\<lambda>i. the (fmlookup (usersByID us) i)) (sorted_list_of_fset (fmdom (usersByID us))))"
    then obtain i w where "fmlookup (usersByID us) i = Some w" "u = w"
      by (auto simp: sorted_list_of_fset.rep_eq fmlookup_dom_iff)
    with usersByID_key show "u \<in> {u. fmlookup (usersByID us) (u_ID u) = Some u}" by auto
  next
    fix u assume "u \<in> {u. fmlookup (usersByID us) (u_ID u) = Some u}"
    then have "fmlookup (usersByID us) (u_ID u) = Some u" by simp
    then show "u \<in> set (map (\<lambda>i. the (fmlookup (usersByID us) i)) (sorted_list_of_fset (fmdom (usersByID us))))"
      by (auto simp: sorted_list_of_fset.rep_eq image_iff intro!: bexI [of _ "u_ID u"] fmdomI)
  qed
  then show ?thesis unfolding changed_users_def by auto
qed

lemma changed_users_ids: "distinct (map u_ID (changed_users (usersByID us) b))"
proof -
  let ?xs = "sorted_list_of_fset (fmdom (usersByID us))"
  have "u_ID (the (fmlookup (usersByID us) i)) = i" if "i \<in> set ?xs" for i
  proof -
    have "i |\<in>| fmdom (usersByID us)" using that by (simp add: sorted_list_of_fset.rep_eq)
    then obtain w where "fmlookup (usersByID us) i = Some w" by (auto simp: fmlookup_dom_iff)
    with usersByID_key [OF this] show ?thesis by simp
  qed
  then have "map u_ID (map (\<lambda>i. the (fmlookup (usersByID us) i)) ?xs) = ?xs"
    unfolding map_map comp_def by (intro map_idI) simp
  then have "distinct (map u_ID (map (\<lambda>i. the (fmlookup (usersByID us) i)) ?xs))"
    by (simp only:) (simp add: sorted_list_of_fset.rep_eq)
  then show ?thesis unfolding changed_users_def by (rule distinct_map_filter)
qed

lemma uuids_lookup: "fmlookup (uuids us) i = Some w \<longleftrightarrow> (\<exists>u. fmlookup (usersByID us) i = Some u \<and> u_UUID u = w)"
  by (auto simp: uuids_def)

lemma map_of_users:
  assumes "distinct (map u_ID us)"
  shows "map_of (map (\<lambda>u. (u_ID u, u_UUID u)) us) i = Some w \<longleftrightarrow> (\<exists>u \<in> set us. u_ID u = i \<and> u_UUID u = w)"
proof -
  have "distinct (map fst (map (\<lambda>u. (u_ID u, u_UUID u)) us))" using assms by (simp add: comp_def)
  then show ?thesis by (auto simp: map_of_eq_Some_iff image_iff)
qed

lemma without_lookup:
  "fmlookup (without us cur) i = (if i \<in> u_ID ` set us then None else fmlookup cur i)"
  by (simp add: without_def)

text \<open>After the removals and the additions the table is that of the next snapshot.\<close>

lemma move_to_next:
  "with_users (changed_users (usersByID new) (usersByID old)) (without (changed_users (usersByID old) (usersByID new)) (uuids old))
     = uuids new"
proof (rule fmap_ext)
  fix i
  let ?R = "changed_users (usersByID old) (usersByID new)" and ?A = "changed_users (usersByID new) (usersByID old)"
  have inR: "i \<in> u_ID ` set ?R \<longleftrightarrow> (\<exists>u. fmlookup (usersByID old) i = Some u \<and>
      (case fmlookup (usersByID new) i of None \<Rightarrow> True | Some w \<Rightarrow> u_UUID u \<noteq> u_UUID w))"
    using usersByID_key by (force simp: image_iff changed_users_mem)
  have inA: "map_of (map (\<lambda>u. (u_ID u, u_UUID u)) ?A) i = Some w \<longleftrightarrow>
      (\<exists>u. fmlookup (usersByID new) i = Some u \<and> u_UUID u = w \<and>
        (case fmlookup (usersByID old) i of None \<Rightarrow> True | Some x \<Rightarrow> u_UUID u \<noteq> u_UUID x))" for w
    unfolding map_of_users [OF changed_users_ids] using usersByID_key by (force simp: changed_users_mem)
  show "fmlookup (with_users ?A (without ?R (uuids old))) i = fmlookup (uuids new) i"
  proof (cases "fmlookup (usersByID new) i")
    case None
    then have "map_of (map (\<lambda>u. (u_ID u, u_UUID u)) ?A) i = None" using inA by (metis not_Some_eq option.distinct(1))
    with None show ?thesis
      by (cases "fmlookup (usersByID old) i") (auto simp: with_users_lookup without_lookup inR uuids_def)
  next
    case (Some u)
    show ?thesis
    proof (cases "map_of (map (\<lambda>u. (u_ID u, u_UUID u)) ?A) i")
      case None
      then obtain x where "fmlookup (usersByID old) i = Some x" "u_UUID u = u_UUID x"
        using inA [of "u_UUID u"] Some by (auto split: option.splits)
      with None Some show ?thesis by (simp add: with_users_lookup without_lookup inR uuids_def)
    next
      case w: (Some w)
      with inA [of w] Some show ?thesis by (simp add: with_users_lookup uuids_def)
    qed
  qed
qed

text \<open>Undoing part of the additions and all removals leads back.\<close>

lemma move_back:
  assumes "set A \<subseteq> set (changed_users (usersByID new) (usersByID old))"
    and "distinct (map u_ID A)"
  shows "with_users (changed_users (usersByID old) (usersByID new))
     (without A (with_users A (without (changed_users (usersByID old) (usersByID new)) (uuids old)))) = uuids old"
proof (rule fmap_ext)
  fix i
  let ?R = "changed_users (usersByID old) (usersByID new)"
  have inR: "map_of (map (\<lambda>u. (u_ID u, u_UUID u)) ?R) i = Some w \<longleftrightarrow>
      (\<exists>u \<in> set ?R. u_ID u = i \<and> u_UUID u = w)" for w
    by (rule map_of_users [OF changed_users_ids])
  show "fmlookup (with_users ?R (without A (with_users A (without ?R (uuids old))))) i = fmlookup (uuids old) i"
  proof (cases "map_of (map (\<lambda>u. (u_ID u, u_UUID u)) ?R) i")
    case (Some w)
    with inR [of w] show ?thesis by (auto simp: with_users_lookup changed_users_mem uuids_def)
  next
    case None
    then have notR: "i \<notin> u_ID ` set ?R" by (force simp: map_of_eq_None_iff)
    have "fmlookup (usersByID old) i = None" if inA: "i \<in> u_ID ` set A"
    proof (rule ccontr)
      assume "fmlookup (usersByID old) i \<noteq> None"
      then obtain x where x: "fmlookup (usersByID old) i = Some x" by auto
      obtain u where u: "u \<in> set A" "u_ID u = i" using inA by auto
      then have "fmlookup (usersByID new) i = Some u" "u_UUID u \<noteq> u_UUID x"
        using assms(1) x by (auto simp: changed_users_mem dest!: subsetD)
      then have "x \<in> set ?R" using x usersByID_key [OF x] by (auto simp: changed_users_mem)
      with notR usersByID_key [OF x] show False by auto
    qed
    moreover have "map_of (map (\<lambda>u. (u_ID u, u_UUID u)) A) i = None" if "i \<notin> u_ID ` set A"
      using that by (auto simp: map_of_eq_None_iff)
    ultimately show ?thesis using None notR
      by (cases "i \<in> u_ID ` set A") (auto simp: with_users_lookup without_lookup uuids_def)
  qed
qed

subsection \<open>Apply\<close>

lemma represents_node:
  "n_ID n = n_ID m \<Longrightarrow> n_Flow n = n_Flow m \<Longrightarrow> represents parse n = represents parse m"
  by (intro ext) (simp add: represents_def member_for_def)

lemma with_users_graph: "fmgraph (with_users us cur) \<subseteq> fmgraph cur \<union> (\<lambda>u. (u_ID u, u_UUID u)) ` set us"
  by (auto simp: fmgraph_def with_users_lookup split: option.splits dest!: map_of_SomeD)

lemma changed_graph: "(\<lambda>u. (u_ID u, u_UUID u)) ` set (changed_users (usersByID us) b) \<subseteq> fmgraph (uuids us)"
  by (auto simp: fmgraph_def changed_users_mem uuids_lookup)

lemma without_graph: "fmgraph (without us cur) \<subseteq> fmgraph cur"
  by (auto simp: fmgraph_def without_lookup split: if_splits)

lemma with_users_added:
  assumes "distinct (map u_ID us)" and "u \<in> set us"
  shows "fmlookup (with_users us cur) (u_ID u) = Some (u_UUID u)"
proof -
  have "map_of (map (\<lambda>u. (u_ID u, u_UUID u)) us) (u_ID u) = Some (u_UUID u)"
    using map_of_users [OF assms(1)] assms(2) by auto
  then show ?thesis by (simp add: with_users_lookup)
qed

text \<open>A failed update is rolled back completely: the table is the one of before.\<close>

lemma rollbackUsers_restores:
  assumes "represents parse n (uuids old) v0" and "keys_distinct parse (fmgraph (uuids old) \<union> fmgraph (uuids new))"
    and "set A \<subseteq> set (changed_users (usersByID new) (usersByID old))" and "distinct (map u_ID A)"
    and "represents parse n (with_users A (without (changed_users (usersByID old) (usersByID new)) (uuids old))) v"
  shows "rollbackUsers parse n A (changed_users (usersByID old) (usersByID new)) cause v = (cause, v0)"
proof -
  let ?R = "changed_users (usersByID old) (usersByID new)"
  let ?cur = "with_users A (without ?R (uuids old))"
  have "(\<lambda>u. (u_ID u, u_UUID u)) ` set A \<subseteq> fmgraph (uuids new)" using assms(3) changed_graph by blast
  then have g: "fmgraph ?cur \<subseteq> fmgraph (uuids old) \<union> fmgraph (uuids new)"
    using with_users_graph [of A] without_graph [of ?R "uuids old"] by blast
  obtain v1 where v1: "rollback_removes (n_ID n) A v = ([], v1)" "represents parse n (without A ?cur) v1"
    using rollback_removes_represents [OF assms(5) keys_distinct_mono [OF assms(2) g] assms(4)]
      with_users_added [OF assms(4)] by blast
  have undo: "with_users ?R (without A ?cur) = uuids old" by (rule move_back [OF assms(3,4)])
  have "fmlookup (without A ?cur) (u_ID u) = None \<and> int64_ok (u_ID u) \<and> parses parse u" if u: "u \<in> set ?R" for u
  proof -
    have "fmlookup (uuids old) (u_ID u) = Some (u_UUID u)" using u by (auto simp: changed_users_mem uuids_lookup)
    then have "int64_ok (u_ID u)" "parses parse u" using assms(1) by (auto simp: represents_def parses_def)
    moreover have "map_of (map (\<lambda>u. (u_ID u, u_UUID u)) A) (u_ID u) = None" if "u_ID u \<notin> u_ID ` set A"
      using that by (force simp: map_of_eq_None_iff)
    then have "fmlookup (without A ?cur) (u_ID u) = None"
      using u by (auto simp: without_lookup with_users_lookup)
    ultimately show ?thesis by blast
  qed
  moreover have "keys_distinct parse (fmgraph (with_users ?R (without A ?cur)))"
    unfolding undo by (rule keys_distinct_mono [OF assms(2)]) blast
  ultimately obtain v2 where "rollback_adds parse n ?R v1 = ([], v2)" "represents parse n (uuids old) v2"
    using rollback_adds_represents [OF v1(2) _ changed_users_ids] undo by metis
  moreover from this have "v2 = v0" using represents_unique assms(1) by blast
  ultimately show ?thesis using v1(1) by (simp add: rollbackUsers_def)
qed

definition update_ready :: "(string \<Rightarrow> nat list option) \<Rightarrow> snapshot \<Rightarrow> engine \<Rightarrow> bool" where
  "update_ready parse next_s e \<longleftrightarrow>
     represents parse (s_Node (en_snapshot e)) (uuids (s_Users (en_snapshot e))) (en_users e) \<and>
     keys_distinct parse (fmgraph (uuids (s_Users (en_snapshot e))) \<union> fmgraph (uuids (s_Users next_s))) \<and>
     (\<forall>u \<in> set (s_Users next_s). int64_ok (u_ID u))"

text \<open>The two loops of \<^verbatim>\<open>Apply\<close> on a table that represents the installed snapshot.\<close>

lemma loops_represent:
  assumes "update_ready parse next_s e" and "dataPlaneNodeEqual (s_Node (en_snapshot e)) (s_Node next_s)"
  obtains v1 err v2 where
    "remove_loop (n_ID (s_Node (en_snapshot e))) (changed_users (usersByID (s_Users (en_snapshot e)))
       (usersByID (s_Users next_s))) [] (en_users e) = (None, changed_users (usersByID (s_Users (en_snapshot e)))
       (usersByID (s_Users next_s)), v1)"
    "add_loop parse (s_Node next_s) (changed_users (usersByID (s_Users next_s)) (usersByID (s_Users (en_snapshot e))))
       [] v1 = (err, takeWhile (parses parse) (changed_users (usersByID (s_Users next_s))
          (usersByID (s_Users (en_snapshot e)))), v2)"
    "represents parse (s_Node (en_snapshot e)) (with_users (takeWhile (parses parse)
       (changed_users (usersByID (s_Users next_s)) (usersByID (s_Users (en_snapshot e)))))
       (without (changed_users (usersByID (s_Users (en_snapshot e))) (usersByID (s_Users next_s)))
         (uuids (s_Users (en_snapshot e))))) v2"
    "err = None \<longleftrightarrow> list_all (parses parse) (changed_users (usersByID (s_Users next_s))
       (usersByID (s_Users (en_snapshot e))))"
proof -
  let ?n = "s_Node (en_snapshot e)" and ?old = "s_Users (en_snapshot e)" and ?new = "s_Users next_s"
  let ?R = "changed_users (usersByID ?old) (usersByID ?new)" and ?A = "changed_users (usersByID ?new) (usersByID ?old)"
  let ?cur = "without ?R (uuids ?old)"
  have ready: "represents parse ?n (uuids ?old) (en_users e)"
      "keys_distinct parse (fmgraph (uuids ?old) \<union> fmgraph (uuids ?new))" "\<forall>u \<in> set ?new. int64_ok (u_ID u)"
    using assms(1) by (simp_all add: update_ready_def)
  have node: "represents parse (s_Node next_s) = represents parse ?n"
    using assms(2) by (intro represents_node) (simp_all add: dataPlaneNodeEqual_def)
  have "\<forall>u \<in> set ?R. fmlookup (uuids ?old) (u_ID u) = Some (u_UUID u)"
    by (auto simp: changed_users_mem uuids_lookup)
  then obtain v1 where v1: "remove_loop (n_ID ?n) ?R [] (en_users e) = (None, ?R, v1)" "represents parse ?n ?cur v1"
    using remove_loop_represents [OF ready(1) keys_distinct_mono [OF ready(2)] changed_users_ids, of ?old "usersByID ?new" "[]"]
    by auto
  have "fmgraph (with_users ?A ?cur) \<subseteq> fmgraph (uuids ?old) \<union> fmgraph (uuids ?new)"
    using with_users_graph [of ?A ?cur] without_graph [of ?R "uuids ?old"] changed_graph [of ?new "usersByID ?old"]
    by blast
  then have k: "keys_distinct parse (fmgraph (with_users ?A ?cur))" using keys_distinct_mono [OF ready(2)] by blast
  have free: "\<forall>u \<in> set ?A. fmlookup ?cur (u_ID u) = None \<and> int64_ok (u_ID u)"
  proof
    fix u assume u: "u \<in> set ?A"
    then have un: "fmlookup (usersByID ?new) (u_ID u) = Some u" by (simp add: changed_users_mem)
    have "fmlookup ?cur (u_ID u) = None"
    proof (cases "fmlookup (usersByID ?old) (u_ID u)")
      case None
      then show ?thesis by (simp add: without_lookup uuids_def)
    next
      case (Some x)
      then have "u_ID x = u_ID u" "u_UUID u \<noteq> u_UUID x" using u usersByID_key by (auto simp: changed_users_mem)
      then have "x \<in> set ?R" using Some un by (simp add: changed_users_mem)
      with \<open>u_ID x = u_ID u\<close> show ?thesis by (auto simp: without_lookup image_iff intro!: bexI [of _ x])
    qed
    then show "fmlookup ?cur (u_ID u) = None \<and> int64_ok (u_ID u)" using usersByID_key [OF un] ready(3) by blast
  qed
  obtain err v2 where v2: "add_loop parse (s_Node next_s) ?A [] v1 = (err, [] @ takeWhile (parses parse) ?A, v2)"
      "represents parse (s_Node next_s) (with_users (takeWhile (parses parse) ?A) ?cur) v2"
      "err = None \<longleftrightarrow> list_all (parses parse) ?A"
    using add_loop_represents [of parse "s_Node next_s" ?cur v1 ?A "[]"] v1(2) k changed_users_ids free
    unfolding node by blast
  with v1(1) that show thesis unfolding node by simp
qed

lemma takeWhile_map_prefix: "distinct (map f xs) \<Longrightarrow> distinct (map f (takeWhile P xs))"
  by (induction xs) (auto dest: set_takeWhileD)

lemma Apply_rejected:
  "\<not> en_instance e \<Longrightarrow> Apply parse next_s e = Some (e, [], Inl EngineClosed)"
  "en_instance e \<Longrightarrow> \<not> CanApply next_s e \<Longrightarrow> Apply parse next_s e = Some (e, [], Inl NeedsRestart)"
  by (simp_all add: Apply_def CanApply_def)

lemma represents_typed:
  "represents parse n cur v \<Longrightarrow> fmlookup cur i = Some w \<Longrightarrow> int64_ok i \<and> parse w \<noteq> None"
  by (simp add: represents_def)

lemma Apply_done:
  assumes "en_instance e" and "dataPlaneNodeEqual (s_Node (en_snapshot e)) (s_Node next_s)"
    and "remove_loop (n_ID (s_Node (en_snapshot e))) (changed_users (usersByID (s_Users (en_snapshot e)))
       (usersByID (s_Users next_s))) [] (en_users e) = (None, R, v1)"
    and "add_loop parse (s_Node next_s) (changed_users (usersByID (s_Users next_s))
       (usersByID (s_Users (en_snapshot e)))) [] v1 = (None, A, v2)"
  shows "Update next_s (en_sessions e) = None \<Longrightarrow> Apply parse next_s e = None"
    and "Update next_s (en_sessions e) = Some (sessions, callbacks, revoked) \<Longrightarrow>
      Apply parse next_s e = Some (e\<lparr>en_users := v2, en_sessions := sessions,
        en_retired := (en_retired e |\<union>| (fmdom (usersByID (s_Users (en_snapshot e))) |-|
          fmdom (usersByID (s_Users next_s)))) |-| fmdom (usersByID (s_Users next_s)),
        en_snapshot := next_s\<rparr>, callbacks, Inr revoked)"
  using assms by (simp_all add: Apply_def Let_def)

lemma Apply_undone:
  assumes "en_instance e" and "dataPlaneNodeEqual (s_Node (en_snapshot e)) (s_Node next_s)"
    and "remove_loop (n_ID (s_Node (en_snapshot e))) (changed_users (usersByID (s_Users (en_snapshot e)))
       (usersByID (s_Users next_s))) [] (en_users e) = (None, R, v1)"
    and "add_loop parse (s_Node next_s) (changed_users (usersByID (s_Users next_s))
       (usersByID (s_Users (en_snapshot e)))) [] v1 = (Some cause, A, v2)"
    and "rollbackUsers parse (s_Node (en_snapshot e)) A R cause v2 = (err, v)"
  shows "Apply parse next_s e = Some (e\<lparr>en_users := v\<rparr>, [], Inl err)"
  using assms by (simp add: Apply_def Let_def)

lemma Apply_ready:
  assumes "update_ready parse next_s e" and "en_instance e" and "CanApply next_s e"
  shows "if list_all (parses parse) (s_Users next_s)
    then (case Update next_s (en_sessions e) of
       None \<Rightarrow> Apply parse next_s e = None
     | Some (sessions, callbacks, revoked) \<Rightarrow>
         (\<exists>v. Apply parse next_s e = Some (e\<lparr>en_users := v, en_sessions := sessions,
             en_retired := (en_retired e |\<union>| (fmdom (usersByID (s_Users (en_snapshot e))) |-|
               fmdom (usersByID (s_Users next_s)))) |-| fmdom (usersByID (s_Users next_s)),
             en_snapshot := next_s\<rparr>, callbacks, Inr revoked) \<and>
           represents parse (s_Node next_s) (uuids (s_Users next_s)) v))
    else distinct (map u_ID (s_Users next_s)) \<longrightarrow> (\<exists>err. Apply parse next_s e = Some (e, [], Inl err))"
proof -
  let ?n = "s_Node (en_snapshot e)" and ?old = "s_Users (en_snapshot e)" and ?new = "s_Users next_s"
  let ?R = "changed_users (usersByID ?old) (usersByID ?new)" and ?A = "changed_users (usersByID ?new) (usersByID ?old)"
  have eq: "dataPlaneNodeEqual ?n (s_Node next_s)" using assms(3) by (simp add: CanApply_def)
  have ready: "represents parse ?n (uuids ?old) (en_users e)"
      "keys_distinct parse (fmgraph (uuids ?old) \<union> fmgraph (uuids ?new))"
    using assms(1) by (simp_all add: update_ready_def)
  have node: "represents parse (s_Node next_s) = represents parse ?n"
    using eq by (intro represents_node) (simp_all add: dataPlaneNodeEqual_def)
  obtain v1 err v2 where L: "remove_loop (n_ID ?n) ?R [] (en_users e) = (None, ?R, v1)"
      "add_loop parse (s_Node next_s) ?A [] v1 = (err, takeWhile (parses parse) ?A, v2)"
      "represents parse ?n (with_users (takeWhile (parses parse) ?A) (without ?R (uuids ?old))) v2"
      "err = None \<longleftrightarrow> list_all (parses parse) ?A"
    by (rule loops_represent [OF assms(1) eq])
  show ?thesis
  proof (cases "list_all (parses parse) ?new")
    case True
    have "list_all (parses parse) ?A"
      unfolding list_all_iff
    proof
      fix u assume "u \<in> set ?A"
      then have "fmlookup (usersByID ?new) (u_ID u) = Some u" by (simp add: changed_users_mem)
      with usersByID_key have "u \<in> set ?new" by blast
      with True show "parses parse u" by (simp add: list_all_iff)
    qed
    then have all: "takeWhile (parses parse) ?A = ?A" "err = None"
      using L(4) by (simp_all add: list_all_iff takeWhile_eq_all_conv)
    have rep: "represents parse (s_Node next_s) (uuids ?new) v2"
      using L(3) unfolding all(1) move_to_next node .
    note A = Apply_done [OF assms(2) eq L(1) L(2) [unfolded all]]
    show ?thesis
    proof (cases "Update next_s (en_sessions e)")
      case None
      with A(1) True show ?thesis by simp
    next
      case (Some r)
      obtain sessions callbacks revoked where r: "r = (sessions, callbacks, revoked)" by (cases r)
      have "Apply parse next_s e = Some (e\<lparr>en_users := v2, en_sessions := sessions,
          en_retired := (en_retired e |\<union>| (fmdom (usersByID ?old) |-| fmdom (usersByID ?new))) |-| fmdom (usersByID ?new),
          en_snapshot := next_s\<rparr>, callbacks, Inr revoked)"
        using Some unfolding r by (rule A(2))
      with Some r True rep show ?thesis by (simp only: if_True option.case prod.case) blast
    qed
  next
    case False
    show ?thesis
    proof (cases "distinct (map u_ID ?new)")
      case True
      obtain u where u: "u \<in> set ?new" "\<not> parses parse u" using False by (auto simp: list_all_iff)
      have un: "fmlookup (usersByID ?new) (u_ID u) = Some u" by (rule usersByID_distinct [OF True u(1)])
      have "u \<in> set ?A"
      proof -
        have "parses parse u" if "fmlookup (usersByID ?old) (u_ID u) = Some x" "u_UUID u = u_UUID x" for x
        proof -
          have "fmlookup (uuids ?old) (u_ID u) = Some (u_UUID u)" using that by (auto simp: uuids_lookup)
          with represents_typed [OF ready(1)] show ?thesis by (simp add: parses_def)
        qed
        with u(2) have "case fmlookup (usersByID ?old) (u_ID u) of None \<Rightarrow> True | Some w \<Rightarrow> u_UUID u \<noteq> u_UUID w"
          by (cases "fmlookup (usersByID ?old) (u_ID u)") auto
        with un show ?thesis by (simp add: changed_users_mem)
      qed
      then obtain cause where c: "err = Some cause" using L(4) u(2) by (auto simp: list_all_iff)
      have "set (takeWhile (parses parse) ?A) \<subseteq> set ?A" by (auto dest: set_takeWhileD)
      moreover have "distinct (map u_ID (takeWhile (parses parse) ?A))"
        by (rule takeWhile_map_prefix [OF changed_users_ids])
      ultimately have "rollbackUsers parse ?n (takeWhile (parses parse) ?A) ?R cause v2 = (cause, en_users e)"
        by (rule rollbackUsers_restores [OF ready _ _ L(3)])
      then have "Apply parse next_s e = Some (e\<lparr>en_users := en_users e\<rparr>, [], Inl cause)"
        by (rule Apply_undone [OF assms(2) eq L(1) L(2) [unfolded c]])
      then show ?thesis using False by simp
    next
      case nd: False
      with False show ?thesis by simp
    qed
  qed
qed

end
