(* ===== verification/Engine_Counters.thy ===== *)
theory Engine_Counters
  imports Engine_Users
begin

text \<open>
  The traffic counters of the engine: a drain takes every counter of a known user exactly once and
  sets it to zero, and restoring the drained entries undoes it, whatever traffic was counted in
  between.
\<close>

subsection \<open>Counter names\<close>

lemma email_no_gt: "CHR ''>'' \<notin> set (UserEmail n i)"
proof -
  have "CHR ''>'' \<notin> set (itoa k)" for k
    by (auto simp: itoa_def is_digit_def dest!: show_10_digits split: if_splits)
  then show ?thesis by (simp add: UserEmail_def)
qed

lemma counter_name_inj:
  assumes "int64_ok i" and "int64_ok j" and "counter_name n i d = counter_name n j d'"
  shows "i = j \<and> d = d'"
proof -
  have eq: "UserEmail n i @ CHR ''>'' # ''>>traffic>>>'' @ d = UserEmail n j @ CHR ''>'' # ''>>traffic>>>'' @ d'"
    using assms(3) by (simp add: counter_name_def)
  have tw: "takeWhile (\<lambda>c. c \<noteq> CHR ''>'') (UserEmail n k @ CHR ''>'' # y) = UserEmail n k" for k y
    using email_no_gt [of n k] by (intro takeWhile_all_stop) auto
  from eq tw have "UserEmail n i = UserEmail n j" by metis
  with assms(1,2) UserEmail_inj have "i = j" by blast
  with eq show ?thesis by simp
qed

definition counters_of :: "int64 \<Rightarrow> int64 list \<Rightarrow> string set" where
  "counters_of n ids = (\<Union>i \<in> set ids. {counter_name n i ''uplink'', counter_name n i ''downlink''})"

lemma counters_of_simps [simp]:
  "counters_of n [] = {}"
  "counters_of n (i # ids) = {counter_name n i ''uplink'', counter_name n i ''downlink''} \<union> counters_of n ids"
  by (auto simp: counters_of_def)

lemma counters_of_fresh:
  assumes "int64_ok i" and "\<forall>j \<in> set ids. int64_ok j" and "i \<notin> set ids"
  shows "counter_name n i d \<notin> counters_of n ids"
  using assms by (auto simp: counters_of_def dest!: counter_name_inj)

subsection \<open>Draining\<close>

definition zero :: "string set \<Rightarrow> (string, int64) fmap \<Rightarrow> (string, int64) fmap" where
  "zero S m = fmmap_keys (\<lambda>k v. if k \<in> S then 0 else v) m"

lemma zero_lookup [simp]: "fmlookup (zero S m) k = map_option (\<lambda>v. if k \<in> S then 0 else v) (fmlookup m k)"
  by (simp add: zero_def)

lemma zero_zero [simp]: "zero S (zero T m) = zero (S \<union> T) m"
proof (rule fmap_ext)
  show "fmlookup (zero S (zero T m)) k = fmlookup (zero (S \<union> T) m) k" for k by (cases "fmlookup m k") auto
qed

lemma zero_empty [simp]: "zero {} m = m"
  by (rule fmap_ext) (simp add: option.map_ident)

lemma zero_get [simp]: "fmget0 (zero S m) k = (if k \<in> S then 0 else fmget0 m k)"
  by (simp add: fmget0_def split: option.split)

lemma takeCounter_Inr:
  assumes "takeCounter name m = (Inr v, m')"
  shows "v = fmget0 m name \<and> 0 \<le> v \<and> m' = zero {name} m"
proof (cases "fmlookup m name")
  case None
  then have "fmlookup (zero {name} m) k = fmlookup m k" for k by (cases "fmlookup m k") auto
  then have "zero {name} m = m" by (rule fmap_ext)
  with None assms show ?thesis by (auto simp: takeCounter_def fmget0_def)
next
  case (Some x)
  then have "fmlookup (fmupd name 0 m) k = fmlookup (zero {name} m) k" for k by (cases "fmlookup m k") auto
  then have "fmupd name 0 m = zero {name} m" by (rule fmap_ext)
  with Some assms show ?thesis by (auto simp: takeCounter_def fmget0_def Let_def split: if_splits)
qed

definition entry_of :: "int64 \<Rightarrow> (string, int64) fmap \<Rightarrow> int64 \<Rightarrow> entry" where
  "entry_of n m i = \<lparr>e_UserID = i, e_Uplink = fmget0 m (counter_name n i ''uplink''),
     e_Downlink = fmget0 m (counter_name n i ''downlink'')\<rparr>"

definition has_traffic :: "int64 \<Rightarrow> (string, int64) fmap \<Rightarrow> int64 \<Rightarrow> bool" where
  "has_traffic n m i \<longleftrightarrow> fmget0 m (counter_name n i ''uplink'') \<noteq> 0 \<or> fmget0 m (counter_name n i ''downlink'') \<noteq> 0"

definition entries_of :: "int64 \<Rightarrow> (string, int64) fmap \<Rightarrow> int64 list \<Rightarrow> entry list" where
  "entries_of n m ids = map (entry_of n m) (filter (has_traffic n m) ids)"

lemma up_down: "counter_name n i ''uplink'' \<noteq> counter_name n i ''downlink''"
  by (simp add: counter_name_def)

lemma entries_of_zero:
  assumes "\<forall>i \<in> set ids. counter_name n i ''uplink'' \<notin> S \<and> counter_name n i ''downlink'' \<notin> S"
  shows "entries_of n (zero S m) ids = entries_of n m ids"
  using assms by (auto simp: entries_of_def entry_of_def has_traffic_def intro!: map_cong filter_cong)

lemma drain_loop_Inr:
  assumes "drain_loop n ids e = (Inr es, e')" and "distinct ids" and "\<forall>i \<in> set ids. int64_ok i"
  shows "es = entries_of n (en_stats e) ids \<and> en_stats e' = zero (counters_of n ids) (en_stats e) \<and>
    (\<forall>k \<in> counters_of n ids. 0 \<le> fmget0 (en_stats e) k) \<and>
    (\<exists>R. e' = e\<lparr>en_stats := en_stats e', en_retired := R\<rparr> \<and> R |\<subseteq>| en_retired e \<and>
      (\<forall>i. i |\<in>| en_retired e \<and> i |\<notin>| R \<longrightarrow>
         i \<in> set ids \<and> \<not> has_traffic n (en_stats e) i \<and> \<not> HasUserSessions (en_sessions e) i))"
  using assms
proof (induction "ids" arbitrary: e es)
  case Nil
  then show ?case by (auto simp: entries_of_def intro!: exI [of _ "en_retired e"])
next
  case (Cons i ids)
  let ?u = "counter_name n i ''uplink''" and ?d = "counter_name n i ''downlink''"
  obtain u m1 where u: "takeCounter ?u (en_stats e) = (Inr u, m1)"
    using Cons.prems(1) by (auto split: prod.splits sum.splits)
  obtain d m2 where d: "takeCounter ?d m1 = (Inr d, m2)"
    using Cons.prems(1) u by (auto split: prod.splits sum.splits)
  from takeCounter_Inr [OF u] takeCounter_Inr [OF d]
  have v: "u = fmget0 (en_stats e) ?u" "0 \<le> u" "d = fmget0 (en_stats e) ?d" "0 \<le> d"
      "m2 = zero {?u, ?d} (en_stats e)"
    using up_down [of n i] by (auto simp: insert_commute)
  define gone where "gone \<longleftrightarrow> \<not> has_traffic n (en_stats e) i \<and> i |\<in>| en_retired e \<and> \<not> HasUserSessions (en_sessions e) i"
  define e2 where "e2 = e\<lparr>en_stats := m2, en_retired := (if gone then en_retired e |-| {|i|} else en_retired e)\<rparr>"
  have traffic: "(u \<noteq> 0 \<or> d \<noteq> 0) = has_traffic n (en_stats e) i" by (simp add: has_traffic_def v)
  have en: "\<lparr>e_UserID = i, e_Uplink = u, e_Downlink = d\<rparr> = entry_of n (en_stats e) i"
    by (simp add: entry_of_def v(1,3))
  obtain es' where D: "drain_loop n ids e2 = (Inr es', e')"
      "es = (if has_traffic n (en_stats e) i then [entry_of n (en_stats e) i] else []) @ es'"
  proof -
    have "drain_loop n (i # ids) e = (case drain_loop n ids e2 of (Inl err, e3) \<Rightarrow> (Inl err, e3)
        | (Inr entries, e3) \<Rightarrow> (Inr ((if has_traffic n (en_stats e) i then [entry_of n (en_stats e) i] else []) @ entries), e3))"
      unfolding drain_loop.simps u d prod.case sum.case Let_def traffic en e2_def gone_def by simp
    with Cons.prems(1) that show thesis by (auto split: prod.splits sum.splits)
  qed
  have fresh: "counter_name n i x \<notin> counters_of n ids" for x
    using Cons.prems(2,3) by (intro counters_of_fresh) auto
  have s2: "en_stats e2 = zero {?u, ?d} (en_stats e)" "en_sessions e2 = en_sessions e" by (simp_all add: e2_def v(5))
  have other: "counter_name n j x \<notin> {?u, ?d}" if "j \<in> set ids" for j x
    using that Cons.prems(2,3) counter_name_inj [of j i n] by auto
  then have ent: "entries_of n (en_stats e2) ids = entries_of n (en_stats e) ids"
    unfolding s2 by (intro entries_of_zero) auto
  from Cons.IH [OF D(1)] Cons.prems(2,3) obtain R where
    IH: "es' = entries_of n (en_stats e2) ids" "en_stats e' = zero (counters_of n ids) (en_stats e2)"
      "\<forall>k \<in> counters_of n ids. 0 \<le> fmget0 (en_stats e2) k"
      "e' = e2\<lparr>en_stats := en_stats e', en_retired := R\<rparr>" "R |\<subseteq>| en_retired e2"
      "\<forall>i. i |\<in>| en_retired e2 \<and> i |\<notin>| R \<longrightarrow> i \<in> set ids \<and> \<not> has_traffic n (en_stats e2) i \<and> \<not> HasUserSessions (en_sessions e2) i"
    by auto
  have "es = entries_of n (en_stats e) (i # ids)" using D(2) IH(1) ent by (simp add: entries_of_def)
  moreover have "en_stats e' = zero (counters_of n (i # ids)) (en_stats e)"
    using IH(2) by (simp add: s2 Un_commute)
  moreover have "\<forall>k \<in> counters_of n (i # ids). 0 \<le> fmget0 (en_stats e) k"
  proof
    fix k assume "k \<in> counters_of n (i # ids)"
    then consider "k = ?u" | "k = ?d" | "k \<in> counters_of n ids" by auto
    then show "0 \<le> fmget0 (en_stats e) k"
    proof cases
      case 3
      then have "k \<noteq> ?u" "k \<noteq> ?d" using fresh by auto
      with 3 IH(3) show ?thesis by (auto simp: s2)
    qed (use v in auto)
  qed
  moreover have "e' = e\<lparr>en_stats := en_stats e', en_retired := R\<rparr>" using IH(4) by (simp add: e2_def)
  moreover have "R |\<subseteq>| en_retired e" using IH(5) by (auto simp: e2_def split: if_splits)
  moreover have "j \<in> set (i # ids) \<and> \<not> has_traffic n (en_stats e) j \<and> \<not> HasUserSessions (en_sessions e) j"
    if "j |\<in>| en_retired e" "j |\<notin>| R" for j
  proof (cases "j |\<in>| en_retired e2")
    case True
    with that IH(6) have j: "j \<in> set ids" "\<not> has_traffic n (en_stats e2) j" "\<not> HasUserSessions (en_sessions e) j"
      by (auto simp: s2)
    with other [OF j(1)] show ?thesis by (auto simp: has_traffic_def s2)
  next
    case False
    with that(1) have "j = i \<and> gone" by (auto simp: e2_def split: if_splits)
    then show ?thesis by (simp add: gone_def)
  qed
  ultimately show ?case by blast
qed

subsection \<open>Restoring\<close>

lemma wrap64_add: "wrap64 (wrap64 x + y) = wrap64 (x + y)" "wrap64 (y + wrap64 x) = wrap64 (y + x)"
proof -
  have "(((x + 2 ^ 63) mod 2 ^ 64 - 2 ^ 63) + y + 2 ^ 63) mod 2 ^ 64 = (x + y + 2 ^ 63) mod (2 ^ 64 :: int)"
    by (simp add: mod_simps algebra_simps)
  then show "wrap64 (wrap64 x + y) = wrap64 (x + y)" by (simp add: wrap64_def)
  then show "wrap64 (y + wrap64 x) = wrap64 (y + x)" by (simp add: add.commute)
qed

lemma add_counter_lookup:
  "fmlookup (add_counter k d m) j = (if j = k then map_option (\<lambda>v. wrap64 (v + d)) (fmlookup m j) else fmlookup m j)"
  by (simp add: add_counter_def split: option.split)

lemma add_counter_commute: "add_counter a x (add_counter b y m) = add_counter b y (add_counter a x m)"
proof (rule fmap_ext)
  show "fmlookup (add_counter a x (add_counter b y m)) k = fmlookup (add_counter b y (add_counter a x m)) k" for k
    by (cases "fmlookup m k") (auto simp: add_counter_lookup wrap64_add ac_simps)
qed

definition count_traffic :: "(string \<times> int64) list \<Rightarrow> (string, int64) fmap \<Rightarrow> (string, int64) fmap" where
  "count_traffic ts m = foldl (\<lambda>m t. add_counter (fst t) (snd t) m) m ts"

lemma count_traffic_simps [simp]:
  "count_traffic [] m = m" "count_traffic (t # ts) m = count_traffic ts (add_counter (fst t) (snd t) m)"
  by (simp_all add: count_traffic_def)

lemma count_traffic_add: "count_traffic ts (add_counter k d m) = add_counter k d (count_traffic ts m)"
  by (induction ts arbitrary: m) (simp_all, metis add_counter_commute)

lemma restore_traffic:
  "foldl (restore_entry n) (count_traffic ts m) es = count_traffic ts (foldl (restore_entry n) m es)"
  by (induction es arbitrary: m) (simp_all add: restore_entry_def flip: count_traffic_add)

definition stats_ok :: "(string, int64) fmap \<Rightarrow> bool" where
  "stats_ok m \<longleftrightarrow> (\<forall>k v. fmlookup m k = Some v \<longrightarrow> int64_ok v)"

lemma restore_one:
  assumes "stats_ok m" and "counter_name n i ''uplink'' \<notin> S" and "counter_name n i ''downlink'' \<notin> S"
  shows "foldl (restore_entry n) (zero ({counter_name n i ''uplink'', counter_name n i ''downlink''} \<union> S) m)
    (entries_of n m [i]) = zero S m"
proof (rule fmap_ext)
  fix k
  have ok: "wrap64 v = v" if "fmlookup m k = Some v" for v
    using that assms(1) by (auto simp: stats_ok_def wrap64_id)
  show "fmlookup (foldl (restore_entry n) (zero ({counter_name n i ''uplink'', counter_name n i ''downlink''} \<union> S) m)
    (entries_of n m [i])) k = fmlookup (zero S m) k"
    using assms(2,3) up_down [of n i] ok
    by (cases "fmlookup m k")
       (auto simp: entries_of_def has_traffic_def entry_of_def restore_entry_def add_counter_lookup fmget0_def)
qed

lemma entries_of_Cons: "entries_of n m (i # ids) = entries_of n m [i] @ entries_of n m ids"
  by (simp add: entries_of_def)

lemma restore_entries:
  assumes "stats_ok m" and "distinct ids" and "\<forall>i \<in> set ids. int64_ok i"
  shows "foldl (restore_entry n) (zero (counters_of n ids) m) (entries_of n m ids) = m"
  using assms(2,3)
proof (induction ids)
  case (Cons i ids)
  then have "counter_name n i d \<notin> counters_of n ids" for d by (intro counters_of_fresh) auto
  then have "foldl (restore_entry n) (zero (counters_of n (i # ids)) m) (entries_of n m [i]) = zero (counters_of n ids) m"
    unfolding counters_of_simps by (intro restore_one [OF assms(1)])
  with Cons show ?case by (subst entries_of_Cons) (simp del: counters_of_simps)
qed (simp add: entries_of_def)

subsection \<open>Start\<close>

lemma load_users_add_loop:
  "load_users parse n us v = Some v' \<Longrightarrow> add_loop parse n us done v = (None, done @ us, v')"
  by (induction us arbitrary: v "done") (auto split: sum.splits prod.splits option.splits)

lemma with_users_uuids:
  assumes "distinct (map u_ID us)"
  shows "with_users us fmempty = uuids us"
proof (rule fmap_ext)
  fix i
  have "fmlookup (with_users us fmempty) i = Some w \<longleftrightarrow> fmlookup (uuids us) i = Some w" for w
    using map_of_users [OF assms, of i w] usersByID_key usersByID_distinct [OF assms]
    by (fastforce simp: with_users_lookup uuids_lookup split: option.splits)
  then show "fmlookup (with_users us fmempty) i = fmlookup (uuids us) i" by (metis not_Some_eq)
qed

lemma Start_Inr:
  assumes "Start env s cfg key registered = (Inr e, r)"
  shows "\<not> registered \<and> r \<and> en_instance e \<and> en_stats e = fmempty \<and> en_snapshot e = s \<and> en_retired e = {||} \<and>
    en_sessions e = New s cfg \<and>
    load_users (se_parse env) (s_Node s) (s_Users s) \<lparr>v_email = fmempty, v_users = fmempty\<rparr> = Some (en_users e)"
  using assms by (auto simp: Start_def Let_def split: sum.splits if_splits option.splits)

lemma Start_represents:
  assumes "Start env s cfg key registered = (Inr e, r)" and "distinct (map u_ID (s_Users s))"
    and "\<forall>u \<in> set (s_Users s). int64_ok (u_ID u)" and "keys_distinct (se_parse env) (fmgraph (uuids (s_Users s)))"
  shows "represents (se_parse env) (s_Node s) (uuids (s_Users s)) (en_users e)"
proof -
  let ?v = "\<lparr>v_email = fmempty, v_users = fmempty\<rparr>"
  have L: "add_loop (se_parse env) (s_Node s) (s_Users s) [] ?v = (None, s_Users s, en_users e)"
    using Start_Inr [OF assms(1)] load_users_add_loop [of _ _ _ _ _ "[]"] by auto
  have "represents (se_parse env) (s_Node s) fmempty ?v" by (simp add: represents_def)
  from add_loop_represents [OF this, of "s_Users s" "[]"] assms(2-4)
  obtain err v' where A: "add_loop (se_parse env) (s_Node s) (s_Users s) [] ?v
        = (err, [] @ takeWhile (parses (se_parse env)) (s_Users s), v')"
      "represents (se_parse env) (s_Node s) (with_users (takeWhile (parses (se_parse env)) (s_Users s)) fmempty) v'"
    by (auto simp: with_users_uuids)
  from A(1) L have "takeWhile (parses (se_parse env)) (s_Users s) = s_Users s" "v' = en_users e"
    by (metis append_Nil prod.inject)+
  with A(2) have "represents (se_parse env) (s_Node s) (with_users (s_Users s) fmempty) (en_users e)" by metis
  then show ?thesis by (simp add: with_users_uuids [OF assms(2)])
qed

subsection \<open>Properties\<close>

lemma drainable_kept:
  "drainable e |\<subseteq>| drainable (e\<lparr>en_users := v, en_sessions := r,
     en_retired := (en_retired e |\<union>| (fmdom (usersByID (s_Users (en_snapshot e))) |-| fmdom (usersByID (s_Users next_s))))
       |-| fmdom (usersByID (s_Users next_s)), en_snapshot := next_s\<rparr>)"
  by (auto simp: drainable_def usersByID_dom)

definition sample_engine :: engine where
  "sample_engine = \<lparr>en_instance = True, en_stats = fmupd (counter_name 7 5 ''uplink'') 3 fmempty,
     en_users = \<lparr>v_email = fmempty, v_users = fmempty\<rparr>, en_sessions = New (sample_snapshot []) sample_config,
     en_registered = True, en_snapshot = sample_snapshot [], en_retired = {|5|}\<rparr>"

lemma sample_ready: "update_ready (\<lambda>_. Some (replicate 16 0)) (sample_snapshot [sample_user 5]) sample_engine"
proof -
  have "uuids [] = fmempty" by (simp add: uuids_def usersByID_def)
  moreover have "uuids [sample_user 5] = fmupd 5 [] fmempty"
    by (rule fmap_ext) (simp add: uuids_def usersByID_def sample_user_def)
  ultimately show ?thesis
    by (auto simp: update_ready_def sample_engine_def sample_snapshot_def represents_def keys_distinct_def
        int64_defs sample_user_def split: if_splits)
qed

definition sample_key :: string where
  "sample_key = replicate 43 CHR ''A''"

definition sample_start :: start_env where
  "sample_start = \<lparr>se_x25519 = (\<lambda>_. Some (replicate 32 0)), se_parse = (\<lambda>_. Some (replicate 16 0)),
     se_compile = True, se_create = True, se_start = True, se_stats = True, se_inbound = \<lparr>if_manager = True, if_handler = True, if_provider = True, if_users = True\<rparr>\<rparr>"

definition served_snapshot :: "user list \<Rightarrow> snapshot" where
  "served_snapshot us = (sample_snapshot us)\<lparr>s_Node := sample_node\<lparr>n_RealityPublicKey := sample_key\<rparr>\<rparr>"

lemma sample_key_ok: "verifyRealityKey (se_x25519 sample_start) sample_key sample_key = Inr sample_key"
  by code_simp

lemma sample_build: "\<exists>j. BuildConfig (se_x25519 sample_start) (served_snapshot us) (c_Listen sample_config) sample_key = Inr j"
proof -
  have "SplitHostPort (c_Listen sample_config) = Some (''::'', ''443'')" by code_simp
  moreover have "parse_int64 ''443'' = Some 443" by (simp add: eval_text)
  moreover have "n_RealityPublicKey (s_Node (served_snapshot us)) = sample_key" by (simp add: served_snapshot_def)
  ultimately show ?thesis by (simp add: BuildConfig_def sample_key_ok)
qed

lemma sample_Start: "\<exists>e. Start sample_start (served_snapshot []) sample_config sample_key False = (Inr e, True)"
proof -
  obtain j where "BuildConfig (se_x25519 sample_start) (served_snapshot []) (c_Listen sample_config) sample_key = Inr j"
    using sample_build by blast
  then show ?thesis
    by (simp add: Start_def Let_def) (simp add: sample_start_def inboundUserManager_def served_snapshot_def sample_snapshot_def)
qed

text \<open>C11: A hot update moves the user table to the next snapshot or leaves everything as it was. When
  the inbound holds exactly the users of the installed snapshot, \<^verbatim>\<open>Apply\<close> either succeeds, and then the
  inbound holds exactly the users of the next one and no user with traffic to report is forgotten, or
  it fails and its rollback restores the table and the engine completely. On a running engine with the
  same node it succeeds if and only if every UUID of the next snapshot parses.\<close>

theorem apply_moves_or_restores:
  assumes "update_ready parse next_s e" and "distinct (map u_ID (s_Users next_s))"
    and "Apply parse next_s e = Some (e', callbacks, res)"
  shows "(case res of
      Inl err \<Rightarrow> e' = e
    | Inr revoked \<Rightarrow> represents parse (s_Node next_s) (uuids (s_Users next_s)) (en_users e') \<and>
        en_snapshot e' = next_s \<and> drainable e |\<subseteq>| drainable e') \<and>
    (en_instance e \<and> CanApply next_s e \<longrightarrow> (isl res \<longleftrightarrow> \<not> list_all (parses parse) (s_Users next_s)))"
proof (cases "en_instance e \<and> CanApply next_s e")
  case False
  with Apply_rejected(1) [of e parse next_s] Apply_rejected(2) [of e next_s parse] assms(3) show ?thesis
    by (cases "en_instance e") auto
next
  case ready: True
  note A = Apply_ready [OF assms(1) ready [THEN conjunct1] ready [THEN conjunct2]]
  show ?thesis
  proof (cases "list_all (parses parse) (s_Users next_s)")
    case True
    with A assms(3) obtain r where "Update next_s (en_sessions e) = Some r" by (auto split: option.splits)
    with A True assms(3) drainable_kept [of e] show ?thesis by (cases r) auto
  next
    case False
    with A assms(2,3) show ?thesis by auto
  qed
qed

theorem apply_moves_or_restores_witness:
  "\<exists>e' c r. Apply (\<lambda>_. Some (replicate 16 0)) (sample_snapshot [sample_user 5]) sample_engine = Some (e', c, Inr r) \<and>
     represents (\<lambda>_. Some (replicate 16 0)) sample_node (uuids [sample_user 5]) (en_users e') \<and>
     drainable sample_engine |\<subseteq>| drainable e'"
proof -
  have "case Apply (\<lambda>_. Some (replicate 16 0)) (sample_snapshot [sample_user 5]) sample_engine of
      Some (e', c, Inr r) \<Rightarrow> True | _ \<Rightarrow> False" by code_simp
  then obtain e' c r where A: "Apply (\<lambda>_. Some (replicate 16 0)) (sample_snapshot [sample_user 5]) sample_engine
      = Some (e', c, Inr r)" by (auto split: option.splits prod.splits sum.splits)
  have n: "s_Node (sample_snapshot [sample_user 5]) = sample_node" "s_Users (sample_snapshot [sample_user 5]) = [sample_user 5]"
    by (simp_all add: sample_snapshot_def)
  have "represents (\<lambda>_. Some (replicate 16 0)) sample_node (uuids [sample_user 5]) (en_users e') \<and>
      drainable sample_engine |\<subseteq>| drainable e'"
    using apply_moves_or_restores [OF sample_ready _ A] by (simp add: n)
  with A show ?thesis by blast
qed

text \<open>C21: A failed attempt to store traffic loses nothing. After a successful \<^verbatim>\<open>Drain\<close> the entries are
  exactly the counters of the users that had traffic, ordered by user, and the counters are zero;
  whatever traffic is counted meanwhile, \<^verbatim>\<open>Restore\<close> of the entries leaves every counter as if the drain
  had not happened.\<close>

theorem restore_undoes_drain:
  assumes "Drain e = (Inr entries, e')" and "stats_ok (en_stats e)" and "\<forall>i \<in> fset (drainable e). int64_ok i"
  shows "entries = entries_of (n_ID (s_Node (en_snapshot e))) (en_stats e) (sorted_list_of_fset (drainable e)) \<and>
    en_stats e' = zero (counters_of (n_ID (s_Node (en_snapshot e))) (sorted_list_of_fset (drainable e))) (en_stats e) \<and>
    en_stats (Restore entries (e'\<lparr>en_stats := count_traffic ts (en_stats e')\<rparr>)) = count_traffic ts (en_stats e)"
proof -
  let ?n = "n_ID (s_Node (en_snapshot e))" and ?ids = "sorted_list_of_fset (drainable e)"
  have ids: "distinct ?ids" "\<forall>i \<in> set ?ids. int64_ok i"
    using assms(3) by (simp_all add: sorted_list_of_fset.rep_eq)
  note D = drain_loop_Inr [OF assms(1) [unfolded Drain_def drainLocked_def] ids]
  then obtain R where "e' = e\<lparr>en_stats := en_stats e', en_retired := R\<rparr>" by blast
  from arg_cong [OF this, of en_snapshot] have "en_snapshot e' = en_snapshot e" by simp
  then have "en_stats (Restore entries (e'\<lparr>en_stats := count_traffic ts (en_stats e')\<rparr>))
      = count_traffic ts (foldl (restore_entry ?n) (en_stats e') entries)"
    by (simp add: Restore_def restore_traffic)
  also have "foldl (restore_entry ?n) (en_stats e') entries = en_stats e"
    using D restore_entries [OF assms(2) ids] by simp
  finally show ?thesis using D by blast
qed

theorem restore_undoes_drain_witness:
  "\<exists>e' x. Drain sample_engine = (Inr [x], e') \<and> e_Uplink x = 3 \<and>
     en_stats (Restore [x] e') = en_stats sample_engine"
proof -
  have "case Drain sample_engine of (Inr [x], e') \<Rightarrow> e_Uplink x = 3 | _ \<Rightarrow> False" by code_simp
  then obtain x e' where D: "Drain sample_engine = (Inr [x], e')" "e_Uplink x = 3"
    by (auto split: prod.splits sum.splits list.splits)
  have "stats_ok (en_stats sample_engine)" by (simp add: stats_ok_def sample_engine_def int64_defs)
  moreover have "\<forall>i \<in> fset (drainable sample_engine). int64_ok i"
    by (simp add: drainable_def sample_engine_def sample_snapshot_def int64_defs)
  ultimately have "en_stats (Restore [x] e') = en_stats sample_engine"
    using restore_undoes_drain [OF D(1), of "[]", simplified] by blast
  with D show ?thesis by blast
qed

text \<open>Entries restored into a newly started engine are dropped. A new instance has no counters, and
  \<^verbatim>\<open>Restore\<close> adds to existing counters only: the rollback of a reload whose batch could not be stored
  loses the drained traffic.\<close>

theorem fresh_engine_drops_restore:
  assumes "Start env s cfg key registered = (Inr e, r)"
  shows "Restore entries e = e"
proof -
  have "foldl (restore_entry n) fmempty es = fmempty" for n es
    by (induction es) (simp_all add: restore_entry_def add_counter_def)
  moreover have "en_stats e = fmempty" using Start_Inr [OF assms] by simp
  ultimately show ?thesis by (simp add: Restore_def)
qed

theorem fresh_engine_drops_restore_witness:
  "\<exists>e. Start sample_start (served_snapshot []) sample_config sample_key False = (Inr e, True) \<and>
     Restore [\<lparr>e_UserID = 5, e_Uplink = 3, e_Downlink = 0\<rparr>] e = e"
proof -
  obtain e where e: "Start sample_start (served_snapshot []) sample_config sample_key False = (Inr e, True)"
    using sample_Start by blast
  with fresh_engine_drops_restore [OF e] show ?thesis by blast
qed

end
