(* ===== verification/Settlement.thy ===== *)
theory Settlement
  imports Journal Engine_Counters
begin

text \<open>
  The traffic of a user on its way from the counters through the outbox to the books: replay,
  report, hot update, restart and shutdown conserve it, with the cases in which they do not.
\<close>

subsection \<open>Amounts\<close>

datatype direction = Up | Down

fun dir_name :: "direction \<Rightarrow> string" where
  "dir_name Up = ''uplink''"
| "dir_name Down = ''downlink''"

fun dir_amount :: "direction \<Rightarrow> entry \<Rightarrow> int64" where
  "dir_amount Up e = e_Uplink e"
| "dir_amount Down e = e_Downlink e"

text \<open>What a list of entries, and a list of batches, holds for a user.\<close>

definition share :: "direction \<Rightarrow> int64 \<Rightarrow> entry list \<Rightarrow> int" where
  "share x i es = sum_list (map (dir_amount x) (filter (\<lambda>e. e_UserID e = i) es))"

definition batch_share :: "direction \<Rightarrow> int64 \<Rightarrow> batch list \<Rightarrow> int" where
  "batch_share x i bs = sum_list (map (\<lambda>b. share x i (b_Entries b)) bs)"

lemma share_mset: "share x i es = sum_mset (image_mset (dir_amount x) (filter_mset (\<lambda>e. e_UserID e = i) (mset es)))"
  by (simp add: share_def sum_mset_sum_list flip: mset_filter mset_map)

lemma share_sort [simp]: "share x i (sort_key f es) = share x i es"
  by (simp add: share_mset)

lemma batch_share_mset: "batch_share x i bs = sum_mset (image_mset (\<lambda>b. share x i (b_Entries b)) (mset bs))"
  by (simp add: batch_share_def sum_mset_sum_list flip: mset_map)

lemma share_entries_of:
  assumes "distinct ids"
  shows "share x i (entries_of n m ids) = (if i \<in> set ids then fmget0 m (counter_name n i (dir_name x)) else 0)"
proof -
  have one: "share x i (entries_of n m [j]) = (if j = i then fmget0 m (counter_name n i (dir_name x)) else 0)" for j
    by (cases x) (auto simp: entries_of_def share_def entry_of_def has_traffic_def)
  have split: "share x i (entries_of n m (j # js)) = share x i (entries_of n m [j]) + share x i (entries_of n m js)" for j js
    by (subst entries_of_Cons) (simp add: share_def)
  show ?thesis using assms
  proof (induction ids)
    case (Cons j js)
    then show ?case unfolding split [of j js] one by auto
  qed (simp add: entries_of_def share_def)
qed

text \<open>The counter of a user in the engine.\<close>

definition counter :: "direction \<Rightarrow> int64 \<Rightarrow> engine \<Rightarrow> int64" where
  "counter x i e = fmget0 (en_stats e) (counter_name (n_ID (s_Node (en_snapshot e))) i (dir_name x))"

definition counts_ok :: "(string, int64) fmap \<Rightarrow> bool" where
  "counts_ok m \<longleftrightarrow> (\<forall>k v. fmlookup m k = Some v \<longrightarrow> 0 \<le> v \<and> v \<le> MaxInt64)"

definition engine_kept :: "engine \<Rightarrow> bool" where
  "engine_kept e \<longleftrightarrow> counts_ok (en_stats e) \<and> (\<forall>i \<in> fset (drainable e). int64_ok i) \<and>
     int64_ok (n_ID (s_Node (en_snapshot e)))"

lemma counts_stats: "counts_ok m \<Longrightarrow> stats_ok m"
  by (auto simp: counts_ok_def stats_ok_def int64_okI)

lemma counts_zero: "counts_ok m \<Longrightarrow> counts_ok (zero S m)"
  by (auto simp: counts_ok_def MaxInt64_def)

lemma takeCounter_ok: "counts_ok m \<Longrightarrow> \<exists>v. takeCounter name m = (Inr v, zero {name} m)"
proof -
  assume m: "counts_ok m"
  obtain r m' where T: "takeCounter name m = (r, m')" by fastforce
  with m obtain v where "r = Inr v"
    by (auto simp: takeCounter_def counts_ok_def Let_def split: option.splits if_splits) (metis leD)
  with T takeCounter_Inr show ?thesis by blast
qed

lemma drain_loop_ok: "counts_ok (en_stats e) \<Longrightarrow> \<exists>es e'. drain_loop n ids e = (Inr es, e')"
proof (induction ids arbitrary: e)
  case (Cons i ids)
  obtain u where u: "takeCounter (counter_name n i ''uplink'') (en_stats e) = (Inr u, zero {counter_name n i ''uplink''} (en_stats e))"
    using takeCounter_ok [OF Cons.prems] by blast
  have c1: "counts_ok (zero {counter_name n i ''uplink''} (en_stats e))" using Cons.prems by (rule counts_zero)
  obtain w m2 where w: "takeCounter (counter_name n i ''downlink'') (zero {counter_name n i ''uplink''} (en_stats e)) = (Inr w, m2)"
      "counts_ok m2"
    using takeCounter_ok [OF c1] counts_zero [OF c1] by blast
  let ?e1 = "e\<lparr>en_stats := m2\<rparr>"
  let ?e2 = "if \<not> (u \<noteq> 0 \<or> w \<noteq> 0) \<and> i |\<in>| en_retired e \<and> \<not> HasUserSessions (en_sessions e) i
    then ?e1\<lparr>en_retired := en_retired ?e1 |-| {|i|}\<rparr> else ?e1"
  have "en_stats ?e2 = m2" by simp
  with w(2) Cons.IH [of ?e2] obtain es e' where D: "drain_loop n ids ?e2 = (Inr es, e')" by metis
  show ?case unfolding drain_loop.simps u w(1) prod.case sum.case Let_def D by blast
qed simp

lemma Drain_ok:
  assumes "engine_kept e"
  obtains entries e' where "Drain e = (Inr entries, e')"
  using assms drain_loop_ok that by (auto simp: engine_kept_def Drain_def drainLocked_def) blast

lemma in_counters_of:
  assumes "int64_ok i" and "\<forall>j \<in> set ids. int64_ok j"
  shows "counter_name n i (dir_name x) \<in> counters_of n ids \<longleftrightarrow> i \<in> set ids"
proof
  assume "counter_name n i (dir_name x) \<in> counters_of n ids"
  then show "i \<in> set ids" using assms counters_of_fresh by blast
next
  assume "i \<in> set ids"
  then show "counter_name n i (dir_name x) \<in> counters_of n ids" by (cases x) (auto simp: counters_of_def)
qed

lemma Drain_kept:
  assumes "Drain e = (Inr entries, e')" and "engine_kept e"
  shows "engine_kept e'"
    and "en_snapshot e' = en_snapshot e"
    and "\<forall>y \<in> set entries. int64_ok (e_UserID y)"
    and "int64_ok i \<Longrightarrow> counter x i e = counter x i e' + share x i entries"
    and "en_stats (Restore entries e') = en_stats e" and "en_snapshot (Restore entries e') = en_snapshot e"
    and "engine_kept (Restore entries e')"
proof -
  let ?n = "n_ID (s_Node (en_snapshot e))" and ?ids = "sorted_list_of_fset (drainable e)"
  have ids: "distinct ?ids" "\<forall>i \<in> set ?ids. int64_ok i"
    using assms(2) by (simp_all add: sorted_list_of_fset.rep_eq engine_kept_def)
  note D = drain_loop_Inr [OF assms(1) [unfolded Drain_def drainLocked_def] ids]
  have ent: "entries = entries_of ?n (en_stats e) ?ids" and z: "en_stats e' = zero (counters_of ?n ?ids) (en_stats e)"
    using D by blast+
  obtain R where R: "e' = e\<lparr>en_stats := en_stats e', en_retired := R\<rparr>" "R |\<subseteq>| en_retired e" using D by blast
  from arg_cong [OF R(1), of en_snapshot] arg_cong [OF R(1), of en_retired]
  have sn: "en_snapshot e' = en_snapshot e" "en_retired e' = R" by simp_all
  then have sub: "drainable e' |\<subseteq>| drainable e" using R(2) by (auto simp: drainable_def)
  have ok: "stats_ok (en_stats e)" using assms(2) by (simp add: engine_kept_def counts_stats)
  have st': "counts_ok (en_stats e')" using assms(2) by (simp add: z engine_kept_def counts_zero)
  have dr: "\<forall>i \<in> fset (drainable e'). int64_ok i" using assms(2) sub unfolding engine_kept_def by (metis fsubsetD)
  show "engine_kept e'" using assms(2) st' dr by (simp add: engine_kept_def sn)
  show "en_snapshot e' = en_snapshot e" by (fact sn)
  show "\<forall>y \<in> set entries. int64_ok (e_UserID y)" using ids(2) by (auto simp: ent entries_of_def entry_of_def)
  show "counter x i e = counter x i e' + share x i entries" if "int64_ok i"
    using in_counters_of [OF that ids(2)] by (simp add: counter_def sn z ent share_entries_of [OF ids(1)])
  have "foldl (restore_entry ?n) (en_stats e') entries = en_stats e"
    using restore_entries [OF ok ids] by (simp add: z ent)
  then show rs: "en_stats (Restore entries e') = en_stats e" by (simp add: Restore_def sn)
  show "en_snapshot (Restore entries e') = en_snapshot e" by (simp add: Restore_def sn)
  have "drainable (Restore entries e') = drainable e'" by (simp add: drainable_def Restore_def)
  with assms(2) rs dr show "engine_kept (Restore entries e')" by (simp add: engine_kept_def) (simp add: Restore_def sn)
qed

subsection \<open>Conservation\<close>

text \<open>
  The traffic of a user that the service holds: the counter, and the stored batches that are not
  booked. The invariant of the runtime state.
\<close>

definition held :: "direction \<Rightarrow> batch_lib \<Rightarrow> int64 \<Rightarrow> runtimeState \<Rightarrow> int" where
  "held x lib i s = counter x i (rs_engine s) +
     batch_share x i (outstanding lib (rs_store s) (rs_db s) (rs_dir s))"

definition outbox_kept :: "batch_lib \<Rightarrow> store \<Rightarrow> directory \<Rightarrow> bool" where
  "outbox_kept lib st d \<longleftrightarrow> clean_abs (st_dir st) \<and> names_ok d \<and> ids_unique lib st d"

definition state_kept :: "batch_lib \<Rightarrow> runtimeState \<Rightarrow> bool" where
  "state_kept lib s \<longleftrightarrow> outbox_kept lib (rs_store s) (rs_dir s) \<and> engine_kept (rs_engine s)"

lemma outstanding_mset:
  "mset (outstanding lib st p d) = filter_mset (\<lambda>b. \<not> is_recorded p (b_ID b)) (mset (stored lib st d))"
  by (simp add: outstanding_def)

lemma ids_unique_add:
  assumes "mset (stored lib st d') = add_mset b (mset (stored lib st d))" and "ids_unique lib st d"
    and "b_ID b \<notin> b_ID ` set (stored lib st d)"
  shows "ids_unique lib st d'"
proof -
  have "mset (map b_ID (stored lib st d')) = mset (map b_ID (b # stored lib st d))" using assms(1) by simp
  then have "distinct (map b_ID (stored lib st d')) \<longleftrightarrow> distinct (map b_ID (b # stored lib st d))"
    by (rule mset_eq_imp_distinct_iff)
  with assms(2,3) show ?thesis by (simp add: ids_unique_def)
qed

lemma ids_unique_mset:
  "mset (stored lib st d') = mset (stored lib st d) \<Longrightarrow> ids_unique lib st d \<Longrightarrow> ids_unique lib st d'"
  unfolding ids_unique_def by (metis mset_eq_imp_distinct_iff mset_map)

text \<open>Draining the counters into a batch, successful or not.\<close>

definition drained :: "engine \<Rightarrow> entry list \<Rightarrow> outbox_error option \<Rightarrow> engine" where
  "drained en entries err = (if err = None \<or> WasPublished err then en else Restore entries en)"

lemma persist_share:
  assumes "persist lib ps st entries snap d = Some (err, d')" and "outbox_kept lib st d" and "lib_ok lib"
    and "fresh_batch lib ps st p d" and "int64_ok (n_ID (s_Node snap))" and "\<forall>e \<in> set entries. int64_ok (e_UserID e)"
  shows "outbox_kept lib st d' \<and> batch_share x i (outstanding lib st p d') = batch_share x i (outstanding lib st p d) +
    (if err = None \<or> WasPublished err then share x i entries else 0)"
proof -
  have O: "clean_abs (st_dir st)" "names_ok d" "ids_unique lib st d" using assms(2) by (simp_all add: outbox_kept_def)
  from assms(1,3) O(1,2) assms(4-6) show ?thesis
  proof (cases rule: persist_cases)
    case nothing
    with assms(2) show ?thesis by (simp add: share_def)
  next
    case (lost e)
    have "batch_share x i (outstanding lib st p d') = batch_share x i (outstanding lib st p d)"
      by (simp only: batch_share_mset outstanding_mset lost(3))
    with lost O(1) ids_unique_mset [OF lost(3) O(3)] show ?thesis by (simp add: outbox_kept_def)
  next
    case (published b)
    have fresh: "\<not> is_recorded p (b_ID b)" "b_ID b \<notin> b_ID ` set (stored lib st d)"
      using assms(4) by (auto simp: published(3) fresh_batch_def)
    have "batch_share x i (outstanding lib st p d') = share x i entries + batch_share x i (outstanding lib st p d)"
      by (simp only: batch_share_mset outstanding_mset published(4)) (simp add: fresh published(2))
    with published O(1) ids_unique_add [OF published(4) O(3) fresh(2)] show ?thesis
      by (auto simp: outbox_kept_def)
  qed
qed

lemma persist_conserves:
  assumes "Drain (rs_engine s) = (Inr entries, en)" and "state_kept lib s" and "lib_ok lib"
    and "fresh_batch lib ps (rs_store s) (rs_db s) (rs_dir s)"
    and "persist lib ps (rs_store s) entries (en_snapshot en) (rs_dir s) = Some (err, d')"
  shows "outbox_kept lib (rs_store s) d'" and "engine_kept (drained en entries err)"
    and "int64_ok i \<Longrightarrow> counter x i (drained en entries err) +
      batch_share x i (outstanding lib (rs_store s) (rs_db s) d') = held x lib i s"
proof -
  have E: "engine_kept (rs_engine s)" and O: "outbox_kept lib (rs_store s) (rs_dir s)"
    using assms(2) by (auto simp: state_kept_def)
  note D = Drain_kept [OF assms(1) E]
  have nid: "int64_ok (n_ID (s_Node (en_snapshot en)))" using D(1) by (simp add: engine_kept_def)
  note P = persist_share [OF assms(5) O assms(3,4) nid D(3), of x i]
  then show "outbox_kept lib (rs_store s) d'" by blast
  show "engine_kept (drained en entries err)" using D(1,7) by (simp add: drained_def)
  have "counter x i (Restore entries en) = counter x i (rs_engine s)" by (simp add: counter_def D(5,6))
  with P D(4) show "int64_ok i \<Longrightarrow> counter x i (drained en entries err) +
      batch_share x i (outstanding lib (rs_store s) (rs_db s) d') = held x lib i s"
    by (auto simp: drained_def held_def)
qed

lemma replay_conserves:
  assumes "replay lib rp st p d = (err, p', d')" and "outbox_kept lib st d"
  shows "\<exists>bs. p' = book_all bs p \<and> outbox_kept lib st d' \<and>
    mset (outstanding lib st p d) = mset (outstanding lib st p' d') + mset (map snd bs) \<and>
    (err = None \<longrightarrow> d' = fmempty)"
proof -
  have O: "clean_abs (st_dir st)" "names_ok d" "ids_unique lib st d" using assms(2) by (simp_all add: outbox_kept_def)
  obtain bs where bs: "ob.moves lib st p d bs p' d'" "sub_dir d' d" "err = None \<longrightarrow> d' = fmempty"
    using replay_moves [OF assms(1) O] by blast
  have "ids_unique lib st d'" using ob.moves_unique [OF bs(1)] O(3) by (simp add: ids_unique_iff)
  with bs(1,3) sub_dir_names [OF bs(2) O(2)] O(1) show ?thesis
    by (auto simp: ob.moves_def open_outstanding outbox_kept_def)
qed

lemma batch_share_add:
  "mset as = mset bs + mset cs \<Longrightarrow> batch_share x i as = batch_share x i bs + batch_share x i cs"
  by (simp add: batch_share_mset)

text \<open>The part of the tables that holds the books.\<close>

definition books :: "panel \<Rightarrow> (int, user_row) fmap \<times> log_row list \<times> (string, batch_row) fmap" where
  "books p = (p_user p, p_traffic_log p, p_batches p)"

lemma insert_ips_books: "insert_ips e i u k ips p = Inr (k', q) \<Longrightarrow> books q = books p"
  by (induction e i u k ips p rule: insert_ips.induct) (auto simp: books_def split: if_splits)

lemma online_loop_books: "online_loop e i k us xs p = Inr (k', us', q) \<Longrightarrow> books q = books p"
  by (induction e i k us xs p rule: online_loop.induct)
     (auto split: sum.splits prod.splits dest!: insert_ips_books)

lemma heartbeat_books: "books (snd (update_heartbeat now i p)) = books p"
  by (simp add: update_heartbeat_def books_def split: option.split)

lemma telemetry_tx_books:
  assumes "telemetry_tx e i xs up l p = Inr q"
  shows "books q = books p"
proof -
  obtain k us p1 where L: "online_loop e i 0 0 xs p = Inr (k, us, p1)"
    using assms by (auto simp: telemetry_tx_def split: sum.splits)
  define p3 where "p3 = p1\<lparr>p_online_log := p_online_log p1 @ [(i, us, tx_now e)], p_node_info :=
    p_node_info p1 @ [(i, duration_seconds up, take 32 l, tx_now e)]\<rparr>"
  from assms L have "q = snd (update_heartbeat (tx_now e) i p3)"
    by (simp add: telemetry_tx_def Let_def p3_def split: if_splits prod.splits)
  then have "books q = books p3" by (simp add: heartbeat_books)
  also have "\<dots> = books p1" by (simp add: p3_def books_def)
  finally show ?thesis using online_loop_books [OF L] by simp
qed

lemma telemetry_books: "ReportTelemetry e i xs up l p = (err, q) \<Longrightarrow> books q = books p"
  using telemetry_tx_books
  by (auto simp: ReportTelemetry_def commit_def split: if_splits sum.splits commit_result.splits)

lemma outstanding_books: "books p = books q \<Longrightarrow> outstanding lib st p d = outstanding lib st q d"
  by (simp add: books_def outstanding_def is_recorded_def)

lemma report_rest_keeps:
  assumes "report_rest rv s = (s', err, evs)"
  shows "rs_engine s' = rs_engine s \<and> rs_dir s' = rs_dir s \<and> rs_store s' = rs_store s \<and>
    rs_cfg s' = rs_cfg s \<and> books (rs_db s') = books (rs_db s)"
proof -
  obtain terr p where T: "ReportTelemetry (rv_tx rv) (c_NodeID (rs_cfg s))
      (rv_order rv (FlattenOnline (engine_Online (rv_now rv) (rs_engine s)))) (rv_now rv - rs_started s)
      (systemLoad (rv_loadavg rv) (rv_goroutines rv) (SessionMetrics (rs_engine s))) (rs_db s) = (terr, p)"
    by fastforce
  obtain evs0 rej where L: "logSessionMetrics (SessionMetrics (rs_engine s)) (rs_lastRejected s) = (evs0, rej)"
    by fastforce
  from assms have "s' = s\<lparr>rs_db := p, rs_lastRejected := rej\<rparr>"
    unfolding report_rest_def Let_def T L prod.case by (auto split: sum.splits if_splits)
  with telemetry_books [OF T] show ?thesis by simp
qed

subsection \<open>Progress of the replay\<close>

text \<open>A batch that the ledger can take.\<close>

definition acceptable :: "panel \<Rightarrow> batch \<Rightarrow> bool" where
  "acceptable p b \<longleftrightarrow> b_Entries b \<noteq> [] \<and> list_all (billable (b_TrafficRate b)) (b_Entries b) \<and>
     raw_sum (b_Entries b) \<le> MaxInt64 \<and> fmlookup (p_ss_node p) (b_NodeID b) \<noteq> None \<and>
     (\<forall>stored. fmlookup (p_batches p) (b_ID b) = Some stored \<longrightarrow>
        br_node_id stored = b_NodeID b \<and> hex_decode (b_PayloadSHA256 b) = Some (br_payload_sha256 stored))"

lemma acceptable_book: "acceptable p b \<Longrightarrow> b_ID c \<noteq> b_ID b \<Longrightarrow> acceptable (book t c p) b"
  by (auto simp: acceptable_def book_def)

lemma valid_hash:
  assumes "lib_ok lib" and "validate lib True b = None"
  obtains h where "hex_decode (b_PayloadSHA256 b) = Some h" "length h = 32"
proof -
  obtain data where "hash lib b = Inr (hex_encode (lib_sha256 lib (map of_char data)))"
      "hash lib b = Inr (b_PayloadSHA256 b)"
    using assms(2) by (auto simp: validate_iff hash_def split: option.splits)
  then have "b_PayloadSHA256 b = hex_encode (lib_sha256 lib (map of_char data))" by simp
  with assms(1) hex_decode_encode [of "lib_sha256 lib (map of_char data)"] that show thesis
    by (simp add: lib_ok_def)
qed

lemma ApplyBatch_accepts:
  assumes "no_faults env" and "lib_ok lib" and "validate lib True b = None" and "acceptable p b"
  shows "ApplyBatch env b p = (None, if is_recorded p (b_ID b) then p else book (tx_now env) b p)"
proof -
  obtain h where h: "hex_decode (b_PayloadSHA256 b) = Some h" "length h = 32" by (rule valid_hash [OF assms(2,3)])
  show ?thesis
  proof (cases "fmlookup (p_batches p) (b_ID b)")
    case None
    with assms h have "ApplyBatch env b p = (None, book (tx_now env) b p)"
      by (intro ApplyBatch_progress) (auto simp: acceptable_def validate_iff)
    with None show ?thesis by (simp add: is_recorded_def)
  next
    case (Some stored)
    then have "br_node_id stored = b_NodeID b" "br_payload_sha256 stored = h"
      using assms(4) h by (auto simp: acceptable_def)
    with Some h assms(1) show ?thesis by (simp add: ApplyBatch_def apply_tx_def no_faults_def is_recorded_def)
  qed
qed

definition smooth :: "replaying \<Rightarrow> bool" where
  "smooth rp \<longleftrightarrow> reads_ok (rp_reading rp) \<and> (\<forall>k. no_faults (rp_tx rp k) \<and> rp_remove rp k \<and> rp_sync rp k = (True, True))"

lemma replay_loop_completes:
  assumes "smooth rp" and "lib_ok lib" and "\<forall>f \<in> set fs. file_at lib st d (bf_Path f) (bf_Batch f)"
    and "distinct (map bf_Path fs)" and "distinct (map (b_ID \<circ> bf_Batch) fs)" and "\<forall>f \<in> set fs. acceptable p (bf_Batch f)"
  shows "fst (replay_loop rp st k fs p d) = None"
  using assms(3-)
proof (induction fs arbitrary: k p d)
  case (Cons f fs)
  let ?q = "if is_recorded p (b_ID (bf_Batch f)) then p else book (tx_now (rp_tx rp k)) (bf_Batch f) p"
  have f: "file_at lib st d (bf_Path f) (bf_Batch f)" using Cons.prems(1) by simp
  have "validate lib True (bf_Batch f) = None" using file_at_stored [OF f] by (rule stored_valid)
  then have A: "ApplyBatch (rp_tx rp k) (bf_Batch f) p = (None, ?q)"
    using assms(1,2) Cons.prems(4) by (intro ApplyBatch_accepts) (simp_all add: smooth_def)
  obtain y d1 where R: "Remove (rp_remove rp k) (rp_sync rp k) st (bf_Path f) d = (y, d1)" by fastforce
  then have R': "Remove (fst (True, True, True)) (snd (True, True, True)) st (bf_Path f) d = (y, d1)"
    using assms(1) by (simp add: smooth_def)
  have y: "y = None"
    using f by (auto simp: file_at_def names_ok_def) (metis R' Remove_exists fst_conv snd_conv batch_at_json)
  have "file_at lib st d1 (bf_Path g) (bf_Batch g) \<and> acceptable ?q (bf_Batch g)" if g: "g \<in> set fs" for g
  proof -
    have "bf_Path g \<noteq> bf_Path f" "b_ID (bf_Batch f) \<noteq> b_ID (bf_Batch g)"
      using Cons.prems(2,3) g by (auto simp: image_iff)
    with g Cons.prems(1,4) ob.remove_others [OF f R'] acceptable_book show ?thesis by simp
  qed
  then have "fst (replay_loop rp st (Suc k) fs ?q d1) = None"
    using Cons.prems(2,3) by (intro Cons.IH) auto
  then show ?case using A R y by simp
qed simp

lemma Apply_counters:
  assumes "Apply parse next_s e = Some (e', cb, res)" and "CanApply next_s e" and "engine_kept e"
    and "list_all (\<lambda>u. int64_ok (u_ID u)) (s_Users next_s)"
  shows "engine_kept e'" and "counter x i e' = counter x i e"
proof -
  have n: "n_ID (s_Node next_s) = n_ID (s_Node (en_snapshot e))" using assms(2) by (simp add: CanApply_def dataPlaneNodeEqual_def)
  have st: "en_stats e' = en_stats e" and
    sn: "en_snapshot e' = en_snapshot e \<and> en_retired e' = en_retired e \<or>
      en_snapshot e' = next_s \<and> en_retired e' |\<subseteq>| en_retired e |\<union>| fmdom (usersByID (s_Users (en_snapshot e)))"
    using assms(1) by (auto simp: Apply_def Let_def split: if_splits prod.splits option.splits)
  show "counter x i e' = counter x i e" using sn n by (auto simp: counter_def st)
  have old: "int64_ok j" if "j |\<in>| drainable e" for j using assms(3) that by (auto simp: engine_kept_def)
  from sn have "int64_ok j" if "j |\<in>| drainable e'" for j
  proof (elim disjE conjE)
    assume "en_snapshot e' = en_snapshot e" "en_retired e' = en_retired e"
    with that show ?thesis by (intro old) (simp add: drainable_def)
  next
    assume a: "en_snapshot e' = next_s" "en_retired e' |\<subseteq>| en_retired e |\<union>| fmdom (usersByID (s_Users (en_snapshot e)))"
    show ?thesis
    proof (cases "j |\<in>| fset_of_list (map u_ID (s_Users next_s))")
      case True
      with assms(4) show ?thesis by (auto simp: list_all_iff fset_of_list_elem)
    next
      case False
      with that a have "j |\<in>| en_retired e |\<union>| fmdom (usersByID (s_Users (en_snapshot e)))"
        by (auto simp: drainable_def)
      then show ?thesis by (intro old) (auto simp: drainable_def usersByID_dom)
    qed
  qed
  then show "engine_kept e'" using assms(3) sn n by (auto simp: engine_kept_def st)
qed

text \<open>Closing the engine takes all counters of its users.\<close>

lemma Drain_empties:
  assumes "Drain e = (Inr entries, e')" and "engine_kept e" and "i |\<in>| drainable e"
  shows "counter x i e' = 0"
proof -
  let ?n = "n_ID (s_Node (en_snapshot e))" and ?ids = "sorted_list_of_fset (drainable e)"
  have ids: "distinct ?ids" "\<forall>i \<in> set ?ids. int64_ok i"
    using assms(2) by (simp_all add: sorted_list_of_fset.rep_eq engine_kept_def)
  have "en_stats e' = zero (counters_of ?n ?ids) (en_stats e)"
    using drain_loop_Inr [OF assms(1) [unfolded Drain_def drainLocked_def] ids] by blast
  moreover have "counter_name ?n i (dir_name x) \<in> counters_of ?n ?ids"
    using in_counters_of [OF _ ids(2), of i] ids(2) assms(3) by (simp add: sorted_list_of_fset.rep_eq)
  ultimately show ?thesis by (simp add: counter_def Drain_kept(2) [OF assms(1,2)])
qed

lemma CloseAndDrain_kept:
  assumes "CloseAndDrain ok e = (entries, err, en, cb)" and "engine_kept e" and "en_instance e"
  shows "engine_kept en \<and> en_snapshot en = en_snapshot e \<and> (\<forall>y \<in> set entries. int64_ok (e_UserID y))"
    and "i |\<in>| drainable e \<Longrightarrow> counter x i en = 0 \<and> counter x i e = share x i entries"
    and "err = (if ok then None else Some CloseFailed)"
proof -
  define e1 where "e1 = e\<lparr>en_sessions := fst (Close (en_sessions e)), en_instance := False, en_registered := False\<rparr>"
  have e1: "engine_kept e1" "drainable e1 = drainable e" "en_snapshot e1 = en_snapshot e" "counter x i e1 = counter x i e"
    using assms(2) by (simp_all add: e1_def engine_kept_def drainable_def counter_def)
  obtain es e2 where D: "Drain e1 = (Inr es, e2)" using Drain_ok [OF e1(1)] .
  have r: "entries = es" "en = e2" "err = (if ok then None else Some CloseFailed)"
    using assms(1,3) D unfolding CloseAndDrain_def Let_def Drain_def e1_def by (auto split: prod.splits)
  note K = Drain_kept [OF D e1(1)]
  show "engine_kept en \<and> en_snapshot en = en_snapshot e \<and> (\<forall>y \<in> set entries. int64_ok (e_UserID y))"
    using K(1-3) by (simp add: r e1(3))
  show "err = (if ok then None else Some CloseFailed)" by (fact r(3))
  assume i: "i |\<in>| drainable e"
  then have "int64_ok i" using assms(2) by (auto simp: engine_kept_def)
  with K(4) [of i x] Drain_empties [OF D e1(1), of i x] i
  show "counter x i en = 0 \<and> counter x i e = share x i entries" by (simp add: r e1(2,4))
qed

lemma Restore_fresh: "en_stats e = fmempty \<Longrightarrow> Restore entries e = e"
proof -
  have "foldl (restore_entry n) fmempty es = fmempty" for n es
    by (induction es) (simp_all add: restore_entry_def add_counter_def)
  then show "en_stats e = fmempty \<Longrightarrow> Restore entries e = e" by (simp add: Restore_def)
qed

lemma start_engine_counter:
  assumes "start_engine env snap s = (Inr e, r)"
  shows "counter x i e = 0" and "Restore entries e = e"
  using Start_Inr [OF assms [unfolded start_engine_def]] by (simp_all add: counter_def fmget0_def Restore_fresh)

text \<open>Batches that were recorded between two states of the tables.\<close>

definition newly :: "panel \<Rightarrow> panel \<Rightarrow> batch list \<Rightarrow> bool" where
  "newly p p' bs \<longleftrightarrow> distinct (map b_ID bs) \<and>
     (\<forall>b \<in> set bs. \<not> is_recorded p (b_ID b) \<and> is_recorded p' (b_ID b)) \<and>
     (\<forall>i. is_recorded p i \<longrightarrow> is_recorded p' i)"

lemma newly_trans: "newly p q as \<Longrightarrow> newly q r bs \<Longrightarrow> newly p r (as @ bs)"
  unfolding newly_def by (auto simp: image_iff)

lemma newly_books: "books q = books r \<Longrightarrow> newly p r bs \<Longrightarrow> newly p q bs"
  by (simp add: newly_def is_recorded_def books_def)

lemma book_all_recorded: "is_recorded (book_all bs p) i \<longleftrightarrow> is_recorded p i \<or> i \<in> b_ID ` snd ` set bs"
  using book_all_batches [of bs p i] by (auto simp: is_recorded_def)

lemma booked_newly:
  assumes "p' = book_all bs p" and "mset (outstanding lib st p d) = mset (outstanding lib st p' d') + mset (map snd bs)"
    and "outbox_kept lib st d"
  shows "newly p p' (map snd bs)"
proof -
  have sub: "mset (map snd bs) \<subseteq># mset (outstanding lib st p d)" using assms(2) by simp
  have "distinct (map b_ID (outstanding lib st p d))"
    using assms(3) by (simp add: outbox_kept_def ids_unique_def outstanding_def distinct_map_filter)
  moreover have "mset (map b_ID (map snd bs)) \<subseteq># mset (map b_ID (outstanding lib st p d))"
    using image_mset_subseteq_mono [OF sub, of b_ID] by (simp only: mset_map)
  ultimately have "distinct (map b_ID (map snd bs))"
    unfolding distinct_count_le by (meson mset_subset_eq_count order_trans)
  moreover have "\<not> is_recorded p (b_ID b)" if "b \<in> set (map snd bs)" for b
    using mset_subset_eqD [OF sub, of b] that by (auto simp: outstanding_def)
  ultimately show ?thesis using assms(1) by (auto simp: newly_def book_all_recorded)
qed

lemma report_conserves:
  assumes "report lib rv s = Some (s', err, evs)" and "state_kept lib s" and "lib_ok lib"
    and "fresh_batch lib (rv_persist rv) (rs_store s) (rs_db s) (rs_dir s)"
  shows "\<exists>bs. books (rs_db s') = books (book_all bs (rs_db s)) \<and> state_kept lib s' \<and>
    newly (rs_db s) (rs_db s') (map snd bs) \<and>
    (\<forall>x i. int64_ok i \<longrightarrow> held x lib i s = held x lib i s' + batch_share x i (map snd bs))"
proof -
  obtain entries en where D: "Drain (rs_engine s) = (Inr entries, en)"
    using assms(2) by (auto simp: state_kept_def elim: Drain_ok)
  obtain perr d where P: "persist lib (rv_persist rv) (rs_store s) entries (en_snapshot en) (rs_dir s) = Some (perr, d)"
    using assms(1) D by (cases "persist lib (rv_persist rv) (rs_store s) entries (en_snapshot en) (rs_dir s)")
      (auto simp: report_def)
  note C = persist_conserves [OF D assms(2-4) P]
  show ?thesis
  proof (cases perr)
    case (Some e)
    with assms(1) D P have s': "s' = s\<lparr>rs_engine := drained en entries perr, rs_dir := d\<rparr>"
      by (auto simp: report_def drained_def Let_def)
    have "state_kept lib s'" using C(1,2) by (simp add: s' state_kept_def)
    moreover have "held x lib i s = held x lib i s' + batch_share x i (map snd [])" if "int64_ok i" for x i
      using C(3) [OF that, of x] by (simp add: held_def s' batch_share_def)
    moreover have "books (rs_db s') = books (book_all [] (rs_db s))" by (simp add: s')
    moreover have "newly (rs_db s) (rs_db s') (map snd [])" by (simp add: s' newly_def)
    ultimately show ?thesis by blast
  next
    case None
    obtain rerr p d' where R: "replay lib (rv_replay rv) (rs_store s) (rs_db s) d = (rerr, p, d')"
      using prod_cases3 by blast
    obtain bs where bs: "p = book_all bs (rs_db s)" "outbox_kept lib (rs_store s) d'"
        "mset (outstanding lib (rs_store s) (rs_db s) d) = mset (outstanding lib (rs_store s) p d') + mset (map snd bs)"
      using replay_conserves [OF R C(1)] by blast
    obtain err' evs' where T: "report_rest rv (s\<lparr>rs_engine := en, rs_db := p, rs_dir := d'\<rparr>) = (s', err', evs')"
      using assms(1) D P None R by (auto simp: report_def Let_def split: prod.splits)
    note K = report_rest_keeps [OF T, simplified]
    have "drained en entries perr = en" using None by (simp add: drained_def)
    then have "held x lib i s = held x lib i s' + batch_share x i (map snd bs)" if "int64_ok i" for x i
      using C(3) [OF that, of x] batch_share_add [OF bs(3), of x i] outstanding_books [of "rs_db s'" p lib "rs_store s" d'] K
      by (simp add: held_def)
    moreover have "state_kept lib s'" using C(2) bs(2) K \<open>drained en entries perr = en\<close> by (simp add: state_kept_def)
    moreover have "newly (rs_db s) (rs_db s') (map snd bs)"
      using booked_newly [OF bs(1,3) C(1)] newly_books [of "rs_db s'" p] K by blast
    ultimately show ?thesis using K bs(1) by blast
  qed
qed

text \<open>A hot update loses no traffic. When the next snapshot has the same data plane, \<^verbatim>\<open>reload\<close> with any
  faults leaves the bytes held for every user unchanged and books nothing; the counters of users that
  disappear stay with the engine.\<close>

lemma hot_update_conserves:
  assumes "reload lib rl next_s s = Some (s', err, evs)" and "CanApply next_s (rs_engine s)" and "state_kept lib s"
    and "lib_ok lib" and "fresh_batch lib (rl_persist rl) (rs_store s) (rs_db s) (rs_dir s)"
    and "list_all (\<lambda>u. int64_ok (u_ID u)) (s_Users next_s)"
  shows "rs_db s' = rs_db s \<and> state_kept lib s' \<and> (\<forall>x i. int64_ok i \<longrightarrow> held x lib i s' = held x lib i s)"
proof -
  obtain entries en where D: "Drain (rs_engine s) = (Inr entries, en)"
    using assms(3) by (auto simp: state_kept_def elim: Drain_ok)
  have K: "engine_kept (rs_engine s)" using assms(3) by (simp add: state_kept_def)
  have sn: "en_snapshot en = en_snapshot (rs_engine s)" using Drain_kept(2) [OF D K] .
  have U: "reload_users lib rl next_s s = Some (s', err, evs)" using assms(1,2) by (simp add: reload_def)
  obtain perr d where P: "persist lib (rl_persist rl) (rs_store s) entries (en_snapshot en) (rs_dir s) = Some (perr, d)"
    using U D by (cases "persist lib (rl_persist rl) (rs_store s) entries (en_snapshot en) (rs_dir s)")
      (auto simp: reload_users_def Let_def sn)
  note C = persist_conserves [OF D assms(3,4,5) P]
  show ?thesis
  proof (cases perr)
    case (Some e)
    with U D P have s': "s' = s\<lparr>rs_engine := drained en entries perr, rs_dir := d\<rparr>"
      by (auto simp: reload_users_def drained_def Let_def sn)
    with C show ?thesis by (auto simp: state_kept_def held_def)
  next
    case None
    then have dr: "drained en entries perr = en" by (simp add: drained_def)
    obtain en' cb res where A: "Apply (rl_parse rl) next_s en = Some (en', cb, res)"
      and s': "s' = s\<lparr>rs_engine := en', rs_dir := d\<rparr>"
      using U D P None by (auto simp: reload_users_def Let_def sn split: option.splits sum.splits)
    have "CanApply next_s en" using assms(2) by (simp add: CanApply_def sn)
    then have E: "engine_kept en'" "counter x i en' = counter x i en" for x i
      using Apply_counters [OF A] C(2) assms(6) by (simp_all add: dr)
    from E C(1,3) show ?thesis by (simp add: state_kept_def held_def s' dr)
  qed
qed

lemma persist_total:
  assumes "ps_rnd ps = Some rnd"
  shows "persist lib ps st entries snap d \<noteq> None"
proof -
  let ?b = "NewBatch lib (ps_rnd ps) (n_ID (s_Node snap)) (n_ConfigurationVersion (s_Node snap))
    (n_TrafficRate (s_Node snap)) entries (ps_now ps)"
  have ce: "check_entries k es \<noteq> Some RandUnavailable" for k es
    by (induction k es rule: check_entries.induct) simp_all
  have "validate lib chk b \<noteq> Some RandUnavailable" for chk b
    using ce [of 0 "b_Entries b"] by (auto simp: validate_def hash_def split: option.splits)
  then have "?b \<noteq> Inl RandUnavailable"
    by (auto simp: NewBatch_def newUUID_def hash_def assms Let_def split: option.splits)
  then show ?thesis
    by (cases ?b) (auto simp: persist_def Let_def split: outbox_error.split)
qed

lemma report_total:
  assumes "ps_rnd (rv_persist rv) = Some rnd"
  shows "report lib rv s \<noteq> None"
proof -
  obtain res en where D: "Drain (rs_engine s) = (res, en)" by fastforce
  show ?thesis
  proof (cases res)
    case (Inr entries)
    obtain err d where P: "persist lib (rv_persist rv) (rs_store s) entries (en_snapshot en) (rs_dir s) = Some (err, d)"
      using persist_total [OF assms] by fastforce
    show ?thesis by (cases err) (simp_all add: report_def D Inr P Let_def split: prod.split)
  qed (simp add: report_def D)
qed

lemma replay_drains:
  assumes "smooth rp" and "lib_ok lib" and "outbox_kept lib st d" and "sound lib st d"
    and "\<forall>b \<in> set (stored lib st d). acceptable p b"
  shows "\<exists>bs. replay lib rp st p d = (None, book_all bs p, fmempty) \<and> mset (map snd bs) = mset (outstanding lib st p d)"
proof -
  have O: "clean_abs (st_dir st)" "names_ok d" "ids_unique lib st d" using assms(3) by (simp_all add: outbox_kept_def)
  have L: "List lib (rp_reading rp) st d = Inr (listing lib st d)"
    using List_iff [OF O(1,2)] assms(1,4) by (simp add: smooth_def)
  note M = listing_stored [OF assms(4)]
  have "distinct (map (b_ID \<circ> bf_Batch) (listing lib st d))"
    using O(3) by (simp add: ids_unique_def flip: M)
  moreover have "\<forall>f \<in> set (listing lib st d). acceptable p (bf_Batch f)"
    using assms(5) by (simp flip: M)
  ultimately have "fst (replay lib rp st p d) = None"
    using replay_loop_completes [OF assms(1,2) _ listing_paths [OF O(1,2)]] listing_files [OF O(1,2) assms(4)]
    by (simp add: replay_def L)
  then obtain p' d' where R: "replay lib rp st p d = (None, p', d')" by (metis prod.collapse)
  obtain bs where "p' = book_all bs p" "d' = fmempty"
      "mset (outstanding lib st p d) = mset (outstanding lib st p' d') + mset (map snd bs)"
    using replay_conserves [OF R assms(3)] by blast
  with R show ?thesis by (auto simp: outstanding_def)
qed

subsection \<open>Samples\<close>

definition sample_persisting :: persisting where
  "sample_persisting = \<lparr>ps_rnd = Some (replicate 16 1), ps_now = 9, ps_saving = sample_saving False\<rparr>"

definition sample_replaying :: replaying where
  "sample_replaying = \<lparr>rp_reading = all_reads, rp_tx = (\<lambda>k. sample_tx CommitDone 5), rp_remove = (\<lambda>_. True),
     rp_sync = (\<lambda>_. (True, True))\<rparr>"

definition sample_reporting :: reporting where
  "sample_reporting = \<lparr>rv_persist = sample_persisting, rv_replay = sample_replaying, rv_order = (\<lambda>xs. xs),
     rv_tx = sample_tx CommitDone 5, rv_now = 9, rv_loadavg = None, rv_goroutines = 3, rv_reading = all_reads\<rparr>"

definition sample_state :: runtimeState where
  "sample_state = \<lparr>rs_cfg = sample_config, rs_db = sample_panel, rs_store = sample_store, rs_dir = fmempty,
     rs_engine = sample_engine, rs_registered = True, rs_privateKey = sample_key, rs_started = 0, rs_lastAuth = 0,
     rs_lastRejected = fmempty\<rparr>"

lemma sample_engine_kept: "engine_kept sample_engine"
  by (auto simp: engine_kept_def sample_engine_def counts_ok_def drainable_def sample_snapshot_def sample_node_def
      int64_defs split: if_splits)

lemma sample_state_kept: "state_kept line_lib sample_state"
  using sample_store_clean sample_engine_kept
  by (simp add: state_kept_def outbox_kept_def sample_state_def ids_unique_def names_ok_def)

lemma sample_held: "held Up line_lib 5 sample_state = 3"
  by (simp add: held_def sample_state_def outstanding_def batch_share_def counter_def)
     (simp add: sample_engine_def sample_snapshot_def sample_node_def fmget0_def)

lemma sample_fresh: "fresh_batch line_lib sample_persisting sample_store sample_panel fmempty"
  by (simp add: fresh_batch_def sample_persisting_def int64_defs is_recorded_def sample_panel_def)

lemma sample_stored:
  "\<exists>d. stored line_lib sample_store d = [sample_batch] \<and> outbox_kept line_lib sample_store d \<and> sound line_lib sample_store d \<and>
     fmdom' d = {batch_base 9 sample_batch}"
proof -
  obtain json where j: "lib_marshal line_lib sample_batch = Some json" by (rule sample_json)
  let ?n = "batch_base 9 sample_batch" and ?f = "Regular (json @ [CHR 0x0A]) 0"
  have "lib_decode line_lib (json @ [CHR 0x0A]) = Some (sample_batch, [CHR 0x0A])"
    using line_lib_ok sample_batch_typed sample_batch_valid j by (simp add: lib_ok_def)
  moreover have "b_NodeID sample_batch = st_nodeID sample_store" by (simp add: sample_batch_def sample_store_def)
  ultimately have b: "batch_at line_lib sample_store (fmupd ?n ?f fmempty) ?n = Some sample_batch"
    using sample_batch_valid batch_base_suffix [of 9 sample_batch] by (simp add: batch_at_def json_blank_def)
  then have "mset (stored line_lib sample_store (fmupd ?n ?f fmempty)) = {#sample_batch#}"
    by (simp add: stored_upd)
  then have st: "stored line_lib sample_store (fmupd ?n ?f fmempty) = [sample_batch]" by simp
  have "names_ok (fmupd ?n ?f fmempty)" using batch_base_plain(1) [OF sample_batch_uuid] by (simp add: names_ok_def)
  with st sample_store_clean b show ?thesis
    by (intro exI [of _ "fmupd ?n ?f fmempty"]) (simp add: outbox_kept_def ids_unique_def sound_def)
qed

lemma sample_accepted:
  "smooth sample_replaying" "acceptable sample_panel sample_batch"
proof -
  show "smooth sample_replaying"
    using all_reads_ok by (simp add: smooth_def sample_replaying_def no_faults_def sample_tx_def)
  show "acceptable sample_panel sample_batch"
    using sample_billable by (simp add: acceptable_def sample_batch_facts raw_sum_def MaxInt64_def) (simp add: sample_panel_def)
qed

text \<open>An engine without traffic that remembers user 3.\<close>

definition idle_engine :: engine where
  "idle_engine = sample_engine\<lparr>en_stats := fmempty, en_retired := {|3|}\<rparr>"

lemma idle_close: "\<exists>en cb. CloseAndDrain True idle_engine = ([], None, en, cb)"
proof -
  have "case CloseAndDrain True idle_engine of ([], None, en, cb) \<Rightarrow> True | _ \<Rightarrow> False" by code_simp
  then show ?thesis by (auto split: prod.splits list.splits option.splits)
qed

definition sample_reloading :: reloading where
  "sample_reloading = \<lparr>rl_parse = (\<lambda>_. Some (replicate 16 0)), rl_persist = sample_persisting, rl_close = False,
     rl_start = sample_start, rl_rollback = sample_start\<rparr>"

subsection \<open>Properties\<close>

text \<open>C5: A replay settles batches exactly once. Whatever fails in it, statements, commits whose answer is
  lost, removals and the synchronization of the directory, the tables afterwards are the tables of
  before with a list of batches booked, and the stored batches that were not booked before are
  exactly these together with the ones still to be booked: no batch is lost, and none is booked
  twice, in this replay or a later one. A replay without an error leaves an empty outbox.\<close>

theorem replay_settles:
  assumes "replay lib rp st p d = (err, p', d')" and "outbox_kept lib st d"
  shows "\<exists>bs. p' = book_all bs p \<and> mset (outstanding lib st p d) = mset (outstanding lib st p' d') + mset (map snd bs) \<and>
    outbox_kept lib st d' \<and> (err = None \<longrightarrow> d' = fmempty)"
  using replay_conserves [OF assms] by blast

theorem replay_settles_witness:
  "\<exists>d err p' d' bs. outstanding line_lib sample_store sample_panel d = [sample_batch] \<and>
     replay line_lib sample_replaying sample_store sample_panel d = (err, p', d') \<and> p' = book_all bs sample_panel \<and>
     {#sample_batch#} = mset (outstanding line_lib sample_store p' d') + mset (map snd bs)"
proof -
  obtain d where d: "stored line_lib sample_store d = [sample_batch]" "outbox_kept line_lib sample_store d"
    using sample_stored by blast
  obtain err p' d' where R: "replay line_lib sample_replaying sample_store sample_panel d = (err, p', d')"
    using prod_cases3 by blast
  have o: "outstanding line_lib sample_store sample_panel d = [sample_batch]"
    by (simp add: outstanding_def d(1) is_recorded_def sample_panel_def)
  obtain bs :: "(int \<times> batch) list" where "p' = book_all bs sample_panel"
      "{#sample_batch#} = mset (outstanding line_lib sample_store p' d') + mset (map snd bs)"
    using replay_settles [OF R d(2)] by (auto simp: o)
  with R o show ?thesis by blast
qed

text \<open>C18: A replay without faults books everything. When the outbox can be listed, no call fails and
  the ledger can take every stored batch, the replay succeeds, empties the outbox and books every
  batch that was not booked before.\<close>

theorem replay_completes:
  assumes "smooth rp" and "lib_ok lib" and "outbox_kept lib st d" and "sound lib st d"
    and "\<forall>b \<in> set (stored lib st d). acceptable p b"
  shows "\<exists>bs. replay lib rp st p d = (None, book_all bs p, fmempty) \<and> mset (map snd bs) = mset (outstanding lib st p d)"
  using assms by (rule replay_drains)

theorem replay_completes_witness:
  "\<exists>d t. stored line_lib sample_store d = [sample_batch] \<and>
     replay line_lib sample_replaying sample_store sample_panel d = (None, book t sample_batch sample_panel, fmempty)"
proof -
  obtain d where d: "stored line_lib sample_store d = [sample_batch]" "outbox_kept line_lib sample_store d"
      "sound line_lib sample_store d" using sample_stored by blast
  have "outstanding line_lib sample_store sample_panel d = [sample_batch]"
    by (simp add: outstanding_def d(1) is_recorded_def sample_panel_def)
  with sample_accepted obtain bs :: "(int \<times> batch) list" where bs:
      "replay line_lib sample_replaying sample_store sample_panel d = (None, book_all bs sample_panel, fmempty)"
      "mset (map snd bs) = {#sample_batch#}"
    using replay_completes [OF _ line_lib_ok d(2,3), of sample_replaying sample_panel] by (auto simp: d(1))
  then have "map snd bs = [sample_batch]" by (simp only: mset_single_iff)
  then obtain t where "bs = [(t, sample_batch)]" by (cases bs) auto
  with bs(1) d(1) show ?thesis by (auto simp: book_all_def)
qed

text \<open>A report neither loses nor invents traffic. Whatever system call or statement fails, as long as
  the random id of its batch is new, for every user and direction the bytes held before, in the counter
  and in the stored batches not yet booked, are the bytes held afterwards and the bytes of the batches the
  report booked; the books change by these bookings only, and the state stays well formed.\<close>

theorem report_conserves_traffic:
  assumes "report lib rv s = Some (s', err, evs)" and "state_kept lib s" and "lib_ok lib"
    and "fresh_batch lib (rv_persist rv) (rs_store s) (rs_db s) (rs_dir s)"
  shows "\<exists>bs. books (rs_db s') = books (book_all bs (rs_db s)) \<and> state_kept lib s' \<and>
    (\<forall>x i. int64_ok i \<longrightarrow> held x lib i s = held x lib i s' + batch_share x i (map snd bs))"
  using report_conserves [OF assms] by blast

theorem report_conserves_traffic_witness:
  "\<exists>s' err evs bs. report line_lib sample_reporting sample_state = Some (s', err, evs) \<and>
     held Up line_lib 5 s' + batch_share Up 5 bs = 3"
proof -
  have "ps_rnd (rv_persist sample_reporting) = Some (replicate 16 1)"
    by (simp add: sample_reporting_def sample_persisting_def)
  from report_total [OF this, of line_lib sample_state] obtain s' err evs
    where R: "report line_lib sample_reporting sample_state = Some (s', err, evs)" by fastforce
  have f: "rs_engine sample_state = sample_engine" "rv_persist sample_reporting = sample_persisting"
      "rs_store sample_state = sample_store" "rs_db sample_state = sample_panel" "rs_dir sample_state = fmempty"
    by (simp_all add: sample_state_def sample_reporting_def)
  note sample_held
  moreover have "int64_ok 5" by (simp add: int64_defs)
  moreover obtain bs :: "(int \<times> batch) list" where "\<forall>x i. int64_ok i \<longrightarrow>
      held x line_lib i sample_state = held x line_lib i s' + batch_share x i (map snd bs)"
    using report_conserves_traffic [OF R sample_state_kept line_lib_ok] sample_fresh
    unfolding f by blast
  ultimately have "held Up line_lib 5 s' + batch_share Up 5 (map snd bs) = 3" by simp
  with R show ?thesis by blast
qed

text \<open>C34: When a restart of the engine loses traffic. The restart keeps the bytes held for every known user,
  except in two cases: closing the instance reported an error, after which the drained entries are
  not stored, or they could not be stored, after which they are restored to a new engine that has no
  counters. In these cases exactly the drained traffic is lost, without a trace in the state.\<close>

theorem restart_loses_traffic:
  assumes "reload lib rl next_s s = Some (s', err, evs)" and "\<not> CanApply next_s (rs_engine s)" and "state_kept lib s"
    and "lib_ok lib" and "fresh_batch lib (rl_persist rl) (rs_store s) (rs_db s) (rs_dir s)"
    and "en_instance (rs_engine s)" and "i |\<in>| drainable (rs_engine s)"
  shows "rs_db s' = rs_db s \<and> held x lib i s = held x lib i s' +
    (if \<not> rl_close rl \<or> (\<exists>e re. \<not> WasPublished (Some e) \<and>
          (err = Some (PersistBeforeReload e) \<or> err = Some (PersistRollbackFailed e re)))
     then counter x i (rs_engine s) else 0)"
proof -
  obtain entries closeErr en cb where C: "CloseAndDrain (rl_close rl) (rs_engine s) = (entries, closeErr, en, cb)"
    using prod_cases4 by blast
  have E: "engine_kept (rs_engine s)" and O: "outbox_kept lib (rs_store s) (rs_dir s)"
    using assms(3) by (auto simp: state_kept_def)
  note K = CloseAndDrain_kept [OF C E assms(6)]
  note Ki = K(2) [OF assms(7), of x]
  have U: "reload_restart lib rl next_s s = Some (s', err, evs)" using assms(1,2) by (simp add: reload_def)
  show ?thesis
  proof (cases "rl_close rl")
    case False
    with U C K(3) have "s' = s\<lparr>rs_engine := en, rs_registered := en_registered en\<rparr>"
      by (auto simp: reload_restart_def Let_def)
    with False Ki show ?thesis by (simp add: held_def)
  next
    case True
    then have ce: "closeErr = None" using K(3) by simp
    obtain perr d where P: "persist lib (rl_persist rl) (rs_store s) entries (en_snapshot (rs_engine s)) (rs_dir s) = Some (perr, d)"
      using U C ce by (cases "persist lib (rl_persist rl) (rs_store s) entries (en_snapshot (rs_engine s)) (rs_dir s)")
        (auto simp: reload_restart_def Let_def)
    have nid: "int64_ok (n_ID (s_Node (en_snapshot (rs_engine s))))" using E by (simp add: engine_kept_def)
    have ids: "\<forall>y \<in> set entries. int64_ok (e_UserID y)" using K(1) by blast
    note S = persist_share [OF P O assms(4,5) nid ids, of x i]
    have st: "counter x i (rs_engine s') = 0 \<and> rs_db s' = rs_db s \<and> rs_store s' = rs_store s \<and> rs_dir s' = d \<and>
        (\<forall>e. perr = Some e \<longrightarrow> err = Some (PersistBeforeReload e) \<or> (\<exists>re. err = Some (PersistRollbackFailed e re))) \<and>
        (perr = None \<longrightarrow> (\<forall>e re. err \<noteq> Some (PersistBeforeReload e) \<and> err \<noteq> Some (PersistRollbackFailed e re)))"
      using U C ce P start_engine_counter Ki
      by (auto simp: reload_restart_def Let_def split: option.splits sum.splits prod.splits)
    then have "held x lib i s' = batch_share x i (outstanding lib (rs_store s) (rs_db s) d)" by (simp add: held_def)
    with S Ki st True show ?thesis by (cases perr) (auto simp: held_def)
  qed
qed

theorem restart_loses_traffic_witness:
  "\<exists>s' err evs. reload line_lib sample_reloading (served_snapshot []) sample_state = Some (s', err, evs) \<and>
     held Up line_lib 5 sample_state = 3 \<and> held Up line_lib 5 s' = 0"
proof -
  have eng: "rs_engine sample_state = sample_engine" "rl_close sample_reloading = False"
    by (simp_all add: sample_state_def sample_reloading_def)
  have n: "\<not> CanApply (served_snapshot []) (rs_engine sample_state)" by code_simp
  have i: "en_instance (rs_engine sample_state)" by (simp add: eng sample_engine_def)
  have k: "engine_kept (rs_engine sample_state)" using sample_engine_kept by (simp add: eng)
  obtain entries closeErr en cb where C: "CloseAndDrain False (rs_engine sample_state) = (entries, closeErr, en, cb)"
    using prod_cases4 by blast
  have "closeErr = Some CloseFailed" using CloseAndDrain_kept(3) [OF C k i] by simp
  with C n obtain s' err evs where R: "reload line_lib sample_reloading (served_snapshot []) sample_state = Some (s', err, evs)"
    by (auto simp: reload_def reload_restart_def eng Let_def)
  have f: "fresh_batch line_lib (rl_persist sample_reloading) (rs_store sample_state) (rs_db sample_state) (rs_dir sample_state)"
    using sample_fresh by (simp add: sample_reloading_def sample_state_def)
  have d: "5 |\<in>| drainable (rs_engine sample_state)" by (simp add: eng drainable_def sample_engine_def)
  have "counter Up 5 sample_engine = 3"
    by (simp add: counter_def sample_engine_def sample_snapshot_def sample_node_def fmget0_def)
  with restart_loses_traffic [OF R n sample_state_kept line_lib_ok f i d, of Up]
  have "held Up line_lib 5 sample_state = held Up line_lib 5 s' + 3" by (simp add: eng)
  with R sample_held show ?thesis by auto
qed

text \<open>C17: After a clean shutdown every byte is booked. When \<^verbatim>\<open>shutdown\<close> of a running engine reports no
  error and the random id of its batch is new, the outbox is empty and the batches booked by it hold exactly the bytes that the service held
  for every known user.\<close>

theorem shutdown_settles:
  assumes "shutdown lib sp s = Some (s', None, evs)" and "state_kept lib s" and "lib_ok lib"
    and "fresh_batch lib (sp_persist sp) (rs_store s) (rs_db s) (rs_dir s)" and "en_instance (rs_engine s)"
  shows "\<exists>bs. rs_db s' = book_all bs (rs_db s) \<and> rs_dir s' = fmempty \<and>
    (\<forall>x i. i |\<in>| drainable (rs_engine s) \<longrightarrow> held x lib i s = batch_share x i (map snd bs))"
proof -
  obtain entries closeErr en cb where C: "CloseAndDrain (sp_close sp) (rs_engine s) = (entries, closeErr, en, cb)"
    using prod_cases4 by blast
  have E: "engine_kept (rs_engine s)" and O: "outbox_kept lib (rs_store s) (rs_dir s)"
    using assms(2) by (auto simp: state_kept_def)
  note K = CloseAndDrain_kept [OF C E assms(5)]
  obtain perr d where P: "persist lib (sp_persist sp) (rs_store s) entries (en_snapshot en) (rs_dir s) = Some (perr, d)"
    using assms(1) C by (cases "persist lib (sp_persist sp) (rs_store s) entries (en_snapshot en) (rs_dir s)")
      (auto simp: shutdown_def)
  obtain rerr p d' where R: "replay lib (sp_replay sp) (rs_store s) (rs_db s) d = (rerr, p, d')"
    using prod_cases3 by blast
  from assms(1) C P R have s': "rs_db s' = p" "rs_dir s' = d'" and err: "perr = None" "rerr = None"
    by (auto simp: shutdown_def join_errors_def List.map_filter_simps split: option.splits)
  have nid: "int64_ok (n_ID (s_Node (en_snapshot en)))" using K(1) E by (simp add: engine_kept_def)
  have ids: "\<forall>y \<in> set entries. int64_ok (e_UserID y)" using K(1) by blast
  note S = persist_share [OF P O assms(3,4) nid ids]
  obtain bs where bs: "p = book_all bs (rs_db s)" "d' = fmempty"
      "mset (outstanding lib (rs_store s) (rs_db s) d) = mset (outstanding lib (rs_store s) p d') + mset (map snd bs)"
    using replay_conserves [OF R] S err(2) by blast
  have "held x lib i s = batch_share x i (map snd bs)" if "i |\<in>| drainable (rs_engine s)" for x i
    using K(2) [OF that, of x] S [of x i] err(1) batch_share_add [OF bs(3), of x i] bs(2)
    by (simp add: held_def outstanding_def batch_share_def)
  with bs(1,2) s' show ?thesis by blast
qed

theorem shutdown_settles_witness:
  "\<exists>s s' evs bs. shutdown line_lib \<lparr>sp_close = True, sp_persist = sample_persisting, sp_replay = sample_replaying\<rparr> s
     = Some (s', None, evs) \<and> rs_db s' = book_all bs (rs_db s) \<and> batch_share Up 3 (map snd bs) = 10"
proof -
  let ?sp = "\<lparr>sp_close = True, sp_persist = sample_persisting, sp_replay = sample_replaying\<rparr>"
  obtain d where d: "stored line_lib sample_store d = [sample_batch]" "outbox_kept line_lib sample_store d"
      "sound line_lib sample_store d" "fmdom' d = {batch_base 9 sample_batch}" using sample_stored by blast
  define s where "s = sample_state\<lparr>rs_dir := d, rs_engine := idle_engine\<rparr>"
  have f: "rs_engine s = idle_engine" "rs_store s = sample_store" "rs_db s = sample_panel" "rs_dir s = d"
    by (simp_all add: s_def sample_state_def)
  obtain en cb where C: "CloseAndDrain True idle_engine = ([], None, en, cb)" using idle_close by blast
  obtain bs where R: "replay line_lib sample_replaying sample_store sample_panel d = (None, book_all bs sample_panel, fmempty)"
    using replay_drains [OF sample_accepted(1) line_lib_ok d(2,3), of sample_panel] sample_accepted(2) d(1) by auto
  obtain s' evs where S: "shutdown line_lib ?sp s = Some (s', None, evs)"
    by (auto simp: shutdown_def f C persist_def R join_errors_def List.map_filter_simps)
  have "engine_kept idle_engine"
    using sample_engine_kept
    by (simp add: engine_kept_def idle_engine_def counts_ok_def drainable_def sample_engine_def sample_snapshot_def int64_defs)
  then have k: "state_kept line_lib s" using d(2) by (simp add: state_kept_def f)
  have id: "b_ID sample_batch \<noteq> new_id sample_persisting" by code_simp
  have "pad20 (sv_nanos (ps_saving sample_persisting)) @ ''-'' @ new_id sample_persisting @ ''.json'' \<notin> fmdom' d"
    using id by (simp add: d(4) batch_base_def) (simp add: sample_persisting_def sample_saving_def)
  then have "fmlookup d (pad20 (sv_nanos (ps_saving sample_persisting)) @ ''-'' @ new_id sample_persisting @ ''.json'') = None"
    by (rule fmdom'_notD)
  then have fr: "fresh_batch line_lib (sp_persist ?sp) (rs_store s) (rs_db s) (rs_dir s)"
    using id by (simp add: fresh_batch_def f d(1) is_recorded_def sample_panel_def) (simp add: sample_persisting_def int64_defs)
  have i: "en_instance (rs_engine s)" "3 |\<in>| drainable (rs_engine s)"
    by (simp_all add: f idle_engine_def sample_engine_def drainable_def)
  obtain cs where cs: "rs_db s' = book_all cs (rs_db s)" "held Up line_lib 3 s = batch_share Up 3 (map snd cs)"
    using shutdown_settles [OF S k line_lib_ok fr i(1)] i(2) by blast
  have "held Up line_lib 3 s = 10"
    by (simp add: held_def f outstanding_def d(1) is_recorded_def batch_share_def counter_def)
       (simp add: sample_panel_def idle_engine_def fmget0_def share_def sample_batch_facts)
  with S cs show ?thesis by metis
qed

end
