(* ===== verification/Operation.thy ===== *)
theory Operation
  imports Service Settlement
begin

text \<open>
  The service as a whole: what its start guarantees before it serves, and that a run of its main
  loop, with any order of reports and refreshes and any faults, conserves the traffic.
\<close>

subsection \<open>Start\<close>

definition boot_store :: "config \<Rightarrow> store" where
  "boot_store cfg = \<lparr>st_dir = path_join (c_StateDir cfg) ''outbox'', st_nodeID = c_NodeID cfg,
     st_maxBytes = c_OutboxMaxBytes cfg\<rparr>"

definition disk_dir :: "world \<Rightarrow> directory" where
  "disk_dir w = (case w_disk w of None \<Rightarrow> fmempty | Some d \<Rightarrow> d)"

lemma Open_disk:
  assumes "Outbox.Open lib rd mk ch dir node mb disk = (res, disk')"
  shows "(case disk' of None \<Rightarrow> fmempty | Some d \<Rightarrow> d) = (case disk of None \<Rightarrow> fmempty | Some d \<Rightarrow> d)"
    and "res = Inr st \<Longrightarrow> st = \<lparr>st_dir = path_join dir ''outbox'', st_nodeID = node, st_maxBytes = mb\<rparr> \<and>
      disk' = Some (case disk of None \<Rightarrow> fmempty | Some d \<Rightarrow> d)"
  using assms by (auto simp: Outbox.Open_def Let_def split: if_splits sum.splits)

text \<open>Batches that moved from the outbox to the books between two states of the world.\<close>

definition world_moves :: "batch_lib \<Rightarrow> store \<Rightarrow> world \<Rightarrow> world \<Rightarrow> bool" where
  "world_moves lib st w w' \<longleftrightarrow> (\<exists>bs. w_panel w' = book_all bs (w_panel w) \<and>
     mset (outstanding lib st (w_panel w) (disk_dir w)) =
       mset (outstanding lib st (w_panel w') (disk_dir w')) + mset (map snd bs))"

lemma world_moves_same:
  "w_panel w' = w_panel w \<Longrightarrow> disk_dir w' = disk_dir w \<Longrightarrow> world_moves lib st w w'"
  unfolding world_moves_def by (intro exI [of _ "[]"]) simp

text \<open>What a started service has.\<close>

definition serves :: "load_lib \<Rightarrow> load_env \<Rightarrow> config \<Rightarrow> world \<Rightarrow> runtimeState \<Rightarrow> bool" where
  "serves ll le cfg w s \<longleftrightarrow> rs_cfg s = cfg \<and> rs_store s = boot_store cfg \<and> rs_dir s = fmempty \<and> disk_dir w = fmempty \<and>
     rs_db s = w_panel w \<and>
     en_instance (rs_engine s) \<and> en_stats (rs_engine s) = fmempty \<and> en_retired (rs_engine s) = {||} \<and>
     fst (LoadSnapshot (ll_md5 ll) (ll_marshal ll) (ll_sha256 ll) le (w_panel w) (c_NodeID cfg)) =
       Inr (en_snapshot (rs_engine s))"

lemma boot_components_result:
  assumes "boot_components lib ll h bt cfg key w = (res, w')" and "outbox_kept lib (boot_store cfg) (disk_dir w)"
  shows "world_moves lib (boot_store cfg) w w' \<and> w_locked w' = w_locked w \<and>
    (\<forall>s. res = Inr s \<longrightarrow> serves ll (bt_load bt) cfg w' s)"
proof -
  obtain ores disk where Op: "Outbox.Open lib (bt_reading bt) (bt_mkdir bt) (bt_chmod bt) (c_StateDir cfg) (c_NodeID cfg)
      (c_OutboxMaxBytes cfg) (w_disk w) = (ores, disk)" by fastforce
  note B = assms(1) [unfolded boot_components_def Op prod.case]
  have dd: "disk_dir (w\<lparr>w_disk := disk\<rparr>) = disk_dir w" using Open_disk(1) [OF Op] by (simp add: disk_dir_def)
  show ?thesis
  proof (cases "\<exists>st. ores = Inr st \<and> ho_ping h")
    case False
    with B have "w' = w\<lparr>w_disk := disk\<rparr>" "\<forall>s. res \<noteq> Inr s" by (auto split: sum.splits if_splits)
    with dd show ?thesis by (auto intro: world_moves_same)
  next
    case True
    then obtain st where st: "ores = Inr st" "ho_ping h" by blast
    with Open_disk(2) [OF Op] have so: "st = boot_store cfg" "disk = Some (disk_dir w)"
      by (auto simp: boot_store_def disk_dir_def)
    obtain rerr p d where R: "replay lib (bt_replay bt) (boot_store cfg) (w_panel w) (disk_dir w) = (rerr, p, d)"
      using prod_cases3 by blast
    obtain bs where bs: "p = book_all bs (w_panel w)" "rerr = None \<longrightarrow> d = fmempty"
        "mset (outstanding lib (boot_store cfg) (w_panel w) (disk_dir w)) =
           mset (outstanding lib (boot_store cfg) p d) + mset (map snd bs)"
      using replay_conserves [OF R assms(2)] by blast
    define w2 where "w2 = w\<lparr>w_disk := Some d, w_panel := p\<rparr>"
    have mv: "world_moves lib (boot_store cfg) w w2"
      unfolding world_moves_def w2_def using bs(1,3) by (intro exI [of _ bs]) (simp add: disk_dir_def)
    note B2 = B [unfolded so st sum.case, simplified]
    have w': "w' = w2" using B2 st(2) R by (auto simp: w2_def Let_def split: option.splits prod.splits sum.splits)
    have "serves ll (bt_load bt) cfg w' s" if r: "res = Inr s" for s
    proof -
      obtain snap ws where L: "rerr = None"
          "LoadSnapshot (ll_md5 ll) (ll_marshal ll) (ll_sha256 ll) (bt_load bt) p (c_NodeID cfg) = (Inr snap, ws)"
        using B2 st(2) R r by (auto simp: Let_def split: option.splits prod.splits sum.splits)
      then obtain en reg where E: "Start (bt_start bt) snap cfg key False = (Inr en, reg)"
          "s = \<lparr>rs_cfg = cfg, rs_db = p, rs_store = boot_store cfg, rs_dir = d, rs_engine = en, rs_registered = reg,
             rs_privateKey = key, rs_started = bt_started bt, rs_lastAuth = bt_lastAuth bt, rs_lastRejected = fmempty\<rparr>"
        using B2 st(2) R r by (auto simp: Let_def split: prod.splits sum.splits)
      from Start_Inr [OF E(1)] L bs(2) show ?thesis by (simp add: serves_def E(2) w' w2_def disk_dir_def)
    qed
    with mv w' show ?thesis by (simp add: w2_def)
  qed
qed

lemma lockStateDir_cases:
  "lockStateDir lk locked = (err, locked') \<Longrightarrow> (err = None \<and> \<not> locked \<and> locked') \<or> (err \<noteq> None \<and> locked' = locked)"
  by (auto simp: lockStateDir_def split: path_info.splits if_splits)

lemma bootstrap_result:
  assumes "bootstrap lib ll h bt cfg w = (res, w')" and "outbox_kept lib (boot_store cfg) (disk_dir w)"
  shows "world_moves lib (boot_store cfg) w w' \<and>
    (case res of Inl e \<Rightarrow> w_locked w' = w_locked w
     | Inr s \<Rightarrow> \<not> w_locked w \<and> w_locked w' \<and> serves ll (bt_load bt) cfg w' s) \<and>
    (w_locked w \<longrightarrow> isl res \<and> w' = w)"
proof -
  obtain err locked where K: "lockStateDir (bt_lock bt) (w_locked w) = (err, locked)" by fastforce
  note B = assms(1) [unfolded bootstrap_def K prod.case]
  show ?thesis
  proof (cases err)
    case (Some e)
    with lockStateDir_cases [OF K] have "locked = w_locked w" by simp
    with B Some have "res = Inl e" "w' = w" by auto
    then show ?thesis by (simp add: world_moves_same)
  next
    case None
    with lockStateDir_cases [OF K] have l: "\<not> w_locked w" "locked" by auto
    let ?w = "w\<lparr>w_locked := locked\<rparr>"
    show ?thesis
    proof (cases "open_secrets h ll cfg")
      case (Inl e)
      with B None have "res = Inl e" "w' = w\<lparr>w_locked := False\<rparr>" by (auto simp: Let_def stateLock_Close_def)
      then show ?thesis using l by (auto simp: disk_dir_def intro!: world_moves_same)
    next
      case (Inr key)
      obtain bres w2 where C: "boot_components lib ll h bt cfg key ?w = (bres, w2)" by fastforce
      have "outbox_kept lib (boot_store cfg) (disk_dir ?w)" using assms(2) by (simp add: disk_dir_def)
      note R = boot_components_result [OF C this]
      have mv: "world_moves lib (boot_store cfg) w (w2\<lparr>w_locked := x\<rparr>)" for x
        using conjunct1 [OF R] by (simp add: world_moves_def disk_dir_def)
      from mv [of "w_locked w2"] have mv2: "world_moves lib (boot_store cfg) w w2" by simp
      show ?thesis
      proof (cases bres)
        case (Inl e)
        with B None Inr C have "res = Inl e" "w' = w2\<lparr>w_locked := False\<rparr>" by (auto simp: Let_def stateLock_Close_def)
        with mv l show ?thesis by simp
      next
        case (Inr s)
        with B None \<open>open_secrets h ll cfg = Inr key\<close> C have "res = Inr s" "w' = w2" by (auto simp: Let_def)
        with mv2 R l Inr show ?thesis by simp
      qed
    qed
  qed
qed

subsection \<open>Runs\<close>

text \<open>
  The assumptions on a step: new batches have new ids, a refresh finds the same data plane, other
  clients leave the table of batches alone and the counters do not overflow.
\<close>

fun calm :: "batch_lib \<Rightarrow> load_lib \<Rightarrow> select_case \<Rightarrow> runtimeState \<Rightarrow> bool" where
  "calm lib ll (CtxDone e) s = True"
| "calm lib ll (ReportTick rv) s = fresh_batch lib (rv_persist rv) (rs_store s) (rs_db s) (rs_dir s)"
| "calm lib ll (AuthTick rf) s =
     (fresh_batch lib (rl_persist (rf_reload rf)) (rs_store s) (rs_db s) (rs_dir s) \<and>
      (case LoadSnapshot (ll_md5 ll) (ll_marshal ll) (ll_sha256 ll) (rf_load rf) (rs_db s) (c_NodeID (rs_cfg s)) of
         (Inl _, _) \<Rightarrow> True
       | (Inr snap, _) \<Rightarrow> CanApply snap (rs_engine s) \<and> list_all (\<lambda>u. int64_ok (u_ID u)) (s_Users snap)))"
| "calm lib ll (Elsewhere m p r) s = (p_batches p = p_batches (rs_db s) \<and> counts_ok m)"

fun calm_run :: "batch_lib \<Rightarrow> load_lib \<Rightarrow> select_case list \<Rightarrow> runtimeState \<Rightarrow> bool" where
  "calm_run lib ll [] s = True"
| "calm_run lib ll (c # cs) s = (calm lib ll c s \<and> (case run_step lib ll c s of
     Some (s', None) \<Rightarrow> calm_run lib ll cs s' | _ \<Rightarrow> True))"

text \<open>The traffic counted during a step, and during a run.\<close>

fun counted :: "direction \<Rightarrow> int64 \<Rightarrow> select_case \<Rightarrow> runtimeState \<Rightarrow> int" where
  "counted x i (Elsewhere m p r) s = counter x i ((rs_engine s)\<lparr>en_stats := m\<rparr>) - counter x i (rs_engine s)"
| "counted x i _ s = 0"

fun counted_run :: "direction \<Rightarrow> int64 \<Rightarrow> batch_lib \<Rightarrow> load_lib \<Rightarrow> select_case list \<Rightarrow> runtimeState \<Rightarrow> int" where
  "counted_run x i lib ll [] s = 0"
| "counted_run x i lib ll (c # cs) s = counted x i c s + (case run_step lib ll c s of
     Some (s', None) \<Rightarrow> counted_run x i lib ll cs s' | _ \<Rightarrow> 0)"

text \<open>A step that conserves, with what it books.\<close>

definition conserves :: "batch_lib \<Rightarrow> (direction \<Rightarrow> int64 \<Rightarrow> int) \<Rightarrow> runtimeState \<Rightarrow> runtimeState \<Rightarrow> batch list \<Rightarrow> bool" where
  "conserves lib inflow s s' bs \<longleftrightarrow> state_kept lib s' \<and> newly (rs_db s) (rs_db s') bs \<and>
     (\<forall>x i. int64_ok i \<longrightarrow> held x lib i s + inflow x i = held x lib i s' + batch_share x i bs)"

lemma conserves_trans:
  assumes "conserves lib f s s1 as" and "conserves lib g s1 s2 bs"
  shows "conserves lib (\<lambda>x i. f x i + g x i) s s2 (as @ bs)"
proof -
  have "held x lib i s + (f x i + g x i) = held x lib i s2 + batch_share x i (as @ bs)" if "int64_ok i" for x i
  proof -
    have "held x lib i s + f x i = held x lib i s1 + batch_share x i as"
        "held x lib i s1 + g x i = held x lib i s2 + batch_share x i bs"
      using assms that by (auto simp: conserves_def)
    then show ?thesis by (simp add: batch_share_def)
  qed
  moreover have "newly (rs_db s) (rs_db s2) (as @ bs)"
    using assms newly_trans [of "rs_db s" "rs_db s1" as "rs_db s2" bs] by (simp add: conserves_def)
  ultimately show ?thesis using assms(2) by (simp add: conserves_def)
qed

lemma conserves_idle:
  assumes "state_kept lib s" and "rs_db s' = rs_db s" and "rs_engine s' = rs_engine s" and "rs_dir s' = rs_dir s"
    and "rs_store s' = rs_store s"
  shows "conserves lib (\<lambda>_ _. 0) s s' []"
  using assms by (simp add: conserves_def state_kept_def newly_def held_def batch_share_def)

lemma refresh_conserves:
  assumes "refresh lib ll rf s = Some (s', err, evs)" and "calm lib ll (AuthTick rf) s" and "state_kept lib s" and "lib_ok lib"
  shows "conserves lib (\<lambda>_ _. 0) s s' []"
proof -
  obtain res ws where L: "LoadSnapshot (ll_md5 ll) (ll_marshal ll) (ll_sha256 ll) (rf_load rf) (rs_db s)
      (c_NodeID (rs_cfg s)) = (res, ws)" by fastforce
  let ?s = "s\<lparr>rs_lastAuth := rf_now rf\<rparr>"
  consider "s' = s" | "s' = ?s" | snap evs' where "res = Inr snap" "reload lib (rf_reload rf) snap ?s = Some (s', err, evs')"
    using assms(1) L by (auto simp: refresh_def Let_def split: sum.splits if_splits option.splits)
  then show ?thesis
  proof cases
    case (3 snap evs')
    have k: "state_kept lib ?s" using assms(3) by (simp add: state_kept_def)
    have c: "CanApply snap (rs_engine ?s)" "list_all (\<lambda>u. int64_ok (u_ID u)) (s_Users snap)"
        "fresh_batch lib (rl_persist (rf_reload rf)) (rs_store ?s) (rs_db ?s) (rs_dir ?s)"
      using assms(2) L 3(1) by simp_all
    from hot_update_conserves [OF 3(2) c(1) k assms(4) c(3) c(2)] show ?thesis
      by (simp add: conserves_def newly_def batch_share_def) (simp add: held_def)
  qed (use assms(3) conserves_idle in auto)
qed

lemma step_conserves:
  assumes "run_step lib ll c s = Some (s', err)" and "calm lib ll c s" and "state_kept lib s" and "lib_ok lib"
  shows "\<exists>bs. conserves lib (\<lambda>x i. counted x i c s) s s' bs"
proof (cases c)
  case (CtxDone e)
  with assms(1,3) conserves_idle [of lib s s'] show ?thesis by auto
next
  case (ReportTick rv)
  with assms(1) obtain evs where R: "report lib rv s = Some (s', err, evs)" by auto
  have "fresh_batch lib (rv_persist rv) (rs_store s) (rs_db s) (rs_dir s)" using ReportTick assms(2) by simp
  from report_conserves [OF R assms(3,4) this] obtain bs :: "(int \<times> batch) list" where
    "state_kept lib s'" "newly (rs_db s) (rs_db s') (map snd bs)"
    "\<forall>x i. int64_ok i \<longrightarrow> held x lib i s = held x lib i s' + batch_share x i (map snd bs)" by blast
  with ReportTick show ?thesis by (intro exI [of _ "map snd bs"]) (simp add: conserves_def)
next
  case (AuthTick rf)
  with assms(1) obtain evs where "refresh lib ll rf s = Some (s', err, evs)" by auto
  with refresh_conserves assms(2-4) AuthTick have "conserves lib (\<lambda>_ _. 0) s s' []" by blast
  with AuthTick show ?thesis by auto
next
  case (Elsewhere m p r)
  with assms(1) have s': "s' = elsewhere m p r s" by simp
  have rec: "is_recorded p = is_recorded (rs_db s)" using assms(2) Elsewhere by (intro ext) (simp add: is_recorded_def)
  have "engine_kept (rs_engine s')"
    using assms(2,3) Elsewhere by (simp add: s' elsewhere_def state_kept_def engine_kept_def drainable_def)
  then have "conserves lib (\<lambda>x i. counted x i c s) s s' []"
    using assms(3) Elsewhere
    by (simp add: conserves_def s' elsewhere_def state_kept_def newly_def rec held_def outstanding_def batch_share_def counter_def)
  then show ?thesis ..
qed

lemma run_conserves:
  assumes "run_loop lib ll cs s = Running s' \<or> run_loop lib ll cs s = Stopped s' e" and "calm_run lib ll cs s"
    and "state_kept lib s" and "lib_ok lib"
  shows "\<exists>bs. conserves lib (\<lambda>x i. counted_run x i lib ll cs s) s s' bs"
  using assms(1-3)
proof (induction cs arbitrary: s)
  case Nil
  with conserves_idle [of lib s s'] show ?case by auto
next
  case (Cons c cs)
  obtain s1 err where S: "run_step lib ll c s = Some (s1, err)" using Cons.prems(1) by (auto split: option.splits)
  obtain as where as: "conserves lib (\<lambda>x i. counted x i c s) s s1 as"
    using step_conserves [OF S _ Cons.prems(3) assms(4)] Cons.prems(2) by auto
  show ?case
  proof (cases err)
    case (Some x)
    with S Cons.prems(1) have "s' = s1" by auto
    with as S Some show ?thesis by auto
  next
    case None
    have "state_kept lib s1" using as by (simp add: conserves_def)
    with Cons.IH [of s1] Cons.prems(1,2) S None obtain bs where
      bs: "conserves lib (\<lambda>x i. counted_run x i lib ll cs s1) s1 s' bs" by auto
    from conserves_trans [OF as bs] show ?thesis by (auto simp: S None)
  qed
qed

subsection \<open>Samples\<close>

text \<open>A panel without users, and a host on which everything succeeds.\<close>

definition quiet_panel :: panel where
  "quiet_panel = sample_tables\<lparr>p_user := fmempty\<rparr>"

definition sample_ll :: load_lib where
  "sample_ll = \<lparr>ll_md5 = (\<lambda>_. replicate 16 0), ll_marshal = (\<lambda>_. Some []), ll_sha256 = (\<lambda>_. [1])\<rparr>"

definition sample_host :: host where
  "sample_host = \<lparr>ho_lstat = (\<lambda>_. Some \<lparr>fi_symlink = False, fi_regular = True, fi_perm = 0x180, fi_uid = None\<rparr>),
     ho_readFile = (\<lambda>_. Some sample_key), ho_euid = 0, ho_certs = (\<lambda>_. True), ho_register = Registered, ho_dsn = True,
     ho_ping = True\<rparr>"

definition sample_booting :: booting where
  "sample_booting = \<lparr>bt_lock = \<lparr>lk_path = PathMissing, lk_mkdir = True, lk_chmod = True, lk_open = True\<rparr>,
     bt_reading = all_reads, bt_mkdir = True, bt_chmod = True, bt_started = 0, bt_lastAuth = 0,
     bt_replay = sample_replaying, bt_load = sample_load, bt_start = sample_start\<rparr>"

definition sample_world :: "bool \<Rightarrow> world" where
  "sample_world b = \<lparr>w_locked = b, w_disk = None, w_panel = quiet_panel\<rparr>"

lemma quiet_load:
  "\<exists>snap ws. LoadSnapshot (ll_md5 sample_ll) (ll_marshal sample_ll) (ll_sha256 sample_ll) sample_load quiet_panel 7
     = (Inr snap, ws) \<and> s_Users snap = [] \<and> n_RealityPublicKey (s_Node snap) = sample_key"
proof -
  obtain n where n: "select_node sample_tables 7 = Some n" "validateNode n = None" using sample_node_valid by blast
  have q: "select_node quiet_panel 7 = Some n" using n(1) by (simp add: quiet_panel_def select_node_def)
  have "n_RealityPublicKey n = sample_key"
    using n(1) by (auto simp: select_node_def sample_tables_def sample_panel_def sample_reality_def sample_key_def
        sample_ss_node_def split: if_splits)
  moreover have "select_users quiet_panel n 5 = []"
    by (simp add: select_users_def quiet_panel_def sorted_list_of_fset.rep_eq)
  ultimately show ?thesis
    using n(2) q by (simp add: LoadSnapshot_def sample_load_def sample_ll_def Finalize_def Let_def)
qed

lemma sample_listen: "BuildConfig (se_x25519 sample_start) snap (c_Listen sample_config) sample_key \<noteq> Inl e"
  if "n_RealityPublicKey (s_Node snap) = sample_key"
proof -
  have "SplitHostPort (c_Listen sample_config) = Some (''::'', ''443'')" by code_simp
  moreover have "parse_int64 ''443'' = Some 443" by (simp add: eval_text)
  ultimately show ?thesis using that by (simp add: BuildConfig_def sample_key_ok)
qed

lemma sample_boot_store: "outbox_kept line_lib (boot_store sample_config) (disk_dir (sample_world b))"
proof -
  have "path_join (c_StateDir sample_config) ''outbox'' = ''/var/lib/v/outbox''" by code_simp
  then have "clean_abs (path_join (c_StateDir sample_config) ''outbox'')"
    unfolding clean_abs_def by (intro exI [of _ "[''var'', ''lib'', ''v'', ''outbox'']"]) (simp add: plain_name_def)
  then show ?thesis
    by (simp add: outbox_kept_def boot_store_def disk_dir_def sample_world_def names_ok_def ids_unique_def)
qed

lemma sample_bootstrap: "\<exists>s w'. bootstrap line_lib sample_ll sample_host sample_booting sample_config (sample_world False) = (Inr s, w')"
proof -
  have key: "trim_space sample_key = sample_key" by code_simp
  have sec: "open_secrets sample_host sample_ll sample_config = Inr sample_key"
    by (simp add: open_secrets_def ReadSecret_def sample_host_def key Database.Open_def configureTLS_def)
       (simp add: sample_config_def sample_database_def sample_key_def)
  obtain snap ws where L: "LoadSnapshot (ll_md5 sample_ll) (ll_marshal sample_ll) (ll_sha256 sample_ll) sample_load quiet_panel 7
     = (Inr snap, ws)" "s_Users snap = []" "n_RealityPublicKey (s_Node snap) = sample_key" using quiet_load by blast
  obtain en where St: "Start sample_start snap sample_config sample_key False = (Inr en, True)"
    using sample_listen [OF L(3)] L(2)
    by (cases "BuildConfig (se_x25519 sample_start) snap (c_Listen sample_config) sample_key")
       (auto simp: Start_def Let_def, simp add: sample_start_def inboundUserManager_def)
  have b: "bt_lock sample_booting = \<lparr>lk_path = PathMissing, lk_mkdir = True, lk_chmod = True, lk_open = True\<rparr>"
      "bt_reading sample_booting = all_reads" "bt_mkdir sample_booting" "bt_chmod sample_booting"
      "rp_reading (bt_replay sample_booting) = all_reads" "bt_load sample_booting = sample_load"
      "bt_start sample_booting = sample_start" "ho_ping sample_host" "c_NodeID sample_config = 7"
    by (simp_all add: sample_booting_def sample_host_def sample_config_def sample_replaying_def)
  show ?thesis
    by (simp add: bootstrap_def lockStateDir_def sample_world_def sec boot_components_def Outbox.Open_def Let_def
        replay_def b L(1) St)
qed

subsection \<open>Properties\<close>

text \<open>C15: The service starts only when it owns the state directory and has booked its old traffic. Any
  outcome of \<^verbatim>\<open>bootstrap\<close> moves batches from the outbox to the books without loss or repetition. A
  failure leaves the lock as it was; when another process holds it, nothing changes at all. On success
  the lock was free and is held, the outbox is empty, the engine runs without counters and serves
  exactly the snapshot that the tables gave after the replay.\<close>

theorem bootstrap_sound:
  assumes "bootstrap lib ll h bt cfg w = (res, w')" and "outbox_kept lib (boot_store cfg) (disk_dir w)"
  shows "world_moves lib (boot_store cfg) w w' \<and>
    (case res of Inl e \<Rightarrow> w_locked w' = w_locked w
     | Inr s \<Rightarrow> \<not> w_locked w \<and> w_locked w' \<and> serves ll (bt_load bt) cfg w' s) \<and>
    (w_locked w \<longrightarrow> isl res \<and> w' = w)"
  using assms by (rule bootstrap_result)

theorem bootstrap_sound_witness:
  "\<exists>s w'. bootstrap line_lib sample_ll sample_host sample_booting sample_config (sample_world False) = (Inr s, w') \<and>
     w_locked w' \<and> serves sample_ll sample_load sample_config w' s"
proof -
  obtain s w' where B: "bootstrap line_lib sample_ll sample_host sample_booting sample_config (sample_world False) = (Inr s, w')"
    using sample_bootstrap by blast
  from bootstrap_sound [OF B sample_boot_store] B show ?thesis by (auto simp: sample_booting_def)
qed

text \<open>C1: A run of the service conserves traffic. For any sequence of reports, authorization refreshes and
  counted traffic, in any order and with any faults, as long as no refresh restarts the engine (every
  loaded snapshot has the data plane of the running one), new batches get new ids, other clients leave
  the table of batches alone and the counters stay within 64 bits: for every user and direction, what
  was held at the start and what was counted during the run is what is held at the end and what the
  batches hold that were booked meanwhile, each of them once.\<close>

theorem service_conserves_traffic:
  assumes "run_loop lib ll cs s = Running s' \<or> run_loop lib ll cs s = Stopped s' e" and "calm_run lib ll cs s"
    and "state_kept lib s" and "lib_ok lib"
  shows "\<exists>bs. state_kept lib s' \<and> distinct (map b_ID bs) \<and>
    (\<forall>b \<in> set bs. \<not> is_recorded (rs_db s) (b_ID b) \<and> is_recorded (rs_db s') (b_ID b)) \<and>
    (\<forall>x i. int64_ok i \<longrightarrow> held x lib i s + counted_run x i lib ll cs s = held x lib i s' + batch_share x i bs)"
  using run_conserves [OF assms] by (auto simp: conserves_def newly_def)

theorem service_conserves_traffic_witness:
  "\<exists>m s' bs. (run_loop line_lib sample_ll [Elsewhere m sample_panel (en_sessions sample_engine), ReportTick sample_reporting]
       sample_state = Running s' \<or>
     (\<exists>e. run_loop line_lib sample_ll [Elsewhere m sample_panel (en_sessions sample_engine), ReportTick sample_reporting]
       sample_state = Stopped s' e)) \<and>
     held Up line_lib 5 s' + batch_share Up 5 bs = 8"
proof -
  define m where "m = fmupd (counter_name 7 5 ''uplink'') (8 :: int) fmempty"
  let ?cs = "[Elsewhere m sample_panel (en_sessions sample_engine), ReportTick sample_reporting]"
  let ?s1 = "elsewhere m sample_panel (en_sessions sample_engine) sample_state"
  have ps: "ps_rnd (rv_persist sample_reporting) = Some (replicate 16 1)"
    by (simp add: sample_reporting_def sample_persisting_def)
  obtain s' err evs where R: "report line_lib sample_reporting ?s1 = Some (s', err, evs)"
    using report_total [OF ps, of line_lib ?s1] by fastforce
  obtain e where run: "run_loop line_lib sample_ll ?cs sample_state = Running s' \<or>
      run_loop line_lib sample_ll ?cs sample_state = Stopped s' e"
    by (cases err) (auto simp: R)
  have "counts_ok m" by (auto simp: counts_ok_def m_def MaxInt64_def split: if_splits)
  moreover have "fresh_batch line_lib (rv_persist sample_reporting) (rs_store ?s1) (rs_db ?s1) (rs_dir ?s1)"
    using sample_fresh by (simp add: elsewhere_def sample_state_def sample_reporting_def)
  ultimately have c: "calm_run line_lib sample_ll ?cs sample_state"
    by (simp add: R split: option.split) (simp add: sample_state_def)
  have n: "n_ID (s_Node (en_snapshot sample_engine)) = 7" by (simp add: sample_engine_def sample_snapshot_def sample_node_def)
  have cnt: "counted_run Up 5 line_lib sample_ll ?cs sample_state = 5"
  proof -
    have "counter Up 5 sample_engine = 3"
      by (simp add: counter_def n) (simp add: sample_engine_def fmget0_def)
    moreover have "counter Up 5 (sample_engine\<lparr>en_stats := m\<rparr>) = 8" by (simp add: counter_def n m_def fmget0_def)
    moreover have "rs_engine sample_state = sample_engine" by (simp add: sample_state_def)
    ultimately show ?thesis by (simp add: R split: option.split)
  qed
  obtain bs where "\<forall>x i. int64_ok i \<longrightarrow>
      held x line_lib i sample_state + counted_run x i line_lib sample_ll ?cs sample_state = held x line_lib i s' + batch_share x i bs"
    using service_conserves_traffic [OF run c sample_state_kept line_lib_ok] by blast
  moreover have "int64_ok 5" by (simp add: int64_defs)
  ultimately have "held Up line_lib 5 sample_state + counted_run Up 5 line_lib sample_ll ?cs sample_state
      = held Up line_lib 5 s' + batch_share Up 5 bs" by blast
  then have "held Up line_lib 5 s' + batch_share Up 5 bs = 8" unfolding sample_held cnt by simp
  with run show ?thesis by blast
qed

end
