(* ===== verification/Contract.thy ===== *)
theory Contract
  imports Operation
begin

text \<open>
  The contract of the accounting, as an abstract machine, and the refinement: whatever the service
  does, from its start to its return, with restarts of the engine and faults at every call, it only
  stores new batches and books open ones.
\<close>

subsection \<open>The abstract machine\<close>

text \<open>
  A settlement is the multiset of open batches with the set of the ids that are booked. A new batch
  is valid, of this node, and has a new id; an open batch is booked once and is open no more.
\<close>

type_synonym settlement = "batch multiset \<times> string set"

definition proper :: "batch_lib \<Rightarrow> store \<Rightarrow> batch \<Rightarrow> bool" where
  "proper lib st b \<longleftrightarrow> validate lib True b = None \<and> b_NodeID b = st_nodeID st"

inductive settle :: "batch_lib \<Rightarrow> store \<Rightarrow> settlement \<Rightarrow> settlement \<Rightarrow> bool" for lib st where
  store_batch: "proper lib st b \<Longrightarrow> b_ID b \<notin> R \<Longrightarrow> b_ID b \<notin> b_ID ` set_mset M \<Longrightarrow> settle lib st (M, R) (add_mset b M, R)"
| book_batch: "b_ID b \<notin> R \<Longrightarrow> settle lib st (add_mset b M, R) (M, insert (b_ID b) R)"

inductive_cases settleE: "settle lib st S S'"

lemma settle_keeps:
  assumes "(settle lib st)\<^sup>*\<^sup>* S S'"
  shows "snd S \<subseteq> snd S' \<and> (\<forall>b. b \<in># fst S \<longrightarrow> b \<in># fst S' \<or> b_ID b \<in> snd S')"
  using assms
proof (induction rule: rtranclp_induct)
  case (step S1 S2)
  from step.hyps(2) have "snd S1 \<subseteq> snd S2 \<and> (\<forall>b. b \<in># fst S1 \<longrightarrow> b \<in># fst S2 \<or> b_ID b \<in> snd S2)"
    by (elim settleE) auto
  with step.IH show ?case by blast
qed simp

text \<open>No open batch is booked, and no two open batches share an id.\<close>

definition tidy :: "settlement \<Rightarrow> bool" where
  "tidy S \<longleftrightarrow> (\<forall>i. count (image_mset b_ID (fst S)) i + (if i \<in> snd S then 1 else 0) \<le> 1)"

lemma settle_tidy:
  assumes "settle lib st S S'" and "tidy S"
  shows "tidy S'"
  using assms(1)
proof cases
  case (store_batch b R M)
  have "count (image_mset b_ID M) (b_ID b) = 0" using store_batch(5) by (simp add: count_eq_zero_iff)
  moreover have "count (image_mset b_ID M) i + (if i \<in> R then 1 else 0) \<le> 1" for i
    using assms(2) store_batch(1) unfolding tidy_def by (metis fst_conv snd_conv)
  ultimately have "count (image_mset b_ID (add_mset b M)) i + (if i \<in> R then 1 else 0) \<le> 1" for i
    using store_batch(4) by (cases "i = b_ID b") simp_all
  with store_batch(2) show ?thesis by (simp add: tidy_def)
next
  case (book_batch b R M)
  have "count (image_mset b_ID M) i + (if i \<in> insert (b_ID b) R then 1 else 0) \<le> 1" for i
  proof -
    have "count (image_mset b_ID (add_mset b M)) i + (if i \<in> R then 1 else 0) \<le> 1"
      using assms(2) book_batch(1) unfolding tidy_def by (metis fst_conv snd_conv)
    then show ?thesis using book_batch(3) by (auto split: if_splits)
  qed
  with book_batch(2) show ?thesis by (simp add: tidy_def)
qed

lemma settles_tidy: "(settle lib st)\<^sup>*\<^sup>* S S' \<Longrightarrow> tidy S \<Longrightarrow> tidy S'"
  by (induction rule: rtranclp_induct) (auto dest: settle_tidy)

lemma book_list:
  "distinct (map b_ID bs) \<Longrightarrow> \<forall>b \<in> set bs. b_ID b \<notin> R \<Longrightarrow>
   (settle lib st)\<^sup>*\<^sup>* (M + mset bs, R) (M, R \<union> b_ID ` set bs)"
proof (induction bs arbitrary: R)
  case (Cons b bs)
  have "settle lib st (add_mset b (M + mset bs), R) (M + mset bs, insert (b_ID b) R)"
    using Cons.prems by (intro book_batch) simp
  moreover have "(settle lib st)\<^sup>*\<^sup>* (M + mset bs, insert (b_ID b) R) (M, insert (b_ID b) R \<union> b_ID ` set bs)"
    using Cons.prems by (intro Cons.IH) (auto simp: image_iff)
  ultimately show ?case by (auto intro: converse_rtranclp_into_rtranclp)
qed simp

subsection \<open>Simulation\<close>

text \<open>A step relation whose every step is a sequence of abstract steps.\<close>

locale simulation =
  fixes cstep :: "'s \<Rightarrow> 's \<Rightarrow> bool"
    and astep :: "'a \<Rightarrow> 'a \<Rightarrow> bool"
    and view :: "'s \<Rightarrow> 'a"
    and ok :: "'s \<Rightarrow> bool"
  assumes step_ok: "ok s \<Longrightarrow> cstep s s' \<Longrightarrow> ok s'"
    and step_sim: "ok s \<Longrightarrow> cstep s s' \<Longrightarrow> astep\<^sup>*\<^sup>* (view s) (view s')"
begin

lemma run_sim: "cstep\<^sup>*\<^sup>* s s' \<Longrightarrow> ok s \<Longrightarrow> ok s' \<and> astep\<^sup>*\<^sup>* (view s) (view s')"
proof (induction rule: rtranclp_induct)
  case (step s1 s2)
  with step_ok step_sim show ?case by (meson rtranclp_trans)
qed simp

end

subsection \<open>The operations\<close>

definition journal :: "batch_lib \<Rightarrow> store \<Rightarrow> panel \<Rightarrow> directory \<Rightarrow> settlement" where
  "journal lib st p d = (mset (outstanding lib st p d), {i. is_recorded p i})"

lemma journal_books: "books p = books q \<Longrightarrow> journal lib st p d = journal lib st q d"
  using outstanding_books [of p q lib st d] by (simp add: journal_def books_def is_recorded_def)

lemma stored_proper:
  assumes b: "b \<in> set (stored lib st d)"
  shows "proper lib st b"
proof -
  from b obtain n where "batch_at lib st d n = Some b" by (auto simp: stored_def List.map_filter_def)
  then have "b_NodeID b = st_nodeID st" by (auto simp: batch_at_def split: option.splits if_splits sum.splits)
  with stored_valid [OF b] show ?thesis by (simp add: proper_def)
qed

lemma booked_settles:
  assumes "p' = book_all bs p" and "mset (outstanding lib st p d) = mset (outstanding lib st p' d') + mset (map snd bs)"
    and "outbox_kept lib st d"
  shows "(settle lib st)\<^sup>*\<^sup>* (journal lib st p d) (journal lib st p' d')"
proof -
  have N: "newly p p' (map snd bs)" using booked_newly [OF assms] .
  have R: "{i. is_recorded p' i} = {i. is_recorded p i} \<union> b_ID ` set (map snd bs)"
    by (auto simp: assms(1) book_all_recorded)
  show ?thesis unfolding journal_def assms(2) R using N by (intro book_list) (simp_all add: newly_def)
qed

lemma replay_refines:
  assumes "replay lib rp st p d = (err, p', d')" and "outbox_kept lib st d"
  shows "outbox_kept lib st d' \<and> (settle lib st)\<^sup>*\<^sup>* (journal lib st p d) (journal lib st p' d')"
  using replay_conserves [OF assms] booked_settles assms(2) by blast

lemma persist_refines:
  assumes "persist lib ps st entries snap d = Some (err, d')" and "outbox_kept lib st d" and "lib_ok lib"
    and "fresh_batch lib ps st p d" and "int64_ok (n_ID (s_Node snap))" and "\<forall>e \<in> set entries. int64_ok (e_UserID e)"
  shows "outbox_kept lib st d' \<and> (settle lib st)\<^sup>*\<^sup>* (journal lib st p d) (journal lib st p d')"
proof -
  have O: "clean_abs (st_dir st)" "names_ok d" using assms(2) by (simp_all add: outbox_kept_def)
  have "outbox_kept lib st d'" using persist_share [OF assms] by blast
  moreover from assms(1,3) O assms(4-6) have "(settle lib st)\<^sup>*\<^sup>* (journal lib st p d) (journal lib st p d')"
  proof (cases rule: persist_cases)
    case (lost e)
    then have "journal lib st p d' = journal lib st p d" by (simp add: journal_def outstanding_mset)
    then show ?thesis by simp
  next
    case (published b)
    have new: "\<not> is_recorded p (b_ID b)" "b_ID b \<notin> b_ID ` set (stored lib st d)"
      using assms(4) by (auto simp: published(3) fresh_batch_def)
    have "b \<in># mset (stored lib st d')" by (simp add: published(4))
    then have "proper lib st b" by (intro stored_proper) simp
    with new have "settle lib st (journal lib st p d) (add_mset b (fst (journal lib st p d)), snd (journal lib st p d))"
      unfolding journal_def by (auto simp: outstanding_def intro!: store_batch)
    moreover have "journal lib st p d' = (add_mset b (fst (journal lib st p d)), snd (journal lib st p d))"
      using new(1) by (simp add: journal_def outstanding_mset published(4))
    ultimately show ?thesis by simp
  qed simp
  ultimately show ?thesis ..
qed

subsection \<open>The runtime state\<close>

definition state_journal :: "batch_lib \<Rightarrow> runtimeState \<Rightarrow> settlement" where
  "state_journal lib s = journal lib (rs_store s) (rs_db s) (rs_dir s)"

text \<open>A step on the runtime state that keeps the invariant and only settles.\<close>

definition settles :: "batch_lib \<Rightarrow> runtimeState \<Rightarrow> runtimeState \<Rightarrow> bool" where
  "settles lib s s' \<longleftrightarrow> state_kept lib s' \<and> rs_store s' = rs_store s \<and>
     (settle lib (rs_store s))\<^sup>*\<^sup>* (state_journal lib s) (state_journal lib s')"

lemma settlesI:
  assumes "outbox_kept lib (rs_store s) (rs_dir s')" and "engine_kept (rs_engine s')" and "rs_store s' = rs_store s"
    and "(settle lib (rs_store s))\<^sup>*\<^sup>* (journal lib (rs_store s) (rs_db s) (rs_dir s)) (journal lib (rs_store s) (rs_db s') (rs_dir s'))"
  shows "settles lib s s'"
  using assms by (simp add: settles_def state_kept_def state_journal_def)

lemma settles_idle:
  assumes "state_kept lib s" and "engine_kept (rs_engine s')" and "rs_store s' = rs_store s" and "rs_dir s' = rs_dir s"
    and "p_batches (rs_db s') = p_batches (rs_db s)"
  shows "settles lib s s'"
proof -
  have "journal lib (rs_store s) (rs_db s') (rs_dir s) = journal lib (rs_store s) (rs_db s) (rs_dir s)"
    using assms(5) by (simp add: journal_def outstanding_def is_recorded_def)
  with assms show ?thesis by (intro settlesI) (simp_all add: state_kept_def)
qed

lemma report_refines:
  assumes "report lib rv s = Some (s', err, evs)" and "state_kept lib s" and "lib_ok lib"
    and "fresh_batch lib (rv_persist rv) (rs_store s) (rs_db s) (rs_dir s)"
  shows "settles lib s s'"
proof -
  have E: "engine_kept (rs_engine s)" and O: "outbox_kept lib (rs_store s) (rs_dir s)"
    using assms(2) by (auto simp: state_kept_def)
  obtain entries en where D: "Drain (rs_engine s) = (Inr entries, en)" using Drain_ok [OF E] by blast
  note K = Drain_kept [OF D E]
  obtain perr d where P: "persist lib (rv_persist rv) (rs_store s) entries (en_snapshot en) (rs_dir s) = Some (perr, d)"
    using assms(1) D by (cases "persist lib (rv_persist rv) (rs_store s) entries (en_snapshot en) (rs_dir s)")
      (auto simp: report_def)
  have "int64_ok (n_ID (s_Node (en_snapshot en)))" using K(1) by (simp add: engine_kept_def)
  note C = persist_refines [OF P O assms(3,4) this K(3)]
  show ?thesis
  proof (cases perr)
    case (Some e)
    with assms(1) D P have "s' = s\<lparr>rs_engine := drained en entries perr, rs_dir := d\<rparr>"
      by (auto simp: report_def drained_def Let_def)
    with C K(1,7) show ?thesis by (intro settlesI) (simp_all add: drained_def)
  next
    case None
    obtain rerr p d' where R: "replay lib (rv_replay rv) (rs_store s) (rs_db s) d = (rerr, p, d')"
      using prod_cases3 by blast
    obtain err' evs' where T: "report_rest rv (s\<lparr>rs_engine := en, rs_db := p, rs_dir := d'\<rparr>) = (s', err', evs')"
      using assms(1) D P None R by (auto simp: report_def Let_def split: prod.splits)
    note Q = report_rest_keeps [OF T, simplified] and B = replay_refines [OF R conjunct1 [OF C]]
    have "journal lib (rs_store s) (rs_db s') d' = journal lib (rs_store s) p d'"
      using Q by (intro journal_books) simp
    with Q B C K(1) show ?thesis by (intro settlesI) (auto intro: rtranclp_trans)
  qed
qed

text \<open>The parts of a snapshot that have a fixed width.\<close>

definition typed_snapshot :: "snapshot \<Rightarrow> bool" where
  "typed_snapshot snap \<longleftrightarrow> int64_ok (n_ID (s_Node snap)) \<and> list_all (\<lambda>u. int64_ok (u_ID u)) (s_Users snap)"

lemma fresh_engine_kept:
  assumes "en_stats e = fmempty" and "en_retired e = {||}" and "typed_snapshot (en_snapshot e)"
  shows "engine_kept e"
  using assms by (auto simp: engine_kept_def counts_ok_def drainable_def typed_snapshot_def list_all_iff fset_of_list_elem)

lemma start_engine_kept:
  assumes "start_engine env snap s = (Inr e, r)" and "typed_snapshot snap"
  shows "engine_kept e"
  using Start_Inr [OF assms(1) [unfolded start_engine_def]] assms(2) by (intro fresh_engine_kept) simp_all

lemma start_engine_restored:
  assumes "start_engine env snap s = (Inr e, r)" and "typed_snapshot snap"
  shows "engine_kept (Restore entries e)"
  using start_engine_kept [OF assms] start_engine_counter(2) [OF assms(1)] by simp

lemma kept_snapshot_typed: "engine_kept e \<Longrightarrow> typed_snapshot (en_snapshot e)"
  by (auto simp: engine_kept_def typed_snapshot_def drainable_def list_all_iff fset_of_list_elem)

lemma CloseAndDrain_typed:
  assumes "CloseAndDrain ok e = (entries, err, en, cb)" and "engine_kept e"
  shows "engine_kept en \<and> en_snapshot en = en_snapshot e \<and> (\<forall>y \<in> set entries. int64_ok (e_UserID y))"
proof (cases "en_instance e")
  case True
  from CloseAndDrain_kept(1) [OF assms True] show ?thesis .
next
  case False
  with assms show ?thesis by (simp add: CloseAndDrain_def)
qed

lemma restart_refines:
  assumes "reload_restart lib rl next_s s = Some (s', err, evs)" and "state_kept lib s" and "lib_ok lib"
    and "fresh_batch lib (rl_persist rl) (rs_store s) (rs_db s) (rs_dir s)" and "typed_snapshot next_s"
  shows "settles lib s s'"
proof -
  obtain entries closeErr en cb where C: "CloseAndDrain (rl_close rl) (rs_engine s) = (entries, closeErr, en, cb)"
    using prod_cases4 by blast
  have E: "engine_kept (rs_engine s)" and O: "outbox_kept lib (rs_store s) (rs_dir s)"
    using assms(2) by (auto simp: state_kept_def)
  let ?prev = "en_snapshot (rs_engine s)"
  have T: "typed_snapshot ?prev" using kept_snapshot_typed [OF E] .
  note K = CloseAndDrain_typed [OF C E]
  show ?thesis
  proof (cases closeErr)
    case (Some e)
    with assms(1) C have "s' = s\<lparr>rs_engine := en, rs_registered := en_registered en\<rparr>"
      by (auto simp: reload_restart_def Let_def)
    with assms(2) K show ?thesis by (intro settles_idle) simp_all
  next
    case None
    obtain perr d where P: "persist lib (rl_persist rl) (rs_store s) entries ?prev (rs_dir s) = Some (perr, d)"
      using assms(1) C None by (cases "persist lib (rl_persist rl) (rs_store s) entries ?prev (rs_dir s)")
        (auto simp: reload_restart_def Let_def)
    have "int64_ok (n_ID (s_Node ?prev))" using T by (simp add: typed_snapshot_def)
    note Q = persist_refines [OF P O assms(3,4) this] K
    have "rs_dir s' = d \<and> rs_db s' = rs_db s \<and> rs_store s' = rs_store s \<and> engine_kept (rs_engine s')"
      using assms(1,5) C None P T K start_engine_kept start_engine_restored
      by (auto simp: reload_restart_def Let_def split: option.splits sum.splits prod.splits)
    with Q show ?thesis by (intro settlesI) auto
  qed
qed

lemma reload_refines:
  assumes "reload lib rl next_s s = Some (s', err, evs)" and "state_kept lib s" and "lib_ok lib"
    and "fresh_batch lib (rl_persist rl) (rs_store s) (rs_db s) (rs_dir s)" and "typed_snapshot next_s"
  shows "settles lib s s'"
proof (cases "CanApply next_s (rs_engine s)")
  case False
  with assms(1) restart_refines [OF _ assms(2-5)] show ?thesis by (simp add: reload_def)
next
  case True
  have E: "engine_kept (rs_engine s)" and O: "outbox_kept lib (rs_store s) (rs_dir s)"
    using assms(2) by (auto simp: state_kept_def)
  obtain entries en where D: "Drain (rs_engine s) = (Inr entries, en)" using Drain_ok [OF E] by blast
  note K = Drain_kept [OF D E]
  have U: "reload_users lib rl next_s s = Some (s', err, evs)" using assms(1) True by (simp add: reload_def)
  obtain perr d where P: "persist lib (rl_persist rl) (rs_store s) entries (en_snapshot en) (rs_dir s) = Some (perr, d)"
    using U D by (cases "persist lib (rl_persist rl) (rs_store s) entries (en_snapshot en) (rs_dir s)")
      (auto simp: reload_users_def Let_def K(2))
  have "rs_dir s' = d \<and> rs_db s' = rs_db s \<and> rs_store s' = rs_store s"
    using U D P by (auto simp: reload_users_def Let_def K(2) split: option.splits sum.splits)
  moreover have "int64_ok (n_ID (s_Node (en_snapshot en)))" using K(1) by (simp add: engine_kept_def)
  note persist_refines [OF P O assms(3,4) this K(3)]
  moreover have "state_kept lib s'"
    using hot_update_conserves [OF assms(1) True assms(2-4)] assms(5) by (simp add: typed_snapshot_def)
  ultimately show ?thesis by (intro settlesI) (simp_all add: state_kept_def)
qed

subsection \<open>Runs\<close>

text \<open>
  The assumptions on a step, with restarts of the engine allowed: new batches have new ids, loaded
  ids have their width, other clients leave the table of batches alone and counters do not overflow.
\<close>

fun admissible :: "batch_lib \<Rightarrow> load_lib \<Rightarrow> select_case \<Rightarrow> runtimeState \<Rightarrow> bool" where
  "admissible lib ll (CtxDone e) s = True"
| "admissible lib ll (ReportTick rv) s = fresh_batch lib (rv_persist rv) (rs_store s) (rs_db s) (rs_dir s)"
| "admissible lib ll (AuthTick rf) s =
     (fresh_batch lib (rl_persist (rf_reload rf)) (rs_store s) (rs_db s) (rs_dir s) \<and>
      (case LoadSnapshot (ll_md5 ll) (ll_marshal ll) (ll_sha256 ll) (rf_load rf) (rs_db s) (c_NodeID (rs_cfg s)) of
         (Inl _, _) \<Rightarrow> True
       | (Inr snap, _) \<Rightarrow> typed_snapshot snap))"
| "admissible lib ll (Elsewhere m p r) s = (p_batches p = p_batches (rs_db s) \<and> counts_ok m)"

inductive service_step :: "batch_lib \<Rightarrow> load_lib \<Rightarrow> runtimeState \<Rightarrow> runtimeState \<Rightarrow> bool" for lib ll where
  select: "run_step lib ll c s = Some (s', err) \<Longrightarrow> admissible lib ll c s \<Longrightarrow> service_step lib ll s s'"

lemma refresh_refines:
  assumes "refresh lib ll rf s = Some (s', err, evs)" and "admissible lib ll (AuthTick rf) s" and "state_kept lib s"
    and "lib_ok lib"
  shows "settles lib s s'"
proof -
  obtain res ws where L: "LoadSnapshot (ll_md5 ll) (ll_marshal ll) (ll_sha256 ll) (rf_load rf) (rs_db s)
      (c_NodeID (rs_cfg s)) = (res, ws)" by fastforce
  let ?s = "s\<lparr>rs_lastAuth := rf_now rf\<rparr>"
  have k: "state_kept lib ?s" using assms(3) by (simp add: state_kept_def)
  have e: "engine_kept (rs_engine s)" using assms(3) by (simp add: state_kept_def)
  consider "s' = s" | "s' = ?s" | snap evs' where "res = Inr snap" "reload lib (rf_reload rf) snap ?s = Some (s', err, evs')"
    using assms(1) L by (auto simp: refresh_def Let_def split: sum.splits if_splits option.splits)
  then show ?thesis
  proof cases
    case (3 snap evs')
    have c: "typed_snapshot snap" "fresh_batch lib (rl_persist (rf_reload rf)) (rs_store ?s) (rs_db ?s) (rs_dir ?s)"
      using assms(2) L 3(1) by simp_all
    have "settles lib ?s s'" using reload_refines [OF 3(2) k assms(4) c(2,1)] .
    then show ?thesis by (auto simp: settles_def state_journal_def)
  qed (use assms(3) e settles_idle in auto)
qed

lemma step_settles:
  assumes "service_step lib ll s s'" and "state_kept lib s" and "lib_ok lib"
  shows "settles lib s s'"
  using assms(1)
proof (cases rule: service_step.cases)
  case (select c err)
  show ?thesis
  proof (cases c)
    case (CtxDone e)
    with select assms(2) show ?thesis by (intro settles_idle) (auto simp: state_kept_def)
  next
    case (ReportTick rv)
    with select assms(2,3) report_refines show ?thesis by auto
  next
    case (AuthTick rf)
    with select assms(2,3) refresh_refines show ?thesis by auto
  next
    case (Elsewhere m p r)
    with select assms(2) show ?thesis
      by (intro settles_idle) (auto simp: elsewhere_def state_kept_def engine_kept_def drainable_def)
  qed
qed

text \<open>The service simulates the contract.\<close>

definition good_state :: "batch_lib \<Rightarrow> store \<Rightarrow> runtimeState \<Rightarrow> bool" where
  "good_state lib st s \<longleftrightarrow> state_kept lib s \<and> rs_store s = st \<and> lib_ok lib"

interpretation svc: simulation "service_step lib ll" "settle lib st" "state_journal lib" "good_state lib st"
  for lib ll st
  by unfold_locales (auto simp: good_state_def settles_def dest: step_settles)

text \<open>A run of the main loop and the shutdown after it, under these assumptions.\<close>

fun admissible_run :: "batch_lib \<Rightarrow> load_lib \<Rightarrow> stopping \<Rightarrow> select_case list \<Rightarrow> runtimeState \<Rightarrow> bool" where
  "admissible_run lib ll sp [] s = True"
| "admissible_run lib ll sp (c # cs) s = (admissible lib ll c s \<and> (case run_step lib ll c s of
     None \<Rightarrow> True
   | Some (s', None) \<Rightarrow> admissible_run lib ll sp cs s'
   | Some (s', Some e) \<Rightarrow> fresh_batch lib (sp_persist sp) (rs_store s') (rs_db s') (rs_dir s')))"

lemma run_steps:
  assumes "admissible_run lib ll sp cs s"
  shows "run_loop lib ll cs s = Running s' \<Longrightarrow> (service_step lib ll)\<^sup>*\<^sup>* s s'"
    and "run_loop lib ll cs s = Stopped s' e \<Longrightarrow> (service_step lib ll)\<^sup>*\<^sup>* s s' \<and>
      fresh_batch lib (sp_persist sp) (rs_store s') (rs_db s') (rs_dir s')"
  using assms
proof (induction cs arbitrary: s)
  case (Cons c cs)
  {
    case 1
    then obtain s1 where S: "run_step lib ll c s = Some (s1, None)" "run_loop lib ll cs s1 = Running s'"
      by (auto split: option.splits)
    with 1 Cons.IH(1) [of s1] have "service_step lib ll s s1" "(service_step lib ll)\<^sup>*\<^sup>* s1 s'" by (auto intro: select)
    then show ?case by (rule converse_rtranclp_into_rtranclp)
  next
    case 2
    then obtain s1 err where S: "run_step lib ll c s = Some (s1, err)" by (auto split: option.splits)
    then have st: "service_step lib ll s s1" using 2 by (auto intro: select)
    with S 2 Cons.IH(2) [of s1] show ?case by (cases err) (auto intro: converse_rtranclp_into_rtranclp)
  }
qed simp_all

lemma shutdown_refines:
  assumes "shutdown lib sp s = Some (s', err, evs)" and "state_kept lib s" and "lib_ok lib"
    and "fresh_batch lib (sp_persist sp) (rs_store s) (rs_db s) (rs_dir s)"
  shows "settles lib s s'"
proof -
  obtain entries closeErr en cb where C: "CloseAndDrain (sp_close sp) (rs_engine s) = (entries, closeErr, en, cb)"
    using prod_cases4 by blast
  have E: "engine_kept (rs_engine s)" and O: "outbox_kept lib (rs_store s) (rs_dir s)"
    using assms(2) by (auto simp: state_kept_def)
  note K = CloseAndDrain_typed [OF C E]
  obtain perr d where P: "persist lib (sp_persist sp) (rs_store s) entries (en_snapshot en) (rs_dir s) = Some (perr, d)"
    using assms(1) C by (cases "persist lib (sp_persist sp) (rs_store s) entries (en_snapshot en) (rs_dir s)")
      (auto simp: shutdown_def)
  obtain rerr p d' where R: "replay lib (sp_replay sp) (rs_store s) (rs_db s) d = (rerr, p, d')"
    using prod_cases3 by blast
  from assms(1) C P R have "rs_db s' = p" "rs_dir s' = d'" "rs_engine s' = en" "rs_store s' = rs_store s"
    by (auto simp: shutdown_def)
  moreover have "int64_ok (n_ID (s_Node (en_snapshot en)))" using conjunct1 [OF K] by (simp add: engine_kept_def)
  with K have Q: "outbox_kept lib (rs_store s) d"
      "(settle lib (rs_store s))\<^sup>*\<^sup>* (journal lib (rs_store s) (rs_db s) (rs_dir s)) (journal lib (rs_store s) (rs_db s) d)"
    using persist_refines [OF P O assms(3,4)] by blast+
  ultimately show ?thesis using K replay_refines [OF R Q(1)] Q(2)
    by (intro settlesI) (auto intro: rtranclp_trans)
qed

subsection \<open>The process\<close>

definition world_journal :: "batch_lib \<Rightarrow> store \<Rightarrow> world \<Rightarrow> settlement" where
  "world_journal lib st w = journal lib st (w_panel w) (disk_dir w)"

text \<open>The settlement that a process leaves, unless it panicked.\<close>

fun run_journal :: "batch_lib \<Rightarrow> store \<Rightarrow> run_result \<Rightarrow> settlement option" where
  "run_journal lib st (Serving s w) = Some (journal lib st (rs_db s) (rs_dir s))"
| "run_journal lib st (Returned err s w) = Some (world_journal lib st w)"
| "run_journal lib st Aborted = None"

definition admissible_service :: "batch_lib \<Rightarrow> load_lib \<Rightarrow> host \<Rightarrow> booting \<Rightarrow> stopping \<Rightarrow> config \<Rightarrow> select_case list \<Rightarrow>
    world \<Rightarrow> bool" where
  "admissible_service lib ll h bt sp cfg cs w \<longleftrightarrow>
     (case bootstrap lib ll h bt cfg w of
        (Inl e, w') \<Rightarrow> True
      | (Inr s, w') \<Rightarrow> typed_snapshot (en_snapshot (rs_engine s)) \<and> admissible_run lib ll sp cs s)"

lemma journal_tidy:
  assumes "outbox_kept lib st d"
  shows "tidy (journal lib st p d)"
proof -
  have "distinct (map b_ID (outstanding lib st p d))"
    using assms by (simp add: outbox_kept_def ids_unique_def outstanding_def distinct_map_filter)
  then have "count (image_mset b_ID (mset (outstanding lib st p d))) i \<le> 1" for i
    by (simp add: distinct_count_le)
  moreover have "count (image_mset b_ID (mset (outstanding lib st p d))) i = 0" if "is_recorded p i" for i
    using that by (auto simp: count_eq_zero_iff outstanding_def)
  ultimately show ?thesis by (simp add: tidy_def journal_def)
qed

lemma served_good:
  assumes "serves ll le cfg w s" and "outbox_kept lib (boot_store cfg) d" and "typed_snapshot (en_snapshot (rs_engine s))"
    and "lib_ok lib"
  shows "good_state lib (boot_store cfg) s"
proof -
  have "outbox_kept lib (boot_store cfg) fmempty"
    using assms(2) by (simp add: outbox_kept_def names_ok_def ids_unique_def)
  moreover have "engine_kept (rs_engine s)" using assms(1,3) by (intro fresh_engine_kept) (simp_all add: serves_def)
  ultimately show ?thesis using assms(1,4) by (simp add: good_state_def state_kept_def serves_def)
qed

lemma run_refines:
  assumes "run_loop lib ll cs s = Stopped s' e" and "shutdown lib sp s' = Some (s'', err, evs)"
    and "admissible_run lib ll sp cs s" and "good_state lib st s"
  shows "(settle lib st)\<^sup>*\<^sup>* (state_journal lib s) (state_journal lib s'') \<and> rs_store s'' = st"
proof -
  have r: "(service_step lib ll)\<^sup>*\<^sup>* s s'" "fresh_batch lib (sp_persist sp) (rs_store s') (rs_db s') (rs_dir s')"
    using run_steps(2) [OF assms(3,1)] by blast+
  from svc.run_sim [OF r(1) assms(4)] have g: "good_state lib st s'" "(settle lib st)\<^sup>*\<^sup>* (state_journal lib s) (state_journal lib s')"
    by blast+
  with shutdown_refines [OF assms(2) _ _ r(2)] have "settles lib s' s''" by (simp add: good_state_def)
  with g show ?thesis by (auto simp: settles_def good_state_def)
qed

lemma world_moves_settles:
  assumes "world_moves lib st w w'" and "outbox_kept lib st (disk_dir w)"
  shows "(settle lib st)\<^sup>*\<^sup>* (world_journal lib st w) (world_journal lib st w')"
  using assms booked_settles unfolding world_moves_def world_journal_def by blast

lemma Run_refines:
  assumes "run_journal lib (boot_store cfg) (Run lib ll h bt sp cfg cs w) = Some j"
    and "outbox_kept lib (boot_store cfg) (disk_dir w)" and "lib_ok lib" and "admissible_service lib ll h bt sp cfg cs w"
  shows "(settle lib (boot_store cfg))\<^sup>*\<^sup>* (world_journal lib (boot_store cfg) w) j"
proof -
  let ?st = "boot_store cfg"
  obtain res w' where B: "bootstrap lib ll h bt cfg w = (res, w')" by fastforce
  note R = bootstrap_result [OF B assms(2)]
  have m: "(settle lib ?st)\<^sup>*\<^sup>* (world_journal lib ?st w) (world_journal lib ?st w')"
    using R assms(2) by (intro world_moves_settles) auto
  show ?thesis
  proof (cases res)
    case (Inl e)
    with assms(1) B m show ?thesis by (simp add: Run_def)
  next
    case (Inr s)
    then have sv: "serves ll (bt_load bt) cfg w' s" using R by simp
    have a: "typed_snapshot (en_snapshot (rs_engine s))" "admissible_run lib ll sp cs s"
      using assms(4) B Inr by (simp_all add: admissible_service_def)
    note g = served_good [OF sv assms(2) a(1) assms(3)]
    have j0: "state_journal lib s = world_journal lib ?st w'"
      using sv by (simp add: state_journal_def world_journal_def serves_def)
    have r: "(if AuthRefresh cfg \<le> 0 \<or> ReportEvery cfg \<le> 0 then None else case run_loop lib ll cs s of
        Running s' \<Rightarrow> Some (journal lib ?st (rs_db s') (rs_dir s'))
      | Panicked \<Rightarrow> None
      | Stopped s' e \<Rightarrow> map_option (\<lambda>(s'', _). journal lib ?st (rs_db s'') (rs_dir s'')) (shutdown lib sp s')) = Some j"
      using assms(1) B Inr
      by (auto simp: Run_def world_journal_def disk_dir_def split: if_splits loop_result.splits option.splits)
    then consider s' where "run_loop lib ll cs s = Running s'" "j = journal lib ?st (rs_db s') (rs_dir s')"
      | s' e s'' err evs where "run_loop lib ll cs s = Stopped s' e" "shutdown lib sp s' = Some (s'', err, evs)"
          "j = journal lib ?st (rs_db s'') (rs_dir s'')"
      by (auto split: if_splits loop_result.splits)
    then have "(settle lib ?st)\<^sup>*\<^sup>* (state_journal lib s) j"
    proof cases
      case (1 s')
      from svc.run_sim [OF run_steps(1) [OF a(2) 1(1)] g] 1(2) show ?thesis by (auto simp: state_journal_def good_state_def)
    next
      case (2 s' e s'' err evs)
      from run_refines [OF 2(1,2) a(2) g] 2(3) show ?thesis by (auto simp: state_journal_def)
    qed
    with m j0 show ?thesis by (simp add: rtranclp_trans)
  qed
qed

subsection \<open>Samples\<close>

lemma load_without_users:
  assumes "fst (LoadSnapshot md5 marshal sha256 env p n) = Inr snap" and "p_user (le_between env p) = fmempty" and "int64_ok n"
  shows "typed_snapshot snap"
proof -
  have "select_users (le_between env p) m t = []" for m t using assms(2) by (simp add: select_users_def sorted_list_of_fset.rep_eq)
  moreover have "n_ID m = n" if "select_node p n = Some m" for m
    using that by (auto simp: select_node_def split: option.splits if_splits)
  ultimately show ?thesis using assms(1,3)
    by (auto simp: LoadSnapshot_def Finalize_def typed_snapshot_def Let_def split: if_splits option.splits)
qed

lemma book_all_no_users: "p_user p = fmempty \<Longrightarrow> p_user (book_all bs p) = fmempty"
proof (induction bs arbitrary: p)
  case (Cons b bs)
  have "p_user (book (fst b) (snd b) p) = fmempty" using Cons.prems by (auto simp: book_def intro: fmap_ext)
  from Cons.IH [OF this] show ?case by (simp add: book_all_def)
qed (simp add: book_all_def)

lemma stored_node: "st_nodeID st = st_nodeID st' \<Longrightarrow> stored lib st d = stored lib st' d"
  unfolding stored_def by (intro map_filter_eq) (simp only: batch_at_def)

text \<open>A directory with one batch, for the configuration with its defaults.\<close>

lemma sample_boot_dir:
  "\<exists>d. stored line_lib (boot_store (defaults sample_config)) d = [sample_batch] \<and>
     outbox_kept line_lib (boot_store (defaults sample_config)) d"
proof -
  obtain d where d: "stored line_lib sample_store d = [sample_batch]" "outbox_kept line_lib sample_store d"
    using sample_stored by blast
  let ?st = "boot_store (defaults sample_config)"
  have "st_nodeID ?st = st_nodeID sample_store"
    by (simp add: boot_store_def defaults_def sample_config_def sample_store_def)
  from stored_node [OF this] d(1) have s: "stored line_lib ?st d = [sample_batch]" by simp
  have "c_StateDir (defaults sample_config) = c_StateDir sample_config" by (simp add: defaults_def)
  then have "clean_abs (st_dir ?st)" using sample_boot_store by (simp add: outbox_kept_def boot_store_def)
  with s d(2) show ?thesis by (auto simp: outbox_kept_def ids_unique_def)
qed

subsection \<open>Properties\<close>

text \<open>C2: The service implements the contract of the accounting. Take any run of the process, from the
  lock to the return, with any order of reports, refreshes and restarts of the engine and a fault at any
  call, in which new batches get new ids and other clients leave the table of batches alone. What it
  does to the outbox and the books is a sequence of steps that each store one valid new batch of this
  node or book one open batch. So no two open batches share an id, no open batch is booked, and every
  batch that was stored before the run and not booked is booked after it or still stored.\<close>

theorem service_refines_contract:
  assumes "run_journal lib (boot_store cfg) (Run lib ll h bt sp cfg cs w) = Some j"
    and "outbox_kept lib (boot_store cfg) (disk_dir w)" and "lib_ok lib" and "admissible_service lib ll h bt sp cfg cs w"
  shows "(settle lib (boot_store cfg))\<^sup>*\<^sup>* (world_journal lib (boot_store cfg) w) j \<and> tidy j \<and>
    (\<forall>b \<in> set (outstanding lib (boot_store cfg) (w_panel w) (disk_dir w)). b \<in># fst j \<or> b_ID b \<in> snd j)"
proof -
  note S = Run_refines [OF assms]
  have "tidy j" using settles_tidy [OF S] journal_tidy [OF assms(2)] by (simp add: world_journal_def)
  with S settle_keeps [OF S] show ?thesis by (simp add: world_journal_def journal_def)
qed

theorem service_refines_contract_witness:
  "\<exists>w j. outstanding line_lib (boot_store (defaults sample_config)) (w_panel w) (disk_dir w) = [sample_batch] \<and>
     run_journal line_lib (boot_store (defaults sample_config)) (Run line_lib sample_ll sample_host sample_booting
       \<lparr>sp_close = True, sp_persist = sample_persisting, sp_replay = sample_replaying\<rparr> (defaults sample_config) [] w) = Some j \<and>
     tidy j \<and> (sample_batch \<in># fst j \<or> b_ID sample_batch \<in> snd j)"
proof -
  let ?cfg = "defaults sample_config" and ?sp = "\<lparr>sp_close = True, sp_persist = sample_persisting, sp_replay = sample_replaying\<rparr>"
  obtain d where d: "stored line_lib (boot_store ?cfg) d = [sample_batch]" "outbox_kept line_lib (boot_store ?cfg) d"
    using sample_boot_dir by blast
  define w where "w = \<lparr>w_locked = False, w_disk = Some d, w_panel = quiet_panel\<rparr>"
  have w: "disk_dir w = d" "w_panel w = quiet_panel" by (simp_all add: w_def disk_dir_def)
  have o: "outstanding line_lib (boot_store ?cfg) (w_panel w) (disk_dir w) = [sample_batch]"
    by (simp add: w outstanding_def d(1) is_recorded_def quiet_panel_def sample_tables_def sample_panel_def)
  obtain res w' where B: "bootstrap line_lib sample_ll sample_host sample_booting ?cfg w = (res, w')" by fastforce
  have k: "outbox_kept line_lib (boot_store ?cfg) (disk_dir w)" using d(2) by (simp add: w)
  note R = bootstrap_result [OF B k]
  have pos: "AuthRefresh ?cfg > 0" "ReportEvery ?cfg > 0"
    by (simp_all add: AuthRefresh_def ReportEvery_def defaults_def default_int_def sample_config_def seconds_def wrap64_def)
  obtain j where j: "run_journal line_lib (boot_store ?cfg) (Run line_lib sample_ll sample_host sample_booting ?sp ?cfg [] w) = Some j"
    using B pos by (cases res) (auto simp: Run_def)
  have "typed_snapshot (en_snapshot (rs_engine s))" if "res = Inr s" for s
  proof -
    from R that have sv: "serves sample_ll (bt_load sample_booting) ?cfg w' s" and mv: "world_moves line_lib (boot_store ?cfg) w w'"
      by simp_all
    have "p_user quiet_panel = fmempty" by (simp add: quiet_panel_def)
    then have "p_user (w_panel w') = fmempty" using mv book_all_no_users unfolding world_moves_def w by metis
    moreover have "int64_ok (c_NodeID ?cfg)" by (simp add: defaults_def sample_config_def int64_defs)
    moreover have "le_between (bt_load sample_booting) = id" by (simp add: sample_booting_def sample_load_def)
    ultimately show ?thesis using sv load_without_users unfolding serves_def by (metis id_apply)
  qed
  then have "admissible_service line_lib sample_ll sample_host sample_booting ?sp ?cfg [] w"
    by (auto simp: admissible_service_def B split: sum.split)
  from service_refines_contract [OF j k line_lib_ok this]
  have "tidy j \<and> (sample_batch \<in># fst j \<or> b_ID sample_batch \<in> snd j)" unfolding o by simp
  with o j show ?thesis by blast
qed

end
