(* ===== verification/Controller.thy ===== *)
theory Controller
  imports Operation
begin

text \<open>
  The session controller over the life of the service: it is registered exactly while the instance of
  the engine runs, so traffic is never served without it and no start of an engine is refused because
  the controller of the one before is still there.
\<close>

definition guarded :: "runtimeState \<Rightarrow> bool" where
  "guarded s \<longleftrightarrow> en_registered (rs_engine s) = en_instance (rs_engine s) \<and> rs_registered s = en_instance (rs_engine s)"

text \<open>Errors of a start in a reload that say that a controller was registered already.\<close>

fun blames_controller :: "run_error \<Rightarrow> bool" where
  "blames_controller (PersistRollbackFailed e re) = (re = ControllerRegistered)"
| "blames_controller (ConfigRollbackFailed e re) = (e = ControllerRegistered \<or> re = ControllerRegistered)"
| "blames_controller (ConfigRolledBack e) = (e = ControllerRegistered)"
| "blames_controller e = False"

definition same_guard :: "engine \<Rightarrow> engine \<Rightarrow> bool" where
  "same_guard e e' \<longleftrightarrow> en_instance e' = en_instance e \<and> en_registered e' = en_registered e"

lemma key_errors: "verifyRealityKey x key pub \<noteq> Inl ControllerRegistered"
  by (auto simp: verifyRealityKey_def Let_def split: option.splits if_splits)

lemma Start_unregistered:
  assumes "Start env s cfg key False = (res, r)"
  shows "case res of Inl e \<Rightarrow> \<not> r \<and> e \<noteq> ControllerRegistered | Inr en \<Rightarrow> r \<and> en_instance en \<and> en_registered en"
proof (cases "BuildConfig (se_x25519 env) s (c_Listen cfg) key")
  case (Inl e)
  then have "e \<noteq> ControllerRegistered"
    by (auto simp: BuildConfig_def key_errors split: sum.splits option.splits prod.splits)
  with assms Inl show ?thesis by (auto simp: Start_def)
next
  case (Inr json)
  with assms show ?thesis by (auto simp: Start_def inboundUserManager_def Let_def split: if_splits option.splits)
qed

lemma drain_loop_guard: "same_guard e (snd (drain_loop nodeID uids e))"
proof (induction uids arbitrary: e)
  case (Cons uid uids)
  obtain u m where U: "takeCounter (counter_name nodeID uid ''uplink'') (en_stats e) = (u, m)" by fastforce
  obtain v m' where V: "takeCounter (counter_name nodeID uid ''downlink'') m = (v, m')" by fastforce
  have I: "same_guard (e\<lparr>en_stats := m'\<rparr>) (snd (drain_loop nodeID uids (e\<lparr>en_stats := m'\<rparr>)))"
      "same_guard (e\<lparr>en_stats := m', en_retired := en_retired e |-| {|uid|}\<rparr>)
        (snd (drain_loop nodeID uids (e\<lparr>en_stats := m', en_retired := en_retired e |-| {|uid|}\<rparr>)))"
    using Cons.IH by blast+
  show ?case
  proof (cases u)
    case (Inr x)
    note u = Inr
    show ?thesis
    proof (cases v)
      case (Inr y)
      have s: "snd (case t of (Inl err, e3) \<Rightarrow> (Inl err, e3) | (Inr es, e3) \<Rightarrow> (Inr (new @ es), e3)) = snd t"
        for t :: "(engine_error + entry list) \<times> engine" and new by (auto split: prod.split sum.split)
      from Inr u I U V show ?thesis by (simp add: same_guard_def Let_def s)
    qed (simp add: U V u same_guard_def)
  qed (simp add: U same_guard_def)
qed (simp add: same_guard_def)

lemma drain_guard: "Drain e = (res, e') \<Longrightarrow> same_guard e e'"
  using drain_loop_guard [of e] by (metis Drain_def drainLocked_def snd_conv)

lemma CloseAndDrain_guard:
  assumes "CloseAndDrain ok e = (entries, err, e', cs)" and "en_registered e = en_instance e"
  shows "\<not> en_instance e' \<and> \<not> en_registered e'"
  using assms drain_guard [unfolded Drain_def]
  by (auto simp: CloseAndDrain_def Let_def same_guard_def split: if_splits prod.splits sum.splits)

lemma Apply_guard: "Apply parse next_s e = Some (e', cs, res) \<Longrightarrow> same_guard e e'"
  by (auto simp: Apply_def same_guard_def Let_def split: if_splits prod.splits sum.splits option.splits)

lemma guarded_engine: "guarded s \<Longrightarrow> same_guard (rs_engine s) e \<Longrightarrow> guarded (s\<lparr>rs_engine := e\<rparr>)"
  by (simp add: guarded_def same_guard_def)

text \<open>After a step the engine runs with its controller, or the loop ends.\<close>

definition step_guarded :: "runtimeState \<Rightarrow> run_error option \<Rightarrow> bool" where
  "step_guarded s err \<longleftrightarrow> guarded s \<and> (err = None \<longrightarrow> en_instance (rs_engine s)) \<and> (\<forall>e. err = Some e \<longrightarrow> \<not> blames_controller e)"

lemma report_guarded:
  assumes "report lib rv s = Some (s', err, evs)" and "guarded s" and "en_instance (rs_engine s)"
  shows "step_guarded s' err"
proof -
  have R: "same_guard e (Restore es e)" for e es by (simp add: same_guard_def Restore_def)
  show ?thesis
    using assms drain_guard [of "rs_engine s"] R
    by (auto simp: report_def report_rest_def step_guarded_def guarded_def same_guard_def Let_def
        split: prod.splits sum.splits option.splits if_splits)
qed

lemma restart_guarded:
  assumes "reload_restart lib rl next_s s = Some (s', err, evs)" and "guarded s"
  shows "step_guarded s' err"
proof -
  obtain entries cerr en cs where C: "CloseAndDrain (rl_close rl) (rs_engine s) = (entries, cerr, en, cs)"
    using prod_cases4 by blast
  have c: "\<not> en_instance en" "\<not> en_registered en" using CloseAndDrain_guard [OF C] assms(2) by (simp_all add: guarded_def)
  have S: "start_engine env snap (s\<lparr>rs_engine := en, rs_registered := False\<rparr>) = (res, r) \<Longrightarrow>
      case res of Inl e \<Rightarrow> \<not> r \<and> e \<noteq> ControllerRegistered | Inr en \<Rightarrow> r \<and> en_instance en \<and> en_registered en" for env snap res r
    unfolding start_engine_def using Start_unregistered by simp
  show ?thesis
    using assms(1) c
    by (auto simp: reload_restart_def C Let_def step_guarded_def guarded_def Restore_def dest!: S
        split: option.splits prod.splits sum.splits if_splits)
qed

lemma reload_users_guarded:
  assumes "reload_users lib rl next_s s = Some (s', err, evs)" and "guarded s" and "en_instance (rs_engine s)"
  shows "step_guarded s' err"
  using assms drain_guard [of "rs_engine s"] Apply_guard [of "rl_parse rl" next_s]
  by (auto simp: reload_users_def step_guarded_def guarded_def same_guard_def Restore_def Let_def
      split: prod.splits sum.splits option.splits if_splits)

lemma refresh_guarded:
  assumes "refresh lib ll rf s = Some (s', err, evs)" and "guarded s" and "en_instance (rs_engine s)"
  shows "step_guarded s' err"
proof -
  let ?s = "s\<lparr>rs_lastAuth := rf_now rf\<rparr>"
  have g: "guarded ?s" "en_instance (rs_engine ?s)" using assms(2,3) by (simp_all add: guarded_def)
  have "step_guarded s' err" if "reload lib (rf_reload rf) snap ?s = Some (s', err, evs)" for snap s' err evs
    using that g restart_guarded reload_users_guarded by (auto simp: reload_def split: if_splits)
  with assms g show ?thesis
    by (auto simp: refresh_def Let_def step_guarded_def split: prod.splits sum.splits option.splits if_splits)
qed

lemma run_step_guarded:
  assumes "run_step lib ll c s = Some (s', err)" and "guarded s" and "en_instance (rs_engine s)"
  shows "guarded s' \<and> (err = None \<longrightarrow> en_instance (rs_engine s')) \<and>
    (\<forall>e. err = Some e \<longrightarrow> c = CtxDone e \<or> \<not> blames_controller e)"
  using assms
  by (cases c) (auto simp: elsewhere_def guarded_def dest: report_guarded [unfolded step_guarded_def guarded_def]
      refresh_guarded [unfolded step_guarded_def guarded_def])

lemma run_loop_guarded:
  assumes "guarded s" and "en_instance (rs_engine s)"
  shows "case run_loop lib ll cs s of
      Running s' \<Rightarrow> guarded s' \<and> en_instance (rs_engine s')
    | Stopped s' e \<Rightarrow> guarded s' \<and> (CtxDone e \<in> set cs \<or> \<not> blames_controller e)
    | Panicked \<Rightarrow> True"
  using assms
proof (induction cs arbitrary: s)
  case (Cons c cs)
  show ?case
  proof (cases "run_step lib ll c s")
    case (Some t)
    obtain s1 err where t: "t = (s1, err)" by (cases t)
    note G = run_step_guarded [OF Some [unfolded t] Cons.prems]
    show ?thesis
    proof (cases err)
      case None
      with G Cons.IH [of s1] Some t show ?thesis by (auto split: loop_result.splits)
    qed (use G Some t in auto)
  qed simp
qed simp

lemma shutdown_guarded:
  assumes "shutdown lib sp s = Some (s', err, evs)" and "guarded s"
  shows "guarded s' \<and> \<not> en_instance (rs_engine s')"
  using assms CloseAndDrain_guard
  by (fastforce simp: shutdown_def guarded_def split: prod.splits option.splits)

lemma bootstrap_guarded:
  assumes "bootstrap lib ll h bt cfg w = (Inr s, w')"
  shows "guarded s \<and> en_instance (rs_engine s)"
proof -
  obtain snap key r where "Start (bt_start bt) snap cfg key False = (Inr (rs_engine s), r)" "rs_registered s = r"
    using assms
    by (auto simp: bootstrap_def boot_components_def Let_def split: prod.splits option.splits sum.splits if_splits)
  with Start_unregistered show ?thesis by (fastforce simp: guarded_def)
qed

text \<open>C10: The session controller is registered exactly while the engine runs. As long as \<^verbatim>\<open>Run\<close> serves, whatever
  ticks, failures, reloads and rollbacks there were, the instance runs and its controller is registered, so
  no traffic is served uncontrolled; when \<^verbatim>\<open>Run\<close> returns after it served, the instance is closed and no
  controller is left; and no start in a reload or rollback fails because the controller of the engine
  before is still registered.\<close>

theorem controller_guards_engine:
  "(case Run lib ll h bt sp cfg cs w of
      Serving s w' \<Rightarrow> en_instance (rs_engine s) \<and> en_registered (rs_engine s) \<and> rs_registered s
    | Returned err (Some s) w' \<Rightarrow> \<not> en_instance (rs_engine s) \<and> \<not> en_registered (rs_engine s) \<and> \<not> rs_registered s
    | _ \<Rightarrow> True) \<and>
   (case bootstrap lib ll h bt cfg w of
      (Inl e, w') \<Rightarrow> True
    | (Inr s, w') \<Rightarrow>
        (case run_loop lib ll cs s of
           Stopped s' e \<Rightarrow> if CtxDone e \<in> set cs then True else \<not> blames_controller e
         | _ \<Rightarrow> True))"
proof (cases "bootstrap lib ll h bt cfg w")
  case (Pair res w')
  show ?thesis
  proof (cases res)
    case (Inr s)
    note B = Pair [unfolded Inr]
    have L: "case run_loop lib ll cs s of
        Running s' \<Rightarrow> guarded s' \<and> en_instance (rs_engine s')
      | Stopped s' e \<Rightarrow> guarded s' \<and> (CtxDone e \<in> set cs \<or> \<not> blames_controller e)
      | Panicked \<Rightarrow> True"
      using bootstrap_guarded [OF B] run_loop_guarded by blast
    show ?thesis
    proof (cases "run_loop lib ll cs s")
      case (Stopped s' e)
      with L have "guarded s'" "CtxDone e \<in> set cs \<or> \<not> blames_controller e" by simp_all
      with Stopped shutdown_guarded [of lib sp s'] show ?thesis
        by (auto simp: Run_def B guarded_def split: option.splits prod.splits)
    qed (use L in \<open>simp_all add: Run_def B guarded_def\<close>)
  qed (simp add: Run_def Pair)
qed

end
