(* ===== verification/Go_Flag.thy ===== *)
theory Go_Flag
  imports Go_Prelude
begin

text \<open>
  The part of the package \<^verbatim>\<open>flag\<close> that the two programs use: sets of string flags.
\<close>

datatype flag_error = BadFlagSyntax string | FlagHelp | UnknownFlag string | MissingFlagValue string

text \<open>The text before and after the first equality sign that is not the first character.\<close>

definition split_assign :: "string \<Rightarrow> string \<times> string option" where
  "split_assign s = (case s of
     [] \<Rightarrow> ([], None)
   | c # cs \<Rightarrow>
       (case dropWhile (\<lambda>d. d \<noteq> CHR ''='') cs of
          [] \<Rightarrow> (s, None)
        | _ # v \<Rightarrow> (c # takeWhile (\<lambda>d. d \<noteq> CHR ''='') cs, Some v)))"

text \<open>\<^verbatim>\<open>FlagSet.Parse\<close>: the values by name, which start with the defaults, and the remaining arguments.\<close>

fun parse_flag_set :: "(string, string) fmap \<Rightarrow> string list \<Rightarrow> flag_error + ((string, string) fmap \<times> string list)" where
  "parse_flag_set vals [] = Inr (vals, [])"
| "parse_flag_set vals (a # rest) =
     (if length a < 2 \<or> hd a \<noteq> CHR ''-'' then Inr (vals, a # rest)
      else if a = ''--'' then Inr (vals, rest)
      else
        let name = (if a ! 1 = CHR ''-'' then drop 2 a else drop 1 a) in
        if name = [] \<or> hd name = CHR ''-'' \<or> hd name = CHR ''='' then Inl (BadFlagSyntax a)
        else
          let (key, val) = split_assign name in
          if fmlookup vals key = None then Inl (if key = ''help'' \<or> key = ''h'' then FlagHelp else UnknownFlag key)
          else (case val of
                  Some v \<Rightarrow> parse_flag_set (fmupd key v vals) rest
                | None \<Rightarrow>
                    (case rest of
                       [] \<Rightarrow> Inl (MissingFlagValue key)
                     | v # rest' \<Rightarrow> parse_flag_set (fmupd key v vals) rest')))"

text \<open>Parsing keeps the flags of the set.\<close>

lemma parse_flag_set_dom:
  "parse_flag_set vals args = Inr (vals', rest) \<Longrightarrow> fmdom vals' = fmdom vals"
proof (induction "length args" arbitrary: vals args rule: less_induct)
  case less
  show ?case
  proof (cases args)
    case Nil
    with less.prems show ?thesis by simp
  next
    case (Cons a as)
    obtain key val where sp: "split_assign (if a ! 1 = CHR ''-'' then drop 2 a else drop 1 a) = (key, val)" by fastforce
    note P = less.prems [unfolded Cons parse_flag_set.simps(2) Let_def sp prod.case]
    consider "vals' = vals" | v bs where "fmlookup vals key \<noteq> None" "length bs \<le> length as"
        "parse_flag_set (fmupd key v vals) bs = Inr (vals', rest)"
      using P by (auto simp del: parse_flag_set.simps split: if_splits option.splits list.splits) (meson le_SucI order_refl)+
    then show ?thesis
    proof cases
      case 2
      then have "fmdom vals' = fmdom (fmupd key v vals)" using less.hyps [of bs] Cons by simp
      with 2(1) show ?thesis by (auto intro: fmdomI)
    qed simp
  qed
qed

end
