(* ===== verification/Command.thy ===== *)
theory Command
  imports Service Go_Flag
begin

text \<open>
  \<^verbatim>\<open>cmd/vlesshappy/main.go\<close>: the commands \<^verbatim>\<open>run\<close>, \<^verbatim>\<open>validate\<close>, \<^verbatim>\<open>keygen\<close> and \<^verbatim>\<open>version\<close>, and the proof that the service accepts a key that \<^verbatim>\<open>keygen\<close> wrote.
\<close>

subsection \<open>Flags\<close>

text \<open>A set with one string flag: its value and the remaining arguments.\<close>

definition parse_flags :: "string \<Rightarrow> string \<Rightarrow> string list \<Rightarrow> flag_error + (string \<times> string list)" where
  "parse_flags flag cur args =
     (case parse_flag_set (fmupd flag cur fmempty) args of
        Inl e \<Rightarrow> Inl e
      | Inr (vals, rest) \<Rightarrow> Inr (the (fmlookup vals flag), rest))"

subsection \<open>Key generation\<close>

datatype command_error =
    FlagFailed flag_error
  | UnexpectedArguments "string list"
  | ConfigFailed config_error
  | ServiceFailed run_error
  | KeygenUsage
  | GenerateKeyFailed
  | CreateKeyFile
  | WriteKeyFile
  | SyncKeyFile
  | CloseKeyFile

record keygen_env =
  kg_key :: "(nat list \<times> nat list) option"  \<comment> \<open>the private and the public key\<close>
  kg_open :: bool
  kg_written :: nat
  kg_sync :: bool
  kg_close :: bool

text \<open>The files of the host by path; the result with the printed lines.\<close>

type_synonym files = "(string, os_file) fmap"

definition keygen :: "keygen_env \<Rightarrow> string list \<Rightarrow> files \<Rightarrow> command_error option \<times> string list \<times> files" where
  "keygen kg args fs =
     (case parse_flags ''private-key-file'' [] args of
        Inl e \<Rightarrow> (Some (FlagFailed e), [], fs)
      | Inr (privatePath, extra) \<Rightarrow>
          if length extra \<noteq> 0 \<or> privatePath = [] \<or> \<not> is_abs privatePath then (Some KeygenUsage, [], fs)
          else (case kg_key kg of
                  None \<Rightarrow> (Some GenerateKeyFailed, [], fs)
                | Some (priv, pub) \<Rightarrow>
                    let privateText = base64_encode priv @ [CHR 0x0A] in
                    if \<not> kg_open kg \<or> fmlookup fs privatePath \<noteq> None then (Some CreateKeyFile, [], fs)
                    else
                      let fs' = fmupd privatePath (Regular (take (kg_written kg) privateText) 0x180) fs in
                      if kg_written kg < length privateText then (Some WriteKeyFile, [], fs')
                      else if \<not> kg_sync kg then (Some SyncKeyFile, [], fs')
                      else if \<not> kg_close kg then (Some CloseKeyFile, [], fs')
                      else (None, [''REALITY public key: '' @ base64_encode pub], fs')))"

subsection \<open>Commands\<close>

datatype log_level = LevelDebug | LevelInfo | LevelWarn | LevelError

definition logLevel :: "string \<Rightarrow> log_level" where
  "logLevel v =
     (if v = ''debug'' then LevelDebug else if v = ''warn'' then LevelWarn
      else if v = ''error'' then LevelError else LevelInfo)"

text \<open>
  The levels are ordered by their numbers in \<^verbatim>\<open>log/slog\<close>; the handler drops an event below its level.
  The level of an event is that of the call in \<^verbatim>\<open>run.go\<close> that logs it.
\<close>

primrec level_number :: "log_level \<Rightarrow> int" where
  "level_number LevelDebug = -4"
| "level_number LevelInfo = 0"
| "level_number LevelWarn = 4"
| "level_number LevelError = 8"

lemma level_number_inject: "level_number l = level_number l' \<longleftrightarrow> l = l'"
  by (cases l; cases l') simp_all

instantiation log_level :: linorder
begin

definition less_eq_log_level :: "log_level \<Rightarrow> log_level \<Rightarrow> bool" where
  "l \<le> l' \<longleftrightarrow> level_number l \<le> level_number l'"

definition less_log_level :: "log_level \<Rightarrow> log_level \<Rightarrow> bool" where
  "l < l' \<longleftrightarrow> level_number l < level_number l'"

instance
  by standard (auto simp: less_eq_log_level_def less_log_level_def level_number_inject)

end

fun event_level :: "log_event \<Rightarrow> log_level" where
  "event_level (SessionTotals tcp xudp handshakes) = LevelInfo"
| "event_level (AuthorizationApplied n) = LevelInfo"
| "event_level ServiceDraining = LevelInfo"
| "event_level _ = LevelWarn"

definition written :: "log_level \<Rightarrow> log_event list \<Rightarrow> log_event list" where
  "written l evs = filter (\<lambda>e. l \<le> event_level e) evs"

lemma written_mono: "l \<le> l' \<Longrightarrow> set (written l' evs) \<subseteq> set (written l evs)"
  by (auto simp: written_def)

text \<open>The service logs nothing at the level of errors: with \<^verbatim>\<open>error\<close> its log stays empty, and with any
  other value of \<^verbatim>\<open>log_level\<close> every warning is written.\<close>

lemma written_by_level:
  "written (logLevel v) evs = (if v = ''error'' then [] else if v = ''warn'' then filter (\<lambda>e. event_level e = LevelWarn) evs else evs)"
proof -
  have two: "event_level e = LevelInfo \<or> event_level e = LevelWarn" for e by (cases e) simp_all
  have "LevelError \<le> event_level e \<longleftrightarrow> False" "LevelWarn \<le> event_level e \<longleftrightarrow> event_level e = LevelWarn"
      "LevelInfo \<le> event_level e" "LevelDebug \<le> event_level e" for e
    using two [of e] by (auto simp: less_eq_log_level_def)
  then show ?thesis by (simp add: written_def logLevel_def)
qed

text \<open>What a command needs of the outside: reading the configuration, and the service.\<close>

record command_env =
  ce_readFile :: "string \<Rightarrow> string option"
  ce_scan :: "string \<Rightarrow> token list"
  ce_decode :: "string \<Rightarrow> (config \<times> string) option"
  ce_trailing :: "string \<Rightarrow> trailing"
  ce_keygen :: keygen_env
  ce_validate :: "config \<Rightarrow> run_error option"
  ce_run :: "config \<Rightarrow> log_level \<Rightarrow> run_error option"

definition choose_command :: "string list \<Rightarrow> string \<times> string list" where
  "choose_command args = (case args of
     a # rest \<Rightarrow>
       if a = ''run'' \<or> a = ''validate'' \<or> a = ''keygen'' \<or> a = ''version'' then (a, rest) else (''run'', args)
   | [] \<Rightarrow> (''run'', []))"

definition run_cmd :: "command_env \<Rightarrow> string list \<Rightarrow> files \<Rightarrow> command_error option \<times> string list \<times> files" where
  "run_cmd ce args fs =
     (case choose_command args of
        (command, args') \<Rightarrow>
          if command = ''version'' then (None, [''vlesshappy 0.2.0-rc.1''], fs)
          else if command = ''keygen'' then keygen (ce_keygen ce) args' fs
          else (case parse_flags ''config'' ''/etc/vlesshappy/config.json'' args' of
                  Inl e \<Rightarrow> (Some (FlagFailed e), [], fs)
                | Inr (configPath, extra) \<Rightarrow>
                    if length extra \<noteq> 0 then (Some (UnexpectedArguments extra), [], fs)
                    else (case Load (ce_readFile ce) (ce_scan ce) (ce_decode ce) (ce_trailing ce) configPath of
                            Inl e \<Rightarrow> (Some (ConfigFailed e), [], fs)
                          | Inr cfg \<Rightarrow>
                              if command = ''validate'' then
                                (case ce_validate ce cfg of
                                   Some e \<Rightarrow> (Some (ServiceFailed e), [], fs)
                                 | None \<Rightarrow> (None, [''configuration is valid''], fs))
                              else (map_option ServiceFailed (ce_run ce cfg (logLevel (c_LogLevel cfg))), [], fs))))"

text \<open>\<^verbatim>\<open>main\<close>: the exit status, with what is printed on the standard output.\<close>

definition main :: "command_env \<Rightarrow> string list \<Rightarrow> files \<Rightarrow> nat \<times> string list \<times> files" where
  "main ce argv fs =
     (case run_cmd ce (drop 1 argv) fs of
        (Some e, out, fs') \<Rightarrow> (1, out, fs')
      | (None, out, fs') \<Rightarrow> (0, out, fs'))"

subsection \<open>Encoding of keys\<close>

lemma base64_val_char: "n < 64 \<Longrightarrow> base64_val (base64_char n) = Some n"
proof -
  assume n: "n < 64"
  then have "of_char (base64_char n) = (if n < 26 then n + 65 else if n < 52 then n + 71 else if n < 62 then n - 4
      else if n = 62 then 45 else 95)" by (simp add: base64_char_def)
  moreover have "base64_char 62 = CHR ''-''" "base64_char 63 = CHR ''_''" by code_simp+
  moreover have "n = 62 \<or> n = 63 \<or> n < 62" using n by auto
  ultimately show ?thesis by (auto simp: base64_val_def Let_def)
qed

lemma base64_char_plain:
  assumes "n < 64"
  shows "base64_char n \<notin> {CHR 0x0A, CHR 0x0D, CHR ''='', CHR 0x20} \<and> of_char (base64_char n) < (128 :: nat) \<and>
    32 < (of_char (base64_char n) :: nat)"
proof -
  have c: "(of_char (base64_char n) :: nat) = (if n < 26 then n + 65 else if n < 52 then n + 71 else if n < 62 then n - 4
      else if n = 62 then 45 else 95)" using assms by (simp add: base64_char_def)
  have "of_char (base64_char n) \<noteq> (10 :: nat)" "of_char (base64_char n) \<noteq> (13 :: nat)"
      "of_char (base64_char n) \<noteq> (61 :: nat)" "of_char (base64_char n) \<noteq> (32 :: nat)" unfolding c using assms by auto
  moreover have "of_char (base64_char n) < (128 :: nat)" "32 < (of_char (base64_char n) :: nat)" unfolding c using assms by auto
  moreover have "of_char CHR 0x0A = (10 :: nat)" "of_char CHR 0x0D = (13 :: nat)" "of_char CHR ''='' = (61 :: nat)"
      "of_char CHR 0x20 = (32 :: nat)" by simp_all
  ultimately show ?thesis by (metis empty_iff insert_iff)
qed

lemma base64_digits_range: "\<forall>b \<in> set bs. b < 256 \<Longrightarrow> \<forall>n \<in> set (base64_digits bs). n < 64"
  by (induction bs rule: base64_digits.induct) auto

lemma base64_bytes_digits: "\<forall>b \<in> set bs. b < 256 \<Longrightarrow> base64_bytes (base64_digits bs) = Some bs"
proof (induction bs rule: base64_digits.induct)
  case (4 a b c r)
  have "b div 16 < 16" "c div 64 < 4" using "4.prems" by auto
  then have "b div 16 div 16 = 0" "b div 16 mod 16 = b div 16" "c div 64 div 4 = 0" "c div 64 mod 4 = c div 64" by simp_all
  moreover have "b div 16 * 16 + b mod 16 = b" "c div 64 * 64 + c mod 64 = c" by simp_all
  ultimately show ?case using 4 by simp
qed auto

lemma base64_decode_encode [codec_simps]:
  assumes "\<forall>b \<in> set bs. b < 256"
  shows "base64_decode (base64_encode bs) = Some bs"
proof -
  have R: "\<forall>n \<in> set (base64_digits bs). n < 64" by (rule base64_digits_range [OF assms])
  then have "filter (\<lambda>c. c \<noteq> CHR 0x0A \<and> c \<noteq> CHR 0x0D) (base64_encode bs) = base64_encode bs"
    using base64_char_plain by (intro filter_True) (auto simp: base64_encode_def)
  moreover have "list_all (\<lambda>c. base64_val c \<noteq> None) (base64_encode bs)"
    using R base64_val_char by (auto simp: base64_encode_def list_all_iff)
  moreover have "map (the \<circ> base64_val) (base64_encode bs) = base64_digits bs"
    using R base64_val_char by (simp add: base64_encode_def map_idI)
  ultimately show ?thesis by (simp add: base64_decode_def base64_bytes_digits [OF assms])
qed

lemma has_prefix_Cons: "has_prefix (c # s) (d # p) \<longleftrightarrow> c = d \<and> has_prefix s p"
  by (auto simp: has_prefix_def)

text \<open>A printable ASCII character begins and ends no white space.\<close>

lemma no_space_front:
  assumes "32 < (of_char c :: nat)" and "of_char c < (128 :: nat)"
  shows "find (\<lambda>w. has_prefix (c # s) w) spaces = None" and "find (\<lambda>w. has_prefix (c # s) w) (map rev spaces) = None"
proof -
  have ne: "c \<noteq> d" if "(of_char d :: nat) \<le> 32 \<or> 128 \<le> (of_char d :: nat)" for d using that assms by auto
  have "\<forall>w \<in> set spaces. (\<exists>d p. w = d # p \<and> ((of_char d :: nat) \<le> 32 \<or> 128 \<le> (of_char d :: nat)))"
    by (simp add: spaces_def)
  moreover have "\<forall>w \<in> set (map rev spaces). (\<exists>d p. w = d # p \<and> ((of_char d :: nat) \<le> 32 \<or> 128 \<le> (of_char d :: nat)))"
    by (simp add: spaces_def)
  ultimately show "find (\<lambda>w. has_prefix (c # s) w) spaces = None" "find (\<lambda>w. has_prefix (c # s) w) (map rev spaces) = None"
    using ne by (auto simp: find_None_iff has_prefix_Cons)+
qed

definition printable :: "string \<Rightarrow> bool" where
  "printable s \<longleftrightarrow> (\<forall>c \<in> set s. 32 < (of_char c :: nat) \<and> of_char c < (128 :: nat))"

lemma strip_printable:
  assumes "printable s"
  shows "strip_fuel n spaces (s @ t) = (if s = [] then strip_fuel n spaces t else s @ t)"
    and "strip_fuel n (map rev spaces) s = s"
proof -
  show "strip_fuel n spaces (s @ t) = (if s = [] then strip_fuel n spaces t else s @ t)"
    using assms no_space_front(1) by (cases s) (auto simp: printable_def intro: strip_fuel_none)
  show "strip_fuel n (map rev spaces) s = s"
  proof (cases s)
    case Nil
    have "find (\<lambda>w. has_prefix [] w) (map rev spaces) = None" by code_simp
    with Nil show ?thesis by (auto intro: strip_fuel_none)
  next
    case (Cons c r)
    with assms no_space_front(2) [of c r] show ?thesis by (auto simp: printable_def intro: strip_fuel_none)
  qed
qed

lemma trim_space_line:
  assumes "printable s" and "s \<noteq> []"
  shows "trim_space (s @ [CHR 0x0A]) = s" and "trim_space s = s"
proof -
  have p: "printable (rev s)" using assms(1) by (simp add: printable_def)
  have f: "find (\<lambda>w. has_prefix (CHR 0x0A # r) w) (map rev spaces) = Some [CHR 0x0A]" for r
    by (simp add: spaces_def has_prefix_def)
  have "strip_fuel (Suc n) (map rev spaces) (CHR 0x0A # rev s) = rev s" for n
    using strip_printable(2) [OF p] by (simp add: f)
  then show "trim_space (s @ [CHR 0x0A]) = s"
    using assms strip_printable(1) [OF assms(1), of _ "[CHR 0x0A]"] by (simp add: trim_space_def Let_def)
  show "trim_space s = s"
    using assms strip_printable(1) [OF assms(1), of _ "[]"] strip_printable(2) [OF p] by (simp add: trim_space_def Let_def)
qed

lemma base64_encode_printable: "\<forall>b \<in> set bs. b < 256 \<Longrightarrow> printable (base64_encode bs) \<and> CHR ''='' \<notin> set (base64_encode bs)"
  using base64_char_plain base64_digits_range by (force simp: printable_def base64_encode_def)

lemma base64_encode_Nil: "base64_encode bs = [] \<longleftrightarrow> bs = []"
  by (cases bs rule: base64_digits.cases) (simp_all add: base64_encode_def)

text \<open>A key that decodes and derives its public half passes the check of the engine.\<close>

lemma verify_encoded:
  assumes "\<forall>b \<in> set priv. b < 256" and "length priv = 32" and "x25519 priv = Some pub"
  shows "verifyRealityKey x25519 (base64_encode priv) publicText =
    (if base64_encode pub \<noteq> publicText then Inl KeyMismatch else Inr (base64_encode priv))"
proof -
  have "base64_encode priv \<noteq> []" using assms(2) by (auto simp: base64_encode_Nil)
  with base64_encode_printable [OF assms(1)] have "trim_space (base64_encode priv) = base64_encode priv"
    using trim_space_line(2) by blast
  with base64_encode_printable [OF assms(1)] show ?thesis
    using assms base64_decode_encode [OF assms(1)] by (simp add: verifyRealityKey_def Let_def)
qed

subsection \<open>Properties\<close>

text \<open>What \<^verbatim>\<open>Lstat\<close> and \<^verbatim>\<open>ReadFile\<close> report of the files of a user.\<close>

definition lstat_of :: "int \<Rightarrow> files \<Rightarrow> string \<Rightarrow> file_info option" where
  "lstat_of uid fs path = map_option (\<lambda>f. \<lparr>fi_symlink = False, fi_regular = is_regular f,
     fi_perm = (case f of Regular s m \<Rightarrow> m | Special d n \<Rightarrow> 0), fi_uid = Some uid\<rparr>) (fmlookup fs path)"

definition read_of :: "files \<Rightarrow> string \<Rightarrow> string option" where
  "read_of fs path = (case fmlookup fs path of Some (Regular s m) \<Rightarrow> Some s | _ \<Rightarrow> None)"

lemma keygen_cases:
  assumes "keygen kg args fs = (err, out, fs')" and "kg_key kg = Some (priv, pub)"
  shows "(fs' = fs \<and> err \<noteq> None) \<or> (\<exists>path t. fmlookup fs path = None \<and>
    fs' = fmupd path (Regular (take t (base64_encode priv @ [CHR 0x0A])) 0x180) fs \<and>
    (err = None \<longrightarrow> length (base64_encode priv) < t \<and> out = [''REALITY public key: '' @ base64_encode pub]))"
proof -
  define line where "line = base64_encode priv @ [CHR 0x0A]"
  have len: "length (base64_encode priv) < kg_written kg" if "\<not> kg_written kg < length line" using that by (simp add: line_def)
  show ?thesis
  proof (cases "\<exists>path. parse_flags ''private-key-file'' [] args = Inr (path, []) \<and> path \<noteq> [] \<and> is_abs path \<and>
      kg_open kg \<and> fmlookup fs path = None")
    case True
    then obtain path where p: "parse_flags ''private-key-file'' [] args = Inr (path, [])" "path \<noteq> []" "is_abs path"
        "kg_open kg" "fmlookup fs path = None" by blast
    have "keygen kg args fs = (let fs' = fmupd path (Regular (take (kg_written kg) line) 0x180) fs in
        if kg_written kg < length line then (Some WriteKeyFile, [], fs')
        else if \<not> kg_sync kg then (Some SyncKeyFile, [], fs')
        else if \<not> kg_close kg then (Some CloseKeyFile, [], fs')
        else (None, [''REALITY public key: '' @ base64_encode pub], fs'))"
      using p unfolding keygen_def line_def by (simp add: assms(2) Let_def)
    then have "fs' = fmupd path (Regular (take (kg_written kg) line) 0x180) fs \<and>
        (err = None \<longrightarrow> \<not> kg_written kg < length line \<and> out = [''REALITY public key: '' @ base64_encode pub])"
      using assms(1) by (auto simp: Let_def split: if_splits)
    with len p(5) show ?thesis unfolding line_def by blast
  next
    case False
    with assms show ?thesis by (auto simp: keygen_def Let_def split: sum.splits if_splits)
  qed
qed

text \<open>C32: The service accepts the keys that \<^verbatim>\<open>keygen\<close> makes. The command never changes an existing file.
  When it succeeds, the secret file it created can be read back by its owner, and the check of the
  engine accepts the key for exactly one public key: the one that was printed. This holds for every
  key pair of 32 bytes whose public half is derived from the priv one.\<close>

theorem keygen_key_accepted:
  assumes "keygen kg args fs = (err, out, fs')" and "kg_key kg = Some (priv, pub)"
    and "\<forall>b \<in> set priv. b < 256" and "length priv = 32" and "x25519 priv = Some pub"
  shows "(\<forall>path. fmlookup fs path \<noteq> None \<longrightarrow> fmlookup fs' path = fmlookup fs path) \<and>
    (err = None \<longrightarrow> (\<exists>path key line. fmlookup fs path = None \<and> out = [''REALITY public key: '' @ line] \<and>
       ReadSecret (lstat_of uid fs') (read_of fs') uid path = Inr key \<and>
       (\<forall>publicText. verifyRealityKey x25519 key publicText = (if publicText = line then Inr key else Inl KeyMismatch))))"
proof -
  have ne: "base64_encode priv \<noteq> []" using assms(4) by (auto simp: base64_encode_Nil)
  have trim: "trim_space (base64_encode priv @ [CHR 0x0A]) = base64_encode priv"
    using trim_space_line(1) base64_encode_printable [OF assms(3)] ne by blast
  note V = verify_encoded [of priv x25519 pub, OF assms(3-5)]
  from keygen_cases [OF assms(1,2)] show ?thesis
  proof (elim disjE exE conjE)
    fix path t
    assume p: "fmlookup fs path = None" "fs' = fmupd path (Regular (take t (base64_encode priv @ [CHR 0x0A])) 0x180) fs"
      "err = None \<longrightarrow> length (base64_encode priv) < t \<and> out = [''REALITY public key: '' @ base64_encode pub]"
    have "ReadSecret (lstat_of uid fs') (read_of fs') uid path = Inr (base64_encode priv)"
      if "length (base64_encode priv) < t"
      using that ne trim by (simp add: ReadSecret_def lstat_of_def read_of_def p(2))
    with p V show ?thesis by (auto split: if_splits)
  qed auto
qed

theorem keygen_key_accepted_witness:
  "\<exists>path key line fs'. keygen \<lparr>kg_key = Some (replicate 32 0, replicate 32 0), kg_open = True, kg_written = 44,
       kg_sync = True, kg_close = True\<rparr> [''-private-key-file'', ''/k''] fmempty
       = (None, [''REALITY public key: '' @ line], fs') \<and>
     ReadSecret (lstat_of 0 fs') (read_of fs') 0 path = Inr key \<and>
     verifyRealityKey (\<lambda>_. Some (replicate 32 0)) key line = Inr key"
proof -
  let ?kg = "\<lparr>kg_key = Some (replicate 32 0, replicate 32 0), kg_open = True, kg_written = 44, kg_sync = True,
    kg_close = True\<rparr>"
  have "fst (keygen ?kg [''-private-key-file'', ''/k''] fmempty) = None" by code_simp
  then obtain out fs' where K: "keygen ?kg [''-private-key-file'', ''/k''] fmempty = (None, out, fs')"
    by (metis prod.collapse)
  have "kg_key ?kg = Some (replicate 32 0, replicate 32 0)" by simp
  from keygen_key_accepted [OF K this, of "\<lambda>_. Some (replicate 32 0)" 0] obtain path key line where
    "out = [''REALITY public key: '' @ line]" "ReadSecret (lstat_of 0 fs') (read_of fs') 0 path = Inr key"
    "\<forall>t. verifyRealityKey (\<lambda>_. Some (replicate 32 0)) key t = (if t = line then Inr key else Inl KeyMismatch)"
    by auto
  with K show ?thesis by (metis (full_types))
qed

end
