(* ===== verification/Fault_Proxy.thy ===== *)
theory Fault_Proxy
  imports Xray_Engine Go_Flag "HOL-Library.Sublist"
begin

text \<open>
  \<^verbatim>\<open>cmd/vlesshappy-mysql-faultproxy/main.go\<close>: the proxy that the acceptance tests put before the
  database. It forwards the packets of both sides and hides the answer to a \<^verbatim>\<open>COMMIT\<close>.

  A connection is a machine: reading a packet, storing or swapping the shared flag, and writing the
  packet are separate steps of each of the two goroutines of \<^verbatim>\<open>handle\<close>, and these steps interleave in
  any order. A stream of bytes is a string; the bytes still to come are part of the state, a write can
  fail after any number of bytes, and a failing write or a closed connection ends a goroutine.
\<close>

subsection \<open>Packets\<close>

definition packet_length :: "string \<Rightarrow> nat" where
  "packet_length h = of_char (h ! 0) + 256 * of_char (h ! 1) + 65536 * of_char (h ! 2)"

text \<open>The packet, its payload and what follows; \<^term>\<open>None\<close> when the stream ends before, or the length is refused.\<close>

definition readPacket :: "string \<Rightarrow> (string \<times> string \<times> string) option" where
  "readPacket s =
     (if length s < 4 then None
      else
        let header = take 4 s; n = packet_length header in
        if n > 16 * 2 ^ 20 then None
        else if length (drop 4 s) < n then None
        else let payload = take n (drop 4 s) in Some (header @ payload, payload, drop (4 + n) s))"

definition is_commit :: "string \<Rightarrow> bool" where
  "is_commit payload \<longleftrightarrow> length payload > 1 \<and> hd payload = CHR 0x03 \<and>
     to_lower (trim_space (tl payload)) = ''commit''"

subsection \<open>The connection\<close>

record connection =
  cn_client :: string  \<comment> \<open>bytes the client has yet to send\<close>
  cn_server :: string
  cn_read :: "(string \<times> string) option"  \<comment> \<open>packet and payload read from the client and not inspected yet\<close>
  cn_request :: "string option"  \<comment> \<open>the inspected packet, to be written to the server\<close>
  cn_answer :: "string option"  \<comment> \<open>a packet read from the server, before the swap\<close>
  cn_reply :: "string option"  \<comment> \<open>after the swap, to be written to the client\<close>
  cn_to_server :: string
  cn_to_client :: string
  cn_drop :: bool
  cn_up :: bool  \<comment> \<open>the goroutine from client to server runs\<close>
  cn_down :: bool
  cn_closed :: bool

datatype proxy_event =
    ReadClient
  | Inspect
  | WriteServer "nat option"  \<comment> \<open>the bytes written before the call failed\<close>
  | ReadServer
  | Swap
  | WriteClient "nat option"
  | CloseBoth

definition proxy_start :: "string \<Rightarrow> string \<Rightarrow> connection" where
  "proxy_start client server = \<lparr>cn_client = client, cn_server = server, cn_read = None, cn_request = None,
     cn_answer = None, cn_reply = None, cn_to_server = [], cn_to_client = [], cn_drop = False, cn_up = True, cn_down = True, cn_closed = False\<rparr>"

fun proxy_step :: "connection \<Rightarrow> proxy_event \<Rightarrow> connection" where
  "proxy_step c ReadClient =
     (if \<not> cn_up c \<or> cn_read c \<noteq> None \<or> cn_request c \<noteq> None then c
      else if cn_closed c then c\<lparr>cn_up := False\<rparr>
      else (case readPacket (cn_client c) of
              None \<Rightarrow> c\<lparr>cn_up := False\<rparr>
            | Some (packet, payload, rest) \<Rightarrow> c\<lparr>cn_client := rest, cn_read := Some (packet, payload)\<rparr>))"
| "proxy_step c Inspect =
     (case cn_read c of
        None \<Rightarrow> c
      | Some (packet, payload) \<Rightarrow>
          c\<lparr>cn_read := None, cn_request := Some packet, cn_drop := (if is_commit payload then True else cn_drop c)\<rparr>)"
| "proxy_step c (WriteServer failed) =
     (case cn_request c of
        None \<Rightarrow> c
      | Some packet \<Rightarrow>
          if cn_closed c then c\<lparr>cn_request := None, cn_up := False\<rparr>
          else (case failed of
                  None \<Rightarrow> c\<lparr>cn_request := None, cn_to_server := cn_to_server c @ packet\<rparr>
                | Some n \<Rightarrow> c\<lparr>cn_request := None, cn_to_server := cn_to_server c @ take n packet, cn_up := False\<rparr>))"
| "proxy_step c ReadServer =
     (if \<not> cn_down c \<or> cn_answer c \<noteq> None \<or> cn_reply c \<noteq> None then c
      else if cn_closed c then c\<lparr>cn_down := False\<rparr>
      else (case readPacket (cn_server c) of
              None \<Rightarrow> c\<lparr>cn_down := False\<rparr>
            | Some (packet, payload, rest) \<Rightarrow> c\<lparr>cn_server := rest, cn_answer := Some packet\<rparr>))"
| "proxy_step c Swap =
     (case cn_answer c of
        None \<Rightarrow> c
      | Some packet \<Rightarrow>
          if cn_drop c then c\<lparr>cn_answer := None, cn_drop := False, cn_down := False\<rparr>
          else c\<lparr>cn_answer := None, cn_reply := Some packet\<rparr>)"
| "proxy_step c (WriteClient failed) =
     (case cn_reply c of
        None \<Rightarrow> c
      | Some packet \<Rightarrow>
          if cn_closed c then c\<lparr>cn_reply := None, cn_down := False\<rparr>
          else (case failed of
                  None \<Rightarrow> c\<lparr>cn_reply := None, cn_to_client := cn_to_client c @ packet\<rparr>
                | Some n \<Rightarrow> c\<lparr>cn_reply := None, cn_to_client := cn_to_client c @ take n packet, cn_down := False\<rparr>))"
| "proxy_step c CloseBoth = (if \<not> cn_up c \<or> \<not> cn_down c then c\<lparr>cn_closed := True\<rparr> else c)"

subsection \<open>The process\<close>

text \<open>
  \<open>handle\<close>: with an upstream the connection starts, otherwise the client is closed at once. What the
  upstream of a connection will send is given by its address; \<^term>\<open>None\<close> stands for a failed dial.
\<close>

definition handle :: "string \<Rightarrow> (string \<Rightarrow> string option) \<Rightarrow> string \<Rightarrow> connection option" where
  "handle client dial upstreamAddress = map_option (proxy_start client) (dial upstreamAddress)"

datatype process_event =
    Accepted string "string \<Rightarrow> string option"
  | AcceptFailed
  | Goroutine nat proxy_event

text \<open>\<open>fatal\<close> prints the error and ends the process with this status.\<close>

definition fatal :: int where
  "fatal = 1"

text \<open>The accept loop and the goroutines of the connections accepted so far; \<^term>\<open>Some\<close> exit status when the process ended.\<close>

fun accept_loop :: "string \<Rightarrow> process_event list \<Rightarrow> connection option list \<Rightarrow> connection option list \<times> int option" where
  "accept_loop upstream [] cs = (cs, None)"
| "accept_loop upstream (Accepted client dial # es) cs = accept_loop upstream es (cs @ [handle client dial upstream])"
| "accept_loop upstream (AcceptFailed # es) cs = (cs, Some fatal)"
| "accept_loop upstream (Goroutine k e # es) cs =
     accept_loop upstream es (if k < length cs then cs[k := map_option (\<lambda>c. proxy_step c e) (cs ! k)] else cs)"

text \<open>\<open>listens\<close>: the addresses that can be listened on.\<close>

definition proxy_main :: "(string \<Rightarrow> bool) \<Rightarrow> string list \<Rightarrow> process_event list \<Rightarrow> connection option list \<times> int option" where
  "proxy_main listens args es =
     (case parse_flag_set (fmupd ''upstream'' ''127.0.0.1:3306'' (fmupd ''listen'' ''127.0.0.1:13306'' fmempty)) args of
        Inl e \<Rightarrow> ([], Some (if e = FlagHelp then 0 else 2))
      | Inr (flags, rest) \<Rightarrow>
          if length rest \<noteq> 0 then ([], Some fatal)
          else if \<not> listens (the (fmlookup flags ''listen'')) then ([], Some fatal)
          else accept_loop (the (fmlookup flags ''upstream'')) es [])"

subsection \<open>Invariants\<close>

lemma readPacket_split: "readPacket s = Some (packet, payload, rest) \<Longrightarrow> s = packet @ rest \<and> packet = take 4 packet @ payload"
  by (auto simp: readPacket_def Let_def split: if_splits) (metis append_take_drop_id drop_drop take_add add.commute)+

definition waiting :: "string option \<Rightarrow> string" where
  "waiting x = (case x of None \<Rightarrow> [] | Some p \<Rightarrow> p)"

text \<open>One direction: nothing is changed, reordered or invented, and a goroutine that ended holds no packet.
  \<open>early\<close> is the packet before the flag is touched, \<open>late\<close> the packet after.\<close>

definition direction_ok :: "string \<Rightarrow> string \<Rightarrow> string option \<Rightarrow> string option \<Rightarrow> string \<Rightarrow> bool \<Rightarrow> bool" where
  "direction_ok source sent late early rest running \<longleftrightarrow> (late = None \<or> early = None) \<and>
     (if running then source = sent @ waiting late @ waiting early @ rest
      else late = None \<and> early = None \<and> prefix sent source)"

definition faithful :: "string \<Rightarrow> string \<Rightarrow> connection \<Rightarrow> bool" where
  "faithful client server c \<longleftrightarrow>
     direction_ok client (cn_to_server c) (cn_request c) (map_option fst (cn_read c)) (cn_client c) (cn_up c) \<and>
     direction_ok server (cn_to_client c) (cn_reply c) (cn_answer c) (cn_server c) (cn_down c)"

lemma direction_prefix: "direction_ok source sent late early rest running \<Longrightarrow> prefix sent source"
  by (auto simp: direction_ok_def split: if_splits)

lemma take_append_split: "\<exists>zs. xs @ ys = take n xs @ zs"
  by (metis append_assoc append_take_drop_id)

lemma direction_steps:
  assumes "direction_ok source sent late early rest running"
  shows "late = None \<Longrightarrow> early = None \<Longrightarrow> direction_ok source sent None None rest False"
    and "early = Some p \<Longrightarrow> direction_ok source sent (Some p) None rest running"
    and "early = Some p \<Longrightarrow> direction_ok source sent late None rest False"
    and "late = Some p \<Longrightarrow> direction_ok source (sent @ p) None early rest running"
    and "late = Some p \<Longrightarrow> direction_ok source (sent @ take n p) None early rest False"
    and "late = Some p \<Longrightarrow> direction_ok source sent None early rest False"
    and "late = None \<Longrightarrow> early = None \<Longrightarrow> running \<Longrightarrow> readPacket rest = Some (p, payload, rest') \<Longrightarrow>
      direction_ok source sent None (Some p) rest' running"
  using assms direction_prefix [OF assms] readPacket_split [of rest p payload rest'] take_append_split [of p _ n]
  by (auto simp: direction_ok_def waiting_def prefix_def split: if_splits)

interpretation fwd: step_invariant proxy_step "\<lambda>_ _. True" "faithful client server" for client server
proof unfold_locales
  fix c e assume "faithful client server c"
  then have U: "direction_ok client (cn_to_server c) (cn_request c) (map_option fst (cn_read c)) (cn_client c) (cn_up c)"
    and D: "direction_ok server (cn_to_client c) (cn_reply c) (cn_answer c) (cn_server c) (cn_down c)"
    by (simp_all add: faithful_def)
  note S = direction_steps [OF U] direction_steps [OF D]
  show "faithful client server (proxy_step c e)"
    unfolding faithful_def using U D S by (cases e; cases "cn_read c") (auto split: option.splits if_splits)
qed

text \<open>From the moment the flag is set, no packet passes the swap any more; \<open>reply\<close> is what had passed before.\<close>

definition silenced :: "string \<Rightarrow> string \<Rightarrow> connection \<Rightarrow> bool" where
  "silenced sent reply c \<longleftrightarrow> (cn_drop c \<or> \<not> cn_down c \<and> cn_answer c = None) \<and> prefix sent (cn_to_client c) \<and>
     prefix (cn_to_client c @ waiting (cn_reply c)) (sent @ reply)"

lemma prefix_take: "prefix (xs @ ys) zs \<Longrightarrow> prefix (xs @ take n ys) zs"
  using take_is_prefix [of n ys] by (metis prefix_order.trans same_prefix_prefix)

interpretation mute: step_invariant proxy_step "\<lambda>_ _. True" "silenced sent reply" for sent reply
proof unfold_locales
  fix c e assume c: "silenced sent reply c"
  then have p: "prefix (cn_to_client c) (sent @ reply)" unfolding silenced_def by (meson append_prefixD)
  show "silenced sent reply (proxy_step c e)"
    using c p by (cases e) (auto simp: silenced_def waiting_def prefix_take split: option.splits)
qed

subsection \<open>Properties\<close>

text \<open>The steps of one connection until the process ends.\<close>

definition own :: "nat \<Rightarrow> process_event list \<Rightarrow> proxy_event list" where
  "own k es = concat (map (\<lambda>x. case x of Goroutine j e \<Rightarrow> if j = k then [e] else [] | _ \<Rightarrow> [])
     (takeWhile (\<lambda>x. x \<noteq> AcceptFailed) es))"

lemma own_simps [simp]:
  "own k [] = []" "own k (Accepted client dial # es) = own k es" "own k (AcceptFailed # es) = []"
  "own k (Goroutine j e # es) = (if j = k then [e] else []) @ own k es"
  by (simp_all add: own_def)

lemma accept_loop_nth:
  assumes "accept_loop upstream es cs = (cs', x)" and "k < length cs"
  shows "k < length cs' \<and> cs' ! k = map_option (\<lambda>c. run proxy_step c (own k es)) (cs ! k)"
  using assms
proof (induction upstream es cs rule: accept_loop.induct)
  case (1 upstream cs)
  then show ?case by (simp add: option.map_ident)
next
  case (4 upstream j e es cs)
  then show ?case by (cases "j = k") (auto simp: option.map_comp comp_def nth_list_update simp del: proxy_step.simps split: if_splits)
qed (auto simp: nth_append option.map_ident)

definition started :: "connection option list \<Rightarrow> bool" where
  "started cs \<longleftrightarrow> (\<forall>c. Some c \<in> set cs \<longrightarrow> (\<exists>client server fs. c = run proxy_step (proxy_start client server) fs))"

lemma started_append: "started (cs @ ds) \<longleftrightarrow> started cs \<and> started ds"
  unfolding started_def by (simp only: set_append Un_iff) blast

lemma started_step: "started cs \<Longrightarrow> k < length cs \<Longrightarrow> started (cs[k := map_option (\<lambda>c. proxy_step c e) (cs ! k)])"
proof -
  assume cs: "started cs" and k: "k < length cs"
  have "\<exists>client server fs. proxy_step c e = run proxy_step (proxy_start client server) fs" if "cs ! k = Some c" for c
  proof -
    have "Some c \<in> set cs" using that k by (metis nth_mem)
    then obtain client server fs where "c = run proxy_step (proxy_start client server) fs" using cs unfolding started_def by blast
    then have "proxy_step c e = run proxy_step (proxy_start client server) (fs @ [e])" by simp
    then show ?thesis by blast
  qed
  with cs set_update_subset_insert [of cs k] show ?thesis unfolding started_def by (metis (no_types, lifting) insert_iff map_option_eq_Some subset_iff)
qed

lemma started_loop: "accept_loop upstream es cs = (cs', x) \<Longrightarrow> started cs \<Longrightarrow> started cs'"
proof (induction upstream es cs rule: accept_loop.induct)
  case (2 upstream client dial es cs)
  have "\<exists>client server fs. proxy_start client' v = run proxy_step (proxy_start client server) fs" for client' v
    by (intro exI [of _ client'] exI [of _ v] exI [of _ "[]"]) simp
  then have "started [handle client dial upstream]"
    by (cases "dial upstream") (simp_all add: started_def handle_def)
  with 2 show ?case by (simp add: started_append)
next
  case (4 upstream k e es cs)
  then show ?case using started_step by (simp split: if_splits)
qed simp_all

lemma silenced_run:
  assumes "cn_read c = Some (packet, payload)" and "is_commit payload"
  shows "prefix (cn_to_client c) (cn_to_client (run proxy_step c (Inspect # fs)))"
    and "prefix (cn_to_client (run proxy_step c (Inspect # fs))) (cn_to_client c @ waiting (cn_reply c))"
    and "\<not> cn_closed c \<Longrightarrow> cn_to_server (run proxy_step c [Inspect, WriteServer None]) = cn_to_server c @ packet"
proof -
  let ?c = "proxy_step c Inspect"
  have c: "?c = c\<lparr>cn_read := None, cn_request := Some packet, cn_drop := True\<rparr>" using assms by simp
  have "silenced (cn_to_client c) (waiting (cn_reply c)) ?c" unfolding c silenced_def by simp
  then have s: "silenced (cn_to_client c) (waiting (cn_reply c)) (run proxy_step ?c fs)" by (rule mute.inv_run) simp
  then show "prefix (cn_to_client c) (cn_to_client (run proxy_step c (Inspect # fs)))"
    by (simp add: silenced_def del: proxy_step.simps)
  show "prefix (cn_to_client (run proxy_step c (Inspect # fs))) (cn_to_client c @ waiting (cn_reply c))"
    using s unfolding silenced_def by (simp del: proxy_step.simps) (meson append_prefixD)
  show "cn_to_server (run proxy_step c [Inspect, WriteServer None]) = cn_to_server c @ packet" if "\<not> cn_closed c"
    using that by (simp add: c del: proxy_step.simps(2))
qed

lemma faithful_run: "faithful client server (run proxy_step (proxy_start client server) es)"
  by (rule fwd.inv_run) (simp_all add: faithful_def direction_ok_def proxy_start_def waiting_def)

text \<open>C33: The proxy makes exactly the fault it is built for, on every connection and in any interleaving of all
  its goroutines. Both sides of a connection receive an unchanged prefix of what the other side sent.
  When a goroutine has read a \<^verbatim>\<open>COMMIT\<close> and stores the flag, that packet is still to be written to the
  server and can be; from the store on, whatever happens, even the end of the process, nothing reaches
  that client any more except the packet, if any, that had already passed the swap of the flag. The server
  sent that packet before it got the \<^verbatim>\<open>COMMIT\<close>, so the commit takes effect and its answer is lost. The
  other connections run as if this one did not exist.\<close>

theorem proxy_hides_commit_answer:
  assumes "proxy_main listens args es = (cs, None)" and "k < length cs" and "cs ! k = Some c"
    and "\<not> cn_closed c" and "cn_read c = Some (packet, payload)" and "is_commit payload"
    and "accept_loop upstream (Goroutine k Inspect # fs) cs = (cs', x)"
  shows "cn_to_server (run proxy_step c [Inspect, WriteServer None]) = cn_to_server c @ packet \<and>
    (\<exists>c'. cs' ! k = Some c' \<and> prefix (cn_to_client c) (cn_to_client c') \<and>
      prefix (cn_to_client c') (cn_to_client c @ waiting (cn_reply c)) \<and>
      (\<exists>client server gs. c' = run proxy_step (proxy_start client server) gs \<and>
        prefix (cn_to_server c') client \<and> prefix (cn_to_client c') server)) \<and>
    (\<forall>j < length cs. j \<noteq> k \<longrightarrow> cs' ! j = map_option (\<lambda>c. run proxy_step c (own j fs)) (cs ! j))"
proof -
  obtain up where "accept_loop up es [] = (cs, None)"
    using assms(1) by (auto simp: proxy_main_def split: sum.splits prod.splits if_splits)
  then have "started cs" by (rule started_loop) (simp add: started_def)
  then have "started cs'" using started_loop [OF assms(7)] by blast
  have N: "cs' ! j = map_option (\<lambda>c. run proxy_step c (own j (Goroutine k Inspect # fs))) (cs ! j)" "j < length cs'"
    if "j < length cs" for j using accept_loop_nth [OF assms(7) that] by simp_all
  define c' where "c' = run proxy_step c (Inspect # own k fs)"
  have c': "cs' ! k = Some c'" using N(1) [OF assms(2)] assms(3) by (simp add: c'_def del: proxy_step.simps)
  then have "Some c' \<in> set cs'" using N(2) [OF assms(2)] by (metis nth_mem)
  then obtain client server gs where G: "c' = run proxy_step (proxy_start client server) gs"
    using \<open>started cs'\<close> unfolding started_def by blast
  then have "prefix (cn_to_server c') client" "prefix (cn_to_client c') server"
    using faithful_run [of client server gs] direction_prefix unfolding faithful_def by blast+
  moreover note silenced_run [OF assms(5,6)]
  moreover have "\<forall>j < length cs. j \<noteq> k \<longrightarrow> cs' ! j = map_option (\<lambda>c. run proxy_step c (own j fs)) (cs ! j)"
    using N(1) by simp
  ultimately show ?thesis using c' G assms(4) unfolding c'_def by blast
qed

definition commit_packet :: string where
  "commit_packet = [CHR 0x07, CHR 0x00, CHR 0x00, CHR 0x00, CHR 0x03] @ ''COMMIT''"

text \<open>An answer that has passed the swap before the flag is stored still reaches the client; the next does not.\<close>

definition greeting :: string where
  "greeting = [CHR 0x01, CHR 0x00, CHR 0x00, CHR 0x00, CHR 0x4B]"

definition sample_commit :: "process_event list" where
  "sample_commit = [Accepted commit_packet (\<lambda>_. Some (greeting @ greeting)), Goroutine 0 ReadServer, Goroutine 0 Swap,
     Goroutine 0 ReadClient]"

theorem proxy_hides_commit_answer_witness:
  "\<exists>c c'. proxy_main (\<lambda>_. True) [''-listen'', ''l''] sample_commit = ([Some c], None) \<and> cn_reply c = Some greeting \<and>
     accept_loop ''u'' [Goroutine 0 Inspect, Goroutine 0 (WriteServer None), Goroutine 0 (WriteClient None),
         Goroutine 0 ReadServer, Goroutine 0 Swap, Goroutine 0 (WriteClient None)] [Some c] = ([Some c'], None) \<and>
     prefix (cn_to_client c') greeting"
proof -
  let ?fs = "[WriteServer None, WriteClient None, ReadServer, Swap, WriteClient None]"
  define c where "c = run proxy_step (proxy_start commit_packet (greeting @ greeting)) [ReadServer, Swap, ReadClient]"
  define d where "d = run proxy_step c (Inspect # ?fs)"
  have m: "proxy_main (\<lambda>_. True) [''-listen'', ''l''] sample_commit = ([Some c], None)"
    by (simp add: proxy_main_def sample_commit_def split_assign_def handle_def Let_def c_def del: proxy_step.simps)
  have a: "accept_loop ''u'' (Goroutine 0 Inspect # map (Goroutine 0) ?fs) [Some c] = ([Some d], None)"
    by (simp add: d_def del: proxy_step.simps)
  have p: "readPacket commit_packet = Some (commit_packet, [CHR 0x03] @ ''COMMIT'', [])"
      "readPacket (greeting @ greeting) = Some (greeting, [CHR 0x4B], greeting)"
    by (simp_all add: readPacket_def packet_length_def commit_packet_def greeting_def Let_def)
  then have c: "cn_read c = Some (commit_packet, [CHR 0x03] @ ''COMMIT'')" "\<not> cn_closed c" "cn_reply c = Some greeting"
      "cn_to_client c = []"
    by (simp_all add: proxy_start_def c_def)
  have "is_commit ([CHR 0x03] @ ''COMMIT'')" by code_simp
  from proxy_hides_commit_answer [OF m _ _ c(2,1) this a]
  have "prefix (cn_to_client d) greeting" by (simp add: c(3,4) waiting_def del: proxy_step.simps)
  with m a c(3) show ?thesis by (auto simp del: proxy_step.simps)
qed

end
