(* ===== verification/Spec2Isabelle.thy ===== *)
theory Spec2Isabelle
  imports Xudp_Session Contract Controller Command Fault_Proxy
begin

text \<open>
  \<^bold>\<open>vlesshappy: a verification of the node service\<close>

  vlesshappy serves one VLESS/REALITY node of an SSPanel installation. It reads the node and its
  users from the panel database, runs an embedded Xray instance for them, controls every session
  that Xray opens, counts traffic, and books it in the panel. The parts and how they interact:

  \<^item> \<^verbatim>\<open>internal/lifecycle\<close> starts everything, then runs a loop of periodic reports and refreshes
    until it is told to stop. A report drains the counters of the engine into a batch, publishes the
    batch in the outbox, books the batches of the outbox in the database and sends telemetry. A
    refresh loads the authorization snapshot and updates or restarts the engine.
  \<^item> \<^verbatim>\<open>internal/xrayadapter\<close> builds the Xray configuration, keeps the users of the inbound, and reads
    and resets the traffic counters.
  \<^item> \<^verbatim>\<open>internal/session\<close> is called by Xray for every handshake, connection and datagram session: it
    checks the policy of the user, the limits and the addresses, and revokes sessions when the
    snapshot changes. The hooks through which Xray calls it are patches of the repository to its
    vendored copy.
  \<^item> \<^verbatim>\<open>internal/accounting\<close> is the durable outbox, one file per batch.
  \<^item> \<^verbatim>\<open>internal/database\<close> reads the snapshot and books batches, each in one transaction.
  \<^item> \<^verbatim>\<open>internal/policy\<close>, \<^verbatim>\<open>internal/model\<close> and \<^verbatim>\<open>internal/config\<close> hold the policy lists, the data of the
    panel and the configuration file.

  \<^bold>\<open>Theories and sources\<close>

  The base of the library: \<open>Go_Prelude\<close> (64 bit integers with wrap-around, counters in maps,
  positional numbers, runs of a step function and the locale \<open>step_invariant\<close>), \<open>Go_Text\<close> (decimal
  and hexadecimal text, splitting and trimming, the locale \<open>codec\<close> of print and parse pairs),
  \<open>Go_Netip\<close> (\<^verbatim>\<open>net/netip\<close> addresses and prefixes), \<open>Go_Float\<close> (\<^verbatim>\<open>float64\<close> as rounded rationals),
  \<open>Go_Path\<close> (\<^verbatim>\<open>path/filepath\<close>) and \<open>Go_Flag\<close> (\<^verbatim>\<open>flag\<close>).

  The components, each with its records, its operations and its lemmas:

  \<^item> \<open>Policy\<close>: \<^verbatim>\<open>policy.go\<close>. The compiled lists block exactly what their text covers, except that
    mapped prefixes shorter than 96 bits and addresses with a zone never match.
  \<^item> \<open>Panel_Model\<close>: \<^verbatim>\<open>model.go\<close>. Identities, finalized snapshots and the binary search in them.
  \<^item> \<open>Config\<close>: \<^verbatim>\<open>config.go\<close>. The scan for repeated keys, defaults and validation.
  \<^item> \<open>Session_Registry\<close>: \<^verbatim>\<open>registry.go\<close>, every operation of the registry and of leases.
    \<open>Session_Invariant\<close> and \<open>Session_Machine\<close>: the machine whose steps are the critical sections of
    the registry, its invariant, and the guarantees for every interleaving. \<open>Session_Connectors\<close>: the
    limit of source addresses. \<open>Session_Lease\<close>: rebinding and throttling.
  \<^item> \<open>Session_Control\<close>: the hooks in the vendored Xray, \<^verbatim>\<open>common/sessioncontrol/control.go\<close>,
    \<^verbatim>\<open>proxy/vless/inbound/sessioncontrol.go\<close> and \<^verbatim>\<open>app/dispatcher/sessioncontrol.go\<close>, with the functions that
    use them. \<open>Data_Plane\<close>: the locales \<open>lease_provider\<close> and \<open>shared_provider\<close>, which state what the
    holder of leases relies on, interpreted on the registry; the machine of controlled sessions with
    everything else that happens to the registry; \<^verbatim>\<open>Dispatch\<close> and \<^verbatim>\<open>DispatchLink\<close>. \<open>Traffic\<close>: the controlled
    reader and writer and the limiters of a lease. \<open>Xudp_Session\<close>: the sessions that the XUDP manager
    of \<^verbatim>\<open>common/mux\<close> keeps beyond their connection.
  \<^item> \<open>Outbox\<close>: \<^verbatim>\<open>outbox.go\<close>. \<open>Outbox_Log\<close>: the directory as a log, crash safety of \<^verbatim>\<open>Save\<close>.
  \<^item> \<open>Database\<close>: \<^verbatim>\<open>mysql.go\<close>. \<open>Ledger\<close>: what a booking does, and that it happens once and completely.
    \<open>Authorization\<close>: which users a snapshot holds.
  \<^item> \<open>Xray_Engine\<close>: \<^verbatim>\<open>engine.go\<close> and the user validator of the vendored Xray. \<open>Engine_Users\<close>: the hot
    update of users and its rollback. \<open>Engine_Counters\<close>: draining and restoring counters.
  \<^item> \<open>Lifecycle\<close> and \<open>Service\<close>: \<^verbatim>\<open>run.go\<close>, the operations of the runtime state and the process.
    \<open>Journal\<close>: the locale \<open>journal_ledger\<close> that states what the replay relies on, interpreted on the
    outbox and the database. \<open>Settlement\<close>: conservation of traffic by report, hot update, restart and
    shutdown. \<open>Operation\<close>: the start, and whole runs of the main loop. \<open>Contract\<close>: the abstract machine
    of open and booked batches with the step relation \<open>settle\<close>, the locale \<open>simulation\<close>, and its
    interpretation on the steps of the service, which gives the refinement of whole processes.
    \<open>Controller\<close>: the session controller over the life of the service.
  \<^item> \<open>Command\<close>: \<^verbatim>\<open>cmd/vlesshappy/main.go\<close>, the commands, and that the service accepts the keys of
    \<^verbatim>\<open>keygen\<close>. \<open>Fault_Proxy\<close>: \<^verbatim>\<open>cmd/vlesshappy-mysql-faultproxy/main.go\<close>, the proxy that the
    acceptance tests use to lose the answer to a commit, with the goroutines of all its connections
    interleaved.

  \<^bold>\<open>How the model corresponds to the code\<close>

  A struct is a record, a Go map a finite map or a function, a method a function from the old state
  to the new one with its results, in the order and with the guards of the source. Names are those of
  the source where Isabelle allows it. Errors are values of one datatype per component; a panic is
  \<^term>\<open>None\<close>. Signed 64 bit integers are integers with \<open>wrap64\<close> where the code may overflow. Strings are
  lists of bytes. A loop is a recursive function over what it ranges over; the loops of
  \<^verbatim>\<open>rejectDuplicateKeys\<close>, \<^verbatim>\<open>UserByID\<close>, \<^verbatim>\<open>humanBytes\<close> and of the throttle have termination proofs, and
  trimming, splitting and printing in a base take the length of the text or the number itself as
  fuel, which bounds their iterations.

  What the program does not compute itself is a parameter: cryptographic functions, encoders and
  decoders, the resolver, the compilation of the Xray configuration, and the outcome of every system
  call and SQL statement, gathered in one environment record per operation. Properties that rely on
  documented behaviour of a parameter name it as a hypothesis, and a witness instantiates it with a
  concrete function: \<open>lib_ok\<close> for the encoder and decoder of batches, instantiated by \<open>line_lib\<close>.

  Mutual exclusion is taken from the mutexes: an operation between \<^verbatim>\<open>Lock\<close> and \<^verbatim>\<open>Unlock\<close> is one step.
  \<^verbatim>\<open>Open\<close> of the registry resolves a name outside the lock, so it is two steps with any steps of
  others between them. \<^verbatim>\<open>LoadSnapshot\<close> runs two queries without a transaction, so other clients may change
  the tables between them (\<open>le_between\<close>). A callback of \<^verbatim>\<open>context.AfterFunc\<close> runs in its own goroutine: the
  end of a context and the callback are separate events, with any events between them. The goroutines
  of the fault proxy read, store or swap the flag, and write in separate steps.

  \<^bold>\<open>What is shown\<close>

  Sessions: limits, books and policy hold in every reachable state, every revoked session is
  interrupted once. The data plane opens sessions only as the policy allows, the registry counts
  exactly the sessions whose \<^verbatim>\<open>close\<close> has not run, all traffic in buffer lists of less than two gigabytes
  is charged to the limiters, and the controller is registered exactly while the engine runs. A lease
  can be moved after it was closed, which the takeover of an XUDP session does. Counters, limits,
  policy and callbacks do not depend on it (\<open>core_inv\<close>); the source addresses that \<^verbatim>\<open>Online\<close> reports and
  the limit of source addresses do, so the properties about them name the hypothesis
  \<open>moves_open_leases\<close>, and \<open>late_move_exceeds_limit\<close> shows that it is needed. \<open>Xudp_Session\<close> shows
  what else follows from such a takeover. Accounting: from the counter of a user to the row in the panel no byte is lost or
  booked twice, over whole runs and with faults at every call, as long as the engine is not
  restarted; for a restart the two cases that lose traffic are given. A batch that is stored is never
  lost and booked once, in every run of the process, restarts and shutdown included. Outbox and ledger: crash
  safety, all or nothing, exactly once, progress without faults. Authorization: the snapshot, the inbound users and the
  policy checks are exact. Configuration: accepted files are usable, except for intervals of more
  than 9223372036 seconds, whose duration overflows. Further lemmas state deviations of the code from its intent.

  \<^bold>\<open>Not modelled\<close>

  Log formatting; data lost in a power failure after a system call reported success, so \<^verbatim>\<open>fsync\<close> matters
  here only by its error; the creation of the state directory and of the lock file before \<^verbatim>\<open>flock\<close>, of which
  only the failures are modelled; transactions of
  other clients of the panel between the statements of one transaction; timers and deadlines other
  than as the failure of the call they interrupt; the protocols, transports, routing and sniffing of
  Xray, which are vendored and not changed by the repository; the PHP overlay of the panel and the
  scripts of the repository.
\<close>

end
